(* ===== verification/Prelude.thy ===== *)
theory Prelude
  imports Complex_Main "HOL-Library.Word"
begin

section \<open>Shared types, collections and lemmas\<close>

text \<open>
  What every component of the development uses: the C integer types of the
  sources as fixed-width words, the collections of lemmas that the component
  proofs hand to the simplifier, and generic facts about masked positions,
  counted loops and lists used as arrays.
\<close>

unbundle bit_operations_syntax

subsection \<open>C types\<close>

text \<open>
  \<^typ>\<open>32 word\<close> stands for \<open>uint32\<close>, \<open>Oid\<close>, \<open>Index\<close> and (read with
  \<^const>\<open>sint\<close>) \<open>int\<close>; \<^typ>\<open>64 word\<close> for \<open>uint64\<close> and (signed) \<open>int64\<close>
  and \<open>TimestampTz\<close>; \<^typ>\<open>16 word\<close> for \<open>int16\<close> and \<open>AttrNumber\<close>.
\<close>

type_synonym int16 = "16 word"
type_synonym int32 = "32 word"
type_synonym uint32 = "32 word"
type_synonym int64 = "64 word"
type_synonym uint64 = "64 word"
type_synonym Oid = "32 word"
type_synonym Index = "32 word"
type_synonym AttrNumber = "16 word"
type_synonym TimestampTz = "64 word"

subsection \<open>Errors\<close>

text \<open>
  \<open>ereport(ERROR, ...)\<close> and \<open>elog(ERROR, ...)\<close> leave the function: a function that
  may raise returns a sum, with the error on the left.
\<close>

datatype pg_error = PgError string

type_synonym 'a result = "pg_error + 'a"

fun bind_res :: "'a result \<Rightarrow> ('a \<Rightarrow> 'b result) \<Rightarrow> 'b result" where
  "bind_res (Inl e) f = Inl e"
| "bind_res (Inr a) f = f a"

lemma bind_res_Inr [simp]: "bind_res r f = Inr b \<longleftrightarrow> (\<exists>a. r = Inr a \<and> f a = Inr b)"
  by (cases r) auto

subsection \<open>Collections of lemmas\<close>

named_theorems masked \<open>positions masked to a power-of-two table\<close>
named_theorems no_wrap \<open>word arithmetic that does not wrap around\<close>
named_theorems arrays \<open>lists used as C arrays\<close>

subsection \<open>Masked positions\<close>

lemma unat_and_4095 [masked]: "unat ((w :: uint64) AND 4095) = unat w mod 4096"
proof -
  have "w AND 4095 = take_bit 12 w"
    by (simp add: take_bit_eq_mask mask_eq_exp_minus_1)
  then show ?thesis
    by (simp add: take_bit_eq_mod unat_mod_distrib)
qed

lemma unat_and_2047 [masked]: "unat ((w :: uint32) AND 2047) = unat w mod 2048"
proof -
  have "w AND 2047 = take_bit 11 w"
    by (simp add: take_bit_eq_mask mask_eq_exp_minus_1)
  then show ?thesis
    by (simp add: take_bit_eq_mod unat_mod_distrib)
qed

lemma mask_4095_eq_iff [masked]:
  "(v :: uint64) AND 4095 = w AND 4095 \<longleftrightarrow> unat v mod 4096 = unat w mod 4096"
  by (metis unat_and_4095 word_unat_eq_iff)

text \<open>Two positions less than a table's size apart fall on different slots.\<close>

lemma mod_inj_window:
  fixes a b n :: nat
  assumes "a \<le> b" and "b < a + n" and "a mod n = b mod n"
  shows "a = b"
proof -
  obtain k where "b = a + n * k"
    using assms(1,3) by (metis mod_eq_nat2E)
  with assms(2) have "n * k < n" by simp
  then have "k = 0" by (cases k) auto
  with \<open>b = a + n * k\<close> show ?thesis by simp
qed

lemma mod_neq_window:
  fixes a b n :: nat
  assumes "a \<noteq> b" and "a < b + n" and "b < a + n"
  shows "a mod n \<noteq> b mod n"
  using assms mod_inj_window [of a b n] mod_inj_window [of b a n] by linarith

lemma mod_full_window:
  fixes u d n :: nat
  assumes "d < n"
  shows "(u + d + 1) mod n = u mod n \<longleftrightarrow> d + 1 = n"
proof
  assume eq: "(u + d + 1) mod n = u mod n"
  show "d + 1 = n"
  proof (rule ccontr)
    assume "d + 1 \<noteq> n"
    with assms have "(u + d + 1) mod n \<noteq> u mod n"
      by (intro mod_neq_window) auto
    with eq show False by simp
  qed
next
  assume "d + 1 = n"
  then have "u + d + 1 = u + n" by simp
  then show "(u + d + 1) mod n = u mod n" by (simp only: mod_add_self2)
qed

text \<open>The ring's size divides \<open>2 ^ 64\<close>, so positions may wrap around.\<close>

lemma unat_add_mod_4096 [masked]:
  "unat ((v :: uint64) + w) mod 4096 = (unat v + unat w) mod 4096"
proof -
  have "unat (v + w) = (unat v + unat w) mod 2 ^ 64"
    by (simp add: unat_word_ariths)
  then have "unat (v + w) mod 4096 = (unat v + unat w) mod 2 ^ 64 mod 4096" by simp
  also have "\<dots> = (unat v + unat w) mod 4096" by (rule mod_mod_cancel) simp
  finally show ?thesis .
qed

lemma unat_of_nat_u64 [no_wrap]: "n < 2 ^ 64 \<Longrightarrow> unat (of_nat n :: uint64) = n"
  by (simp add: unat_of_nat)

subsection \<open>Increments that do not wrap\<close>

lemma unat_Suc_u64 [no_wrap]:
  "unat (w :: uint64) + 1 < 2 ^ 64 \<Longrightarrow> unat (w + 1) = Suc (unat w)"
  by (simp add: unat_word_ariths)

lemma unat_less_u64: "unat (w :: uint64) < 2 ^ 64"
proof -
  have "unat w < 2 ^ LENGTH(64)" by (rule unsigned_less)
  then show ?thesis by simp
qed

lemma unat_window_extend [no_wrap]:
  fixes h t :: uint64
  assumes "unat (t - h) + 1 < 2 ^ 64"
  shows "unat (t + 1 - h) = Suc (unat (t - h))"
proof -
  have "t + 1 - h = (t - h) + 1" by simp
  then show ?thesis using unat_Suc_u64 [OF assms] by (simp only:)
qed

text \<open>The distance from a moving position to a fixed one shrinks by one.\<close>

lemma unat_distance_step [no_wrap]:
  fixes h t :: uint64
  assumes "h \<noteq> t"
  shows "Suc (unat (t - (h + 1))) = unat (t - h)"
proof -
  have eq: "t - (h + 1) = (t - h) - 1" by (simp add: diff_diff_add)
  have "t - h \<noteq> 0" using assms by simp
  then show ?thesis
    unfolding eq using unat_minus_one [of "t - h"] unat_gt_0 [of "t - h"] by simp
qed

subsection \<open>Lists as C arrays\<close>

text \<open>
  The live part of an array \<open>xs\<close> with a fill count \<open>n\<close>, and what storing at the
  fill count does to it.
\<close>

lemma take_store [arrays]:
  "n < length xs \<Longrightarrow> take (Suc n) (xs[n := x]) = take n xs @ [x]"
  by (simp add: take_Suc_conv_app_nth)

lemma take_append_le:
  "n \<le> length xs \<Longrightarrow> take n (xs @ ys) = take n xs"
  by simp

subsection \<open>Signed values of words\<close>

lemma uint_of_sint: "uint (w::'a::len word) = sint w mod 2 ^ LENGTH('a)"
  using uint_word_of_int [of "sint w", where 'a = 'a] by simp

lemma uint_neg_sint: "uint (- (w::'a::len word)) = (- sint w) mod 2 ^ LENGTH('a)"
  using uint_word_of_int [of "- sint w", where 'a = 'a] by simp

lemma pow_half: "(2::int) ^ LENGTH('a::len) = 2 * 2 ^ (LENGTH('a) - 1)"
  by (metis One_nat_def Suc_pred len_gt_0 power_Suc)

text \<open>The magnitude of a signed value, as the sources compute it with unsigned negation.\<close>

lemma unat_abs:
  "sint w < 0 \<Longrightarrow> unat (0 - w) = nat (- sint w)" "\<not> sint w < 0 \<Longrightarrow> unat w = nat (sint w)"
  for w :: "'a::len word"
proof -
  have r: "sint w < 2 ^ (LENGTH('a) - 1)" "- (2 ^ (LENGTH('a) - 1)) \<le> sint w"
    using sint_lt sint_ge by blast+
  have p: "(0::int) < 2 ^ (LENGTH('a) - 1)" by simp
  show "unat w = nat (sint w)" if "\<not> sint w < 0"
    using that r p pow_half [where 'a = 'a] by (simp add: unat_eq_nat_uint uint_of_sint)
  show "unat (0 - w) = nat (- sint w)" if "sint w < 0"
    using that r p pow_half [where 'a = 'a] by (simp add: unat_eq_nat_uint uint_neg_sint)
qed

end
