(* ===== verification/Workload.thy ===== *)
theory Workload
  imports Prelude
begin

section \<open>The workload record (autoindex.h)\<close>

text \<open>
  The compile-time limits, the captured-query record and the shared-memory
  layout of \<^verbatim>\<open>include/autoindex/autoindex.h\<close>. C arrays with a fill count are
  lists of the array's fixed length beside the count; the ring's slot array is
  a function on slot numbers, because every access masks its index.
\<close>

definition AUTOINDEX_MAX_RELS :: nat where
  "AUTOINDEX_MAX_RELS = 8"

definition AUTOINDEX_MAX_COLS :: nat where
  "AUTOINDEX_MAX_COLS = 16"

definition AUTOINDEX_RING_SIZE :: uint64 where
  "AUTOINDEX_RING_SIZE = 4096"

definition AUTOINDEX_RING_MASK :: uint64 where
  "AUTOINDEX_RING_MASK = AUTOINDEX_RING_SIZE - 1"

definition FirstNormalObjectId :: Oid where
  "FirstNormalObjectId = 16384"

record WorkloadEntry =
  query_hash :: uint64
  relids :: "Oid list"
  pred_attnums :: "int16 list"
  pred_relids :: "Oid list"
  sort_attnums :: "int16 list"
  sort_relids :: "Oid list"
  join_attnums :: "int16 list"
  join_relids :: "Oid list"
  n_rels :: nat
  n_pred :: nat
  n_sort :: nat
  n_join :: nat
  plan_cost :: real
  actual_ms :: real
  entry_ts :: TimestampTz

record WorkloadRingBuffer =
  ring_head :: uint64
  ring_tail :: uint64
  ring_entries :: "nat \<Rightarrow> WorkloadEntry"

record AutoIndexShmemHeader =
  shm_version :: int32
  bgw_pid :: int32
  total_written :: uint64
  total_dropped :: uint64
  shm_ring :: WorkloadRingBuffer

text \<open>\<open>memset(&entry, 0, sizeof(WorkloadEntry))\<close>.\<close>

definition zero_entry :: WorkloadEntry where
  "zero_entry = \<lparr>
     query_hash = 0,
     relids = replicate AUTOINDEX_MAX_RELS 0,
     pred_attnums = replicate AUTOINDEX_MAX_COLS 0,
     pred_relids = replicate AUTOINDEX_MAX_COLS 0,
     sort_attnums = replicate AUTOINDEX_MAX_COLS 0,
     sort_relids = replicate AUTOINDEX_MAX_COLS 0,
     join_attnums = replicate AUTOINDEX_MAX_COLS 0,
     join_relids = replicate AUTOINDEX_MAX_COLS 0,
     n_rels = 0, n_pred = 0, n_sort = 0, n_join = 0,
     plan_cost = 0, actual_ms = 0, entry_ts = 0\<rparr>"

text \<open>\<open>autoindex_shmem_init\<close>: a zeroed header with version 1 and empty counters.\<close>

definition autoindex_shmem_init :: AutoIndexShmemHeader where
  "autoindex_shmem_init = \<lparr>
     shm_version = 1, bgw_pid = 0, total_written = 0, total_dropped = 0,
     shm_ring = \<lparr>ring_head = 0, ring_tail = 0, ring_entries = (\<lambda>_. zero_entry)\<rparr>\<rparr>"

text \<open>The slot a 64-bit position falls on.\<close>

definition ring_slot :: "uint64 \<Rightarrow> nat" where
  "ring_slot p = unat (p AND AUTOINDEX_RING_MASK)"

subsection \<open>Well-formed entries\<close>

text \<open>
  The array lengths are the declared ones and the fill counts stay within
  them: what makes every indexed access of the sources an access in bounds.
\<close>

definition wf_entry :: "WorkloadEntry \<Rightarrow> bool" where
  "wf_entry e \<longleftrightarrow>
     length (relids e) = AUTOINDEX_MAX_RELS \<and> n_rels e \<le> AUTOINDEX_MAX_RELS \<and>
     length (pred_attnums e) = AUTOINDEX_MAX_COLS \<and>
     length (pred_relids e) = AUTOINDEX_MAX_COLS \<and> n_pred e \<le> AUTOINDEX_MAX_COLS \<and>
     length (sort_attnums e) = AUTOINDEX_MAX_COLS \<and>
     length (sort_relids e) = AUTOINDEX_MAX_COLS \<and> n_sort e \<le> AUTOINDEX_MAX_COLS \<and>
     length (join_attnums e) = AUTOINDEX_MAX_COLS \<and>
     length (join_relids e) = AUTOINDEX_MAX_COLS \<and> n_join e \<le> AUTOINDEX_MAX_COLS"

text \<open>The live columns of an entry, as (relid, attnum) pairs.\<close>

definition pred_cols :: "WorkloadEntry \<Rightarrow> (Oid \<times> int16) list" where
  "pred_cols e = take (n_pred e) (zip (pred_relids e) (pred_attnums e))"

definition sort_cols :: "WorkloadEntry \<Rightarrow> (Oid \<times> int16) list" where
  "sort_cols e = take (n_sort e) (zip (sort_relids e) (sort_attnums e))"

definition join_cols :: "WorkloadEntry \<Rightarrow> (Oid \<times> int16) list" where
  "join_cols e = take (n_join e) (zip (join_relids e) (join_attnums e))"

definition rel_set :: "WorkloadEntry \<Rightarrow> Oid list" where
  "rel_set e = take (n_rels e) (relids e)"

lemmas limits = AUTOINDEX_MAX_RELS_def AUTOINDEX_MAX_COLS_def

lemma wf_zero_entry [simp]: "wf_entry zero_entry"
  by (simp add: wf_entry_def zero_entry_def)

lemma zero_entry_cols [simp]:
  "pred_cols zero_entry = []" "sort_cols zero_entry = []" "join_cols zero_entry = []"
  "rel_set zero_entry = []"
  by (simp_all add: pred_cols_def sort_cols_def join_cols_def rel_set_def zero_entry_def)

lemma ring_slot_mod [masked]: "ring_slot p = unat p mod 4096"
  by (simp add: ring_slot_def AUTOINDEX_RING_MASK_def AUTOINDEX_RING_SIZE_def unat_and_4095)

lemma ring_slot_bound [simp]: "ring_slot p < unat AUTOINDEX_RING_SIZE"
  by (simp add: ring_slot_mod AUTOINDEX_RING_SIZE_def)

end
