(* ===== verification/Ring.thy ===== *)
theory Ring
  imports Workload
begin

section \<open>The workload ring buffer (workload_capture.c, index_advisor.c)\<close>

text \<open>
  \<^verbatim>\<open>ring_buffer_push\<close> appends a captured entry by compare-and-swap on the tail;
  the \<open>while (head != tail)\<close> loop of \<^verbatim>\<open>drain_ring_buffer\<close> consumes. Here they are
  run without interference and refine a bounded FIFO queue; the interleaved
  protocol is in theory \<open>Ring_Protocol\<close>.
\<close>

subsection \<open>Operations\<close>

text \<open>Success flag and the variable's new value of \<open>pg_atomic_compare_exchange_u64\<close>.\<close>

definition pg_atomic_compare_exchange_u64 :: "uint64 \<Rightarrow> uint64 \<Rightarrow> uint64 \<Rightarrow> bool \<times> uint64" where
  "pg_atomic_compare_exchange_u64 current expected newval =
     (if current = expected then (True, newval) else (False, current))"

text \<open>The full test of \<^verbatim>\<open>ring_buffer_push\<close>.\<close>

definition ring_full :: "uint64 \<Rightarrow> uint64 \<Rightarrow> bool" where
  "ring_full t h \<longleftrightarrow> (t + 1) AND AUTOINDEX_RING_MASK = h AND AUTOINDEX_RING_MASK"

text \<open>The claimed slot is filled and \<open>total_written\<close> counted.\<close>

definition ring_store :: "uint64 \<Rightarrow> WorkloadEntry \<Rightarrow> AutoIndexShmemHeader \<Rightarrow> AutoIndexShmemHeader" where
  "ring_store t e shm = shm
     \<lparr>shm_ring := (shm_ring shm)
        \<lparr>ring_entries := (ring_entries (shm_ring shm))(ring_slot t := e)\<rparr>,
      total_written := total_written shm + 1\<rparr>"

partial_function (option) ring_buffer_push_loop ::
  "AutoIndexShmemHeader \<Rightarrow> WorkloadEntry \<Rightarrow> AutoIndexShmemHeader option" where
  "ring_buffer_push_loop shm e =
     (let t = ring_tail (shm_ring shm); h = ring_head (shm_ring shm); nxt = t + 1 in
      if ring_full t h then Some (shm\<lparr>total_dropped := total_dropped shm + 1\<rparr>)
      else
        let (ok, t') = pg_atomic_compare_exchange_u64 (ring_tail (shm_ring shm)) t nxt;
            shm' = shm\<lparr>shm_ring := (shm_ring shm)\<lparr>ring_tail := t'\<rparr>\<rparr>
        in if ok then Some (ring_store t e shm') else ring_buffer_push_loop shm' e)"

text \<open>\<open>AutoIndexShmem == NULL\<close> is \<^const>\<open>None\<close>; the outer option is termination.\<close>

definition ring_buffer_push ::
  "AutoIndexShmemHeader option \<Rightarrow> WorkloadEntry \<Rightarrow> AutoIndexShmemHeader option option" where
  "ring_buffer_push shmem e =
     (case shmem of None \<Rightarrow> Some None
      | Some shm \<Rightarrow> map_option Some (ring_buffer_push_loop shm e))"

text \<open>
  The consumer's loop over \<open>[head, tail)\<close>; \<open>body\<close> is what the loop does with the
  entry at the masked position.
\<close>

function drain_loop ::
  "(WorkloadEntry \<Rightarrow> 's \<Rightarrow> 's) \<Rightarrow> (nat \<Rightarrow> WorkloadEntry) \<Rightarrow> uint64 \<Rightarrow> uint64 \<Rightarrow> 's \<Rightarrow> 's \<times> uint64" where
  "drain_loop body es h t s =
     (if h \<noteq> t then drain_loop body es (h + 1) t (body (es (ring_slot h)) s) else (s, h))"
  by pat_completeness auto
termination
  by (relation "measure (\<lambda>(body, es, h, t, s). unat (t - h))")
    (auto dest!: unat_distance_step)

declare drain_loop.simps [simp del]

text \<open>The reads of \<open>head\<close> and \<open>tail\<close>, the loop and the write of \<open>head\<close>.\<close>

definition ring_drain ::
  "(WorkloadEntry \<Rightarrow> 's \<Rightarrow> 's) \<Rightarrow> AutoIndexShmemHeader \<Rightarrow> 's \<Rightarrow> 's \<times> AutoIndexShmemHeader" where
  "ring_drain body shm s =
     (let r = shm_ring shm;
          (s', h') = drain_loop body (ring_entries r) (ring_head r) (ring_tail r) s
      in (s', shm\<lparr>shm_ring := r\<lparr>ring_head := h'\<rparr>\<rparr>))"

subsection \<open>Abstraction: a bounded queue\<close>

definition ring_count :: "WorkloadRingBuffer \<Rightarrow> nat" where
  "ring_count r = unat (ring_tail r - ring_head r)"

definition ring_items :: "AutoIndexShmemHeader \<Rightarrow> WorkloadEntry list" where
  "ring_items shm =
     (let r = shm_ring shm in
      map (\<lambda>k. ring_entries r (ring_slot (ring_head r + of_nat k))) [0..<ring_count r])"

definition wf_ring :: "AutoIndexShmemHeader \<Rightarrow> bool" where
  "wf_ring shm \<longleftrightarrow> ring_count (shm_ring shm) \<le> 4095"

definition push_once :: "WorkloadEntry \<Rightarrow> AutoIndexShmemHeader \<Rightarrow> AutoIndexShmemHeader" where
  "push_once e shm =
     (if ring_full (ring_tail (shm_ring shm)) (ring_head (shm_ring shm))
      then shm\<lparr>total_dropped := total_dropped shm + 1\<rparr>
      else ring_store (ring_tail (shm_ring shm)) e
             (shm\<lparr>shm_ring := (shm_ring shm)\<lparr>ring_tail := ring_tail (shm_ring shm) + 1\<rparr>\<rparr>))"

subsection \<open>The interface the client relies on\<close>

locale bounded_queue =
  fixes wf :: "'q \<Rightarrow> bool"
    and items :: "'q \<Rightarrow> 'e list"
    and cap :: nat
    and push :: "'e \<Rightarrow> 'q \<Rightarrow> 'q"
    and drain :: "('e \<Rightarrow> 's \<Rightarrow> 's) \<Rightarrow> 'q \<Rightarrow> 's \<Rightarrow> 's \<times> 'q"
  assumes wf_cap: "wf q \<Longrightarrow> length (items q) \<le> cap"
    and wf_push: "wf q \<Longrightarrow> wf (push e q)"
    and items_push: "wf q \<Longrightarrow> items (push e q) = take cap (items q @ [e])"
    and wf_drain: "wf q \<Longrightarrow> wf (snd (drain f q s))"
    and drain_fold: "wf q \<Longrightarrow> fst (drain f q s) = fold f (items q) s"
    and items_drain: "wf q \<Longrightarrow> items (snd (drain f q s)) = []"
begin

lemma wf_push_all: "wf q \<Longrightarrow> wf (fold push es q)"
  by (induction es arbitrary: q) (auto simp: wf_push)

lemma items_push_all: "wf q \<Longrightarrow> items (fold push es q) = take cap (items q @ es)"
proof (induction es arbitrary: q)
  case Nil
  then show ?case by (simp add: wf_cap)
next
  case (Cons e es)
  have "take cap (take cap (items q @ [e]) @ es) = take cap (items q @ e # es)"
    using wf_cap [OF Cons.prems] by (cases "length (items q) < cap") auto
  with Cons show ?case by (simp add: wf_push items_push)
qed

text \<open>A burst of pushes and then a drain hands over the oldest \<open>cap\<close> entries, in order.\<close>

lemma drain_after_pushes:
  assumes "wf q"
  shows "fst (drain f (fold push es q) s) = fold f (take cap (items q @ es)) s"
  using assms by (simp add: drain_fold wf_push_all items_push_all)

end

subsection \<open>The ring implements the interface\<close>

lemma ring_buffer_push_loop_once: "ring_buffer_push_loop shm e = Some (push_once e shm)"
  by (subst ring_buffer_push_loop.simps)
    (simp add: push_once_def pg_atomic_compare_exchange_u64_def Let_def)

lemma drain_loop_fold:
  "drain_loop body es h t s =
     (fold body (map (\<lambda>k. es (ring_slot (h + of_nat k))) [0..<unat (t - h)]) s, t)"
proof (induction body es h t s rule: drain_loop.induct)
  case (1 body es h t s)
  show ?case
  proof (cases "h = t")
    case True
    then show ?thesis by (subst drain_loop.simps) simp
  next
    case False
    let ?g = "\<lambda>k. es (ring_slot (h + of_nat k))"
    have "map ?g [0..<unat (t - h)] = ?g 0 # map ?g [1..<unat (t - h)]"
      using unat_distance_step [OF False] by (simp add: upt_conv_Cons)
    also have "map ?g [1..<unat (t - h)]
        = map (\<lambda>k. es (ring_slot ((h + 1) + of_nat k))) [0..<unat (t - (h + 1))]"
      unfolding unat_distance_step [OF False, symmetric]
      by (simp add: map_Suc_upt [symmetric] comp_def add.assoc del: upt_Suc)
    finally show ?thesis
      using "1.IH" [OF False] False by (subst drain_loop.simps) simp
  qed
qed

lemma ring_full_iff:
  assumes "wf_ring shm"
  shows "ring_full (ring_tail (shm_ring shm)) (ring_head (shm_ring shm))
           \<longleftrightarrow> ring_count (shm_ring shm) = 4095"
proof -
  let ?t = "ring_tail (shm_ring shm)" and ?h = "ring_head (shm_ring shm)"
  have "unat (?t + 1) mod 4096 = (unat (?h + (?t - ?h)) mod 4096 + 1) mod 4096"
    by (simp add: unat_add_mod_4096 mod_simps)
  also have "\<dots> = (unat ?h + unat (?t - ?h) + 1) mod 4096"
    by (simp only: unat_add_mod_4096 mod_simps)
  finally show ?thesis
    using assms mod_full_window [of "unat (?t - ?h)" 4096 "unat ?h"]
    unfolding ring_full_def AUTOINDEX_RING_MASK_def AUTOINDEX_RING_SIZE_def ring_count_def wf_ring_def
    by (auto simp: mask_4095_eq_iff)
qed

lemma ring_count_claim:
  assumes "ring_count r < 4095"
  shows "ring_count (r\<lparr>ring_tail := ring_tail r + 1\<rparr>) = Suc (ring_count r)"
  using assms unat_window_extend [of "ring_tail r" "ring_head r"] by (simp add: ring_count_def)

lemma ring_slot_offset:
  assumes "k < 4096"
  shows "ring_slot (h + of_nat k) = (unat h + k) mod 4096"
  using assms by (simp add: ring_slot_mod unat_add_mod_4096 unat_of_nat_u64)

lemma slot_offset_neq:
  assumes "i \<noteq> j" and "i < 4096" and "j < 4096"
  shows "ring_slot (h + of_nat i) \<noteq> ring_slot (h + of_nat j)"
proof -
  have "(unat h + i) mod 4096 \<noteq> (unat h + j) mod 4096"
    by (rule mod_neq_window) (use assms in auto)
  then show ?thesis using assms by (simp add: ring_slot_offset)
qed

lemma ring_tail_position: "ring_tail r = ring_head r + of_nat (ring_count r)"
  by (simp add: ring_count_def)

lemma length_ring_items [simp]: "length (ring_items shm) = ring_count (shm_ring shm)"
  by (simp add: ring_items_def Let_def)

lemma ring_items_push_once:
  assumes wf: "wf_ring shm"
  shows "ring_items (push_once e shm) = take 4095 (ring_items shm @ [e])"
proof (cases "ring_count (shm_ring shm) = 4095")
  case True
  with wf have "ring_items (push_once e shm) = ring_items shm"
    by (simp add: push_once_def ring_full_iff ring_items_def)
  with True show ?thesis by simp
next
  case False
  let ?r = "shm_ring shm" and ?n = "ring_count (shm_ring shm)"
  from wf False have n: "?n < 4095" by (simp add: wf_ring_def)
  let ?r' = "?r\<lparr>ring_tail := ring_tail ?r + 1,
                ring_entries := (ring_entries ?r)(ring_slot (ring_tail ?r) := e)\<rparr>"
  have r': "shm_ring (push_once e shm) = ?r'"
    using wf False by (simp add: push_once_def ring_full_iff ring_store_def)
  have n': "ring_count ?r' = Suc ?n"
    using ring_count_claim [OF n] by (simp add: ring_count_def)
  have keep: "ring_slot (ring_head ?r + of_nat k) \<noteq> ring_slot (ring_tail ?r)" if "k < ?n" for k
    using that n slot_offset_neq [of k ?n "ring_head ?r"] by (simp add: ring_tail_position [symmetric])
  have last: "ring_slot (ring_head ?r + of_nat ?n) = ring_slot (ring_tail ?r)"
    by (simp add: ring_tail_position [symmetric])
  have "ring_items (push_once e shm) = ring_items shm @ [e]"
    unfolding ring_items_def Let_def r' n' using keep last by (simp add: Let_def)
  with n show ?thesis by simp
qed

lemma wf_push_once: "wf_ring shm \<Longrightarrow> wf_ring (push_once e shm)"
  using ring_items_push_once [of shm e] length_ring_items [of "push_once e shm"]
  by (simp add: wf_ring_def)

lemma ring_drain_fold:
  "ring_drain body shm s =
     (fold body (ring_items shm) s,
      shm\<lparr>shm_ring := (shm_ring shm)\<lparr>ring_head := ring_tail (shm_ring shm)\<rparr>\<rparr>)"
  by (simp add: ring_drain_def drain_loop_fold ring_items_def ring_count_def Let_def)

interpretation ringq: bounded_queue wf_ring ring_items 4095 push_once ring_drain
proof unfold_locales
  fix shm :: AutoIndexShmemHeader and e f s
  show "wf_ring shm \<Longrightarrow> length (ring_items shm) \<le> 4095"
    by (simp add: wf_ring_def)
  show "wf_ring shm \<Longrightarrow> wf_ring (push_once e shm)"
    by (rule wf_push_once)
  show "wf_ring shm \<Longrightarrow> ring_items (push_once e shm) = take 4095 (ring_items shm @ [e])"
    by (rule ring_items_push_once)
  show "wf_ring (snd (ring_drain f shm s))"
    by (simp add: ring_drain_fold wf_ring_def ring_count_def)
  show "fst (ring_drain f shm s) = fold f (ring_items shm) s"
    by (simp add: ring_drain_fold)
  show "ring_items (snd (ring_drain f shm s)) = []"
    by (simp add: ring_drain_fold ring_items_def ring_count_def)
qed

subsection \<open>Properties\<close>

text \<open>A burst of pushes, each run to completion.\<close>

fun push_seq :: "AutoIndexShmemHeader \<Rightarrow> WorkloadEntry list \<Rightarrow> AutoIndexShmemHeader option" where
  "push_seq shm [] = Some shm"
| "push_seq shm (e # es) = Option.bind (ring_buffer_push_loop shm e) (\<lambda>shm'. push_seq shm' es)"

lemma push_seq_fold: "push_seq shm es = Some (fold push_once es shm)"
  by (induction es arbitrary: shm) (simp_all add: ring_buffer_push_loop_once)

lemma wf_shmem_init: "wf_ring autoindex_shmem_init"
  by (simp add: wf_ring_def ring_count_def autoindex_shmem_init_def)

lemma ring_items_init: "ring_items autoindex_shmem_init = []"
  by (simp add: ring_items_def ring_count_def autoindex_shmem_init_def)

text \<open>
  Run to completion, \<^verbatim>\<open>ring_buffer_push\<close> always returns; it appends the entry
  and counts it as written while fewer than 4095 entries wait, and otherwise
  leaves the queue as it is and counts the entry as dropped.
\<close>

lemma ring_buffer_push_correct:
  assumes "wf_ring shm"
  shows "\<exists>shm'. ring_buffer_push (Some shm) e = Some (Some shm') \<and> wf_ring shm' \<and>
     ring_items shm' = take 4095 (ring_items shm @ [e]) \<and>
     total_written shm' = total_written shm + (if length (ring_items shm) < 4095 then 1 else 0) \<and>
     total_dropped shm' = total_dropped shm + (if length (ring_items shm) < 4095 then 0 else 1)"
proof -
  have "ring_full (ring_tail (shm_ring shm)) (ring_head (shm_ring shm))
          \<longleftrightarrow> \<not> length (ring_items shm) < 4095"
    using ring_full_iff [OF assms] assms by (auto simp: wf_ring_def)
  then show ?thesis
    using assms wf_push_once [OF assms] ring_items_push_once [OF assms]
    by (auto simp: ring_buffer_push_def ring_buffer_push_loop_once push_once_def ring_store_def)
qed

text \<open>
  C11: the ring is a bounded FIFO: after any burst of pushes on a well-formed
  ring, the worker's drain hands the waiting entries to its loop body oldest
  first, exactly the first 4095 of them, and leaves the ring empty.
\<close>

theorem ring_burst_drained:
  assumes "wf_ring shm"
  shows "\<exists>shm'. push_seq shm es = Some shm' \<and>
     fst (ring_drain body shm' s) = fold body (take 4095 (ring_items shm @ es)) s \<and>
     ring_items (snd (ring_drain body shm' s)) = []"
  using assms
  by (simp add: push_seq_fold ringq.drain_after_pushes ringq.items_drain ringq.wf_push_all)

theorem ring_burst_drained_witness:
  "\<exists>shm'. push_seq autoindex_shmem_init [zero_entry, zero_entry] = Some shm' \<and>
     fst (ring_drain (\<lambda>e n. n + (1 :: nat)) shm' 0) = 2"
  using ring_burst_drained [OF wf_shmem_init, of "[zero_entry, zero_entry]" "\<lambda>e n. n + (1 :: nat)" 0]
  by (auto simp: ring_items_init)

end
