(* ===== verification/Ring_Protocol.thy ===== *)
theory Ring_Protocol
  imports Ring
begin

section \<open>Concurrent producers and one consumer (workload_capture.c)\<close>

text \<open>
  The interleavings of \<^verbatim>\<open>ring_buffer_push\<close> run by any number of backends with the
  single background worker's \<^verbatim>\<open>drain_ring_buffer\<close>. Each atomic access of the sources
  is one step: the reads of \<open>tail\<close> and \<open>head\<close>, the compare-and-swap, the \<open>memcpy\<close>
  into the claimed slot, the two \<open>fetch_add\<close>s, and on the consumer's side the two
  reads, one slot read per loop turn, and the final write of \<open>head\<close>.
\<close>

subsection \<open>Program counters and the system state\<close>

datatype producer =
    PIdle
  | PStart WorkloadEntry                    \<comment> \<open>at the top of the retry loop\<close>
  | PTail WorkloadEntry uint64              \<comment> \<open>has read the tail\<close>
  | PFull                                   \<comment> \<open>found the buffer full\<close>
  | PCas WorkloadEntry uint64 uint64        \<comment> \<open>about to swap: the tail and head it read\<close>
  | PClaimed WorkloadEntry uint64           \<comment> \<open>owns the position, has not written it\<close>
  | PWritten uint64                         \<comment> \<open>has written it, has not counted it\<close>

datatype consumer =
    CIdle
  | CHead uint64
  | CLoop uint64 uint64                     \<comment> \<open>the loop's \<open>head\<close> and \<open>tail\<close>\<close>

text \<open>
  Ghost fields: \<open>claimed_by\<close> is the entry for which each position was claimed,
  \<open>consumed\<close> what the consumer has read, in order.
\<close>

record ring_sys =
  sys_shm :: AutoIndexShmemHeader
  producers :: "nat \<Rightarrow> producer"
  worker :: consumer
  claimed_by :: "nat \<Rightarrow> WorkloadEntry"
  consumed :: "WorkloadEntry list"

definition ring_init :: ring_sys where
  "ring_init = \<lparr>sys_shm = autoindex_shmem_init, producers = (\<lambda>_. PIdle), worker = CIdle,
                claimed_by = (\<lambda>_. zero_entry), consumed = []\<rparr>"

abbreviation sys_head :: "ring_sys \<Rightarrow> uint64" where
  "sys_head s \<equiv> ring_head (shm_ring (sys_shm s))"

abbreviation sys_tail :: "ring_sys \<Rightarrow> uint64" where
  "sys_tail s \<equiv> ring_tail (shm_ring (sys_shm s))"

abbreviation sys_slots :: "ring_sys \<Rightarrow> nat \<Rightarrow> WorkloadEntry" where
  "sys_slots s \<equiv> ring_entries (shm_ring (sys_shm s))"

definition set_producer :: "nat \<Rightarrow> producer \<Rightarrow> ring_sys \<Rightarrow> ring_sys" where
  "set_producer i p s = s\<lparr>producers := (producers s)(i := p)\<rparr>"

definition set_ring :: "WorkloadRingBuffer \<Rightarrow> ring_sys \<Rightarrow> ring_sys" where
  "set_ring r s = s\<lparr>sys_shm := (sys_shm s)\<lparr>shm_ring := r\<rparr>\<rparr>"

subsection \<open>Steps\<close>

inductive ring_step :: "ring_sys \<Rightarrow> ring_sys \<Rightarrow> bool" where
  call: "producers s i = PIdle \<Longrightarrow> ring_step s (set_producer i (PStart e) s)"
| read_tail: "producers s i = PStart e \<Longrightarrow>
    ring_step s (set_producer i (PTail e (sys_tail s)) s)"
| read_head_full: "producers s i = PTail e t \<Longrightarrow> ring_full t (sys_head s) \<Longrightarrow>
    ring_step s (set_producer i PFull s)"
| read_head: "producers s i = PTail e t \<Longrightarrow> \<not> ring_full t (sys_head s) \<Longrightarrow>
    ring_step s (set_producer i (PCas e t (sys_head s)) s)"
| count_dropped: "producers s i = PFull \<Longrightarrow>
    ring_step s (set_producer i PIdle
      (s\<lparr>sys_shm := (sys_shm s)\<lparr>total_dropped := total_dropped (sys_shm s) + 1\<rparr>\<rparr>))"
| cas_success: "producers s i = PCas e t h \<Longrightarrow>
    pg_atomic_compare_exchange_u64 (sys_tail s) t (t + 1) = (True, t') \<Longrightarrow>
    ring_step s (set_producer i (PClaimed e t)
      (set_ring ((shm_ring (sys_shm s))\<lparr>ring_tail := t'\<rparr>)
        (s\<lparr>claimed_by := (claimed_by s)(unat t := e)\<rparr>)))"
| cas_failure: "producers s i = PCas e t h \<Longrightarrow>
    pg_atomic_compare_exchange_u64 (sys_tail s) t (t + 1) = (False, t') \<Longrightarrow>
    ring_step s (set_producer i (PStart e) s)"
| write_slot: "producers s i = PClaimed e t \<Longrightarrow>
    ring_step s (set_producer i (PWritten t)
      (set_ring ((shm_ring (sys_shm s))\<lparr>ring_entries := (sys_slots s)(ring_slot t := e)\<rparr>) s))"
| count_written: "producers s i = PWritten t \<Longrightarrow>
    ring_step s (set_producer i PIdle
      (s\<lparr>sys_shm := (sys_shm s)\<lparr>total_written := total_written (sys_shm s) + 1\<rparr>\<rparr>))"
| drain_head: "worker s = CIdle \<Longrightarrow> ring_step s (s\<lparr>worker := CHead (sys_head s)\<rparr>)"
| drain_tail: "worker s = CHead h \<Longrightarrow> ring_step s (s\<lparr>worker := CLoop h (sys_tail s)\<rparr>)"
| drain_slot: "worker s = CLoop h t \<Longrightarrow> h \<noteq> t \<Longrightarrow>
    ring_step s (s\<lparr>worker := CLoop (h + 1) t, consumed := consumed s @ [sys_slots s (ring_slot h)]\<rparr>)"
| drain_finish: "worker s = CLoop h t \<Longrightarrow> h = t \<Longrightarrow>
    ring_step s (set_ring ((shm_ring (sys_shm s))\<lparr>ring_head := h\<rparr>) (s\<lparr>worker := CIdle\<rparr>))"

text \<open>
  A position is published once its producer has written the slot. A run is
  \<^emph>\<open>ordered\<close> when the consumer only ever reads published positions.
\<close>

definition published :: "ring_sys \<Rightarrow> uint64 \<Rightarrow> bool" where
  "published s p \<longleftrightarrow> (\<forall>i e. producers s i \<noteq> PClaimed e p)"

definition ordered_step :: "ring_sys \<Rightarrow> ring_sys \<Rightarrow> bool" where
  "ordered_step s s' \<longleftrightarrow>
     (\<forall>h t. worker s = CLoop h t \<and> consumed s' \<noteq> consumed s \<longrightarrow> published s h)"

inductive ring_run :: "bool \<Rightarrow> nat \<Rightarrow> ring_sys \<Rightarrow> bool" where
  start: "ring_run ord 0 ring_init"
| step: "ring_run ord n s \<Longrightarrow> ring_step s s' \<Longrightarrow> (ord \<Longrightarrow> ordered_step s s') \<Longrightarrow>
    ring_run ord (Suc n) s'"

subsection \<open>Positions: the shared invariant\<close>

text \<open>What each program counter knows of the current head and tail.\<close>

fun producer_ok :: "nat \<Rightarrow> nat \<Rightarrow> producer \<Rightarrow> bool" where
  "producer_ok H T (PTail e t) \<longleftrightarrow> unat t \<le> T"
| "producer_ok H T (PCas e t h) \<longleftrightarrow>
     unat t < T \<or> unat t = T \<and> unat h \<le> H \<and> T \<le> unat h + 4094"
| "producer_ok H T (PClaimed e t) \<longleftrightarrow> unat t < T"
| "producer_ok H T (PWritten t) \<longleftrightarrow> unat t < T"
| "producer_ok H T _ \<longleftrightarrow> True"

fun consumer_ok :: "nat \<Rightarrow> nat \<Rightarrow> consumer \<Rightarrow> bool" where
  "consumer_ok H T CIdle \<longleftrightarrow> True"
| "consumer_ok H T (CHead h) \<longleftrightarrow> unat h = H"
| "consumer_ok H T (CLoop h t) \<longleftrightarrow> H \<le> unat h \<and> unat h \<le> unat t \<and> unat t \<le> T"

text \<open>The position a producer holds between its swap and its count.\<close>

fun owns :: "producer \<Rightarrow> uint64 option" where
  "owns (PClaimed e t) = Some t"
| "owns (PWritten t) = Some t"
| "owns _ = None"

definition position_inv :: "nat \<Rightarrow> ring_sys \<Rightarrow> bool" where
  "position_inv n s \<longleftrightarrow>
     (let H = unat (sys_head s); T = unat (sys_tail s) in
      T \<le> n \<and> H \<le> T \<and> T \<le> H + 4095 \<and>
      (\<forall>i. producer_ok H T (producers s i)) \<and> consumer_ok H T (worker s))"

definition owner_inv :: "ring_sys \<Rightarrow> bool" where
  "owner_inv s \<longleftrightarrow>
     (\<forall>i j p. owns (producers s i) = Some p \<and> owns (producers s j) = Some p \<longrightarrow> i = j)"

definition owners :: "(nat \<Rightarrow> producer) \<Rightarrow> nat set" where
  "owners ps = {i. owns (ps i) \<noteq> None}"

definition account_inv :: "ring_sys \<Rightarrow> bool" where
  "account_inv s \<longleftrightarrow>
     finite (owners (producers s)) \<and>
     unat (total_written (sys_shm s)) + card (owners (producers s)) = unat (sys_tail s)"

text \<open>Where the consumer is, and what an ordered run guarantees from there on.\<close>

definition cons_pos :: "ring_sys \<Rightarrow> nat" where
  "cons_pos s = (case worker s of CLoop h t \<Rightarrow> unat h | _ \<Rightarrow> unat (sys_head s))"

definition fifo_inv :: "ring_sys \<Rightarrow> bool" where
  "fifo_inv s \<longleftrightarrow>
     consumed s = map (claimed_by s) [0..<cons_pos s] \<and>
     (\<forall>i e t. producers s i = PClaimed e t \<longrightarrow> cons_pos s \<le> unat t \<and> claimed_by s (unat t) = e) \<and>
     (\<forall>p. cons_pos s \<le> unat p \<and> unat p < unat (sys_tail s) \<and> published s p \<longrightarrow>
          sys_slots s (ring_slot p) = claimed_by s (unat p))"

lemmas step_defs = set_producer_def set_ring_def pg_atomic_compare_exchange_u64_def

lemma producer_ok_mono:
  "producer_ok H T p \<Longrightarrow> H \<le> H' \<Longrightarrow> T \<le> T' \<Longrightarrow> producer_ok H' T' p"
  by (cases p) auto

lemma consumer_ok_mono: "consumer_ok H T c \<Longrightarrow> T \<le> T' \<Longrightarrow> consumer_ok H T' c"
  by (cases c) auto

lemma not_full_window:
  assumes "\<not> ring_full t h" and "unat h \<le> unat t" and "unat t \<le> unat h + 4095"
  shows "unat t \<le> unat h + 4094"
proof (rule ccontr)
  assume "\<not> ?thesis"
  with assms(2,3) have "unat t = unat h + 4095" by simp
  then have "unat (t + 1) mod 4096 = unat h mod 4096"
    by (simp add: unat_add_mod_4096)
  with assms(1) show False
    by (simp add: ring_full_def AUTOINDEX_RING_MASK_def AUTOINDEX_RING_SIZE_def mask_4095_eq_iff)
qed

lemma position_inv_init: "position_inv 0 ring_init"
  by (simp add: position_inv_def ring_init_def autoindex_shmem_init_def)

lemma position_inv_step:
  assumes step: "ring_step s s'" and inv: "position_inv n s" and n: "Suc n < 2 ^ 64"
  shows "position_inv (Suc n) s'"
  using step inv
proof cases
  case (read_head i e t)
  have "producer_ok (unat (sys_head s)) (unat (sys_tail s)) (PCas e t (sys_head s))"
  proof (cases "unat t < unat (sys_tail s)")
    case False
    with inv read_head(2) have "t = sys_tail s"
      by (auto simp: position_inv_def Let_def word_unat_eq_iff dest!: spec [of _ i])
    with inv read_head(3) not_full_window [of t "sys_head s"] show ?thesis
      by (simp add: position_inv_def Let_def)
  qed simp
  with inv read_head(1) show ?thesis
    by (simp add: position_inv_def Let_def step_defs)
next
  case (cas_success i e t h t')
  from cas_success(3) have t: "t = sys_tail s" "t' = sys_tail s + 1"
    by (auto simp: pg_atomic_compare_exchange_u64_def split: if_splits)
  with inv n have T': "unat t' = Suc (unat (sys_tail s))"
    by (simp add: unat_Suc_u64 position_inv_def Let_def)
  have "producer_ok (unat (sys_head s)) (unat (sys_tail s)) (PCas e t h)"
    using inv cas_success(2) by (metis position_inv_def)
  with t have "unat (sys_tail s) \<le> unat (sys_head s) + 4094" by auto
  with inv T' t show ?thesis
    unfolding cas_success(1)
    by (auto simp: position_inv_def Let_def step_defs intro: producer_ok_mono consumer_ok_mono)
next
  case (write_slot i e t)
  have "producer_ok (unat (sys_head s)) (unat (sys_tail s)) (PClaimed e t)"
    using inv write_slot(2) by (metis position_inv_def)
  with inv show ?thesis
    unfolding write_slot(1) by (simp add: position_inv_def Let_def step_defs)
next
  case (drain_slot h t)
  with inv have "unat h < unat t"
    by (auto simp: position_inv_def Let_def word_unat_eq_iff)
  then have "unat (h + 1) = Suc (unat h)"
    using unat_less_u64 [of t] by (intro unat_Suc_u64) simp
  with inv drain_slot \<open>unat h < unat t\<close> show ?thesis
    by (auto simp: position_inv_def Let_def)
next
  case (drain_finish h t)
  with inv show ?thesis
    by (auto simp: position_inv_def Let_def step_defs intro: producer_ok_mono)
qed (auto simp: position_inv_def Let_def step_defs)

lemma position_inv_run: "ring_run ord n s \<Longrightarrow> n < 2 ^ 64 \<Longrightarrow> position_inv n s"
proof (induction rule: ring_run.induct)
  case start
  show ?case by (rule position_inv_init)
next
  case (step ord n s s')
  then show ?case by (simp add: position_inv_step)
qed

subsection \<open>Ownership and accounting\<close>

lemma owner_inv_step:
  assumes step: "ring_step s s'" and pos: "position_inv n s" and inv: "owner_inv s"
  shows "owner_inv s'"
  using step
proof cases
  case (cas_success i e t h t')
  from cas_success(3) have t: "t = sys_tail s"
    by (auto simp: pg_atomic_compare_exchange_u64_def split: if_splits)
  have "owns (producers s j) \<noteq> Some t" for j
  proof
    assume "owns (producers s j) = Some t"
    moreover have "producer_ok (unat (sys_head s)) (unat (sys_tail s)) (producers s j)"
      using pos by (simp add: position_inv_def Let_def)
    ultimately show False using t by (cases "producers s j") auto
  qed
  with inv show ?thesis
    unfolding cas_success(1) by (auto simp: owner_inv_def step_defs)
next
  case (write_slot i e t)
  then have "owns (producers s i) = owns (PWritten t)" by simp
  then have "owns (producers s' j) = owns (producers s j)" for j
    unfolding write_slot(1) by (simp add: step_defs)
  with inv show ?thesis by (simp add: owner_inv_def)
qed (use inv in \<open>auto simp: owner_inv_def step_defs\<close>)

lemma owners_update:
  "owners (ps(i := p)) = (if owns p \<noteq> None then insert i (owners ps) else owners ps - {i})"
  by (auto simp: owners_def)

text \<open>A step that neither claims nor counts leaves the set of owners alone.\<close>

lemma account_inv_frame:
  assumes "account_inv s" and "\<And>j. owns (producers s' j) = owns (producers s j)"
    and "total_written (sys_shm s') = total_written (sys_shm s)" and "sys_tail s' = sys_tail s"
  shows "account_inv s'"
  using assms by (simp add: account_inv_def owners_def)

lemma account_inv_step:
  assumes step: "ring_step s s'" and pos: "position_inv n s" and n: "Suc n < 2 ^ 64"
    and inv: "account_inv s"
  shows "account_inv s'"
  using step
proof cases
  case (cas_success i e t h t')
  from cas_success(3) have t: "t' = sys_tail s + 1"
    by (auto simp: pg_atomic_compare_exchange_u64_def split: if_splits)
  have "unat (sys_tail s + 1) = Suc (unat (sys_tail s))"
    using pos n by (intro unat_Suc_u64) (simp add: position_inv_def Let_def)
  moreover have "i \<notin> owners (producers s)" using cas_success(2) by (simp add: owners_def)
  ultimately show ?thesis
    using inv t unfolding cas_success(1)
    by (simp add: account_inv_def step_defs owners_update)
next
  case (count_written i t)
  let ?O = "owners (producers s)"
  have i: "i \<in> ?O" using count_written(2) by (simp add: owners_def)
  have "finite ?O" using inv by (simp add: account_inv_def)
  then have card: "card ?O = Suc (card (?O - {i}))" using i by (rule card.remove)
  then have "unat (total_written (sys_shm s)) + 1 \<le> unat (sys_tail s)"
    using inv by (simp add: account_inv_def)
  then have "unat (total_written (sys_shm s) + 1) = Suc (unat (total_written (sys_shm s)))"
    using unat_less_u64 [of "sys_tail s"] by (intro unat_Suc_u64) simp
  with inv card show ?thesis
    unfolding count_written(1)
    by (simp add: account_inv_def step_defs owners_update)
qed (use inv in \<open>auto simp: step_defs elim!: account_inv_frame\<close>)

lemma owner_account_run:
  "ring_run ord n s \<Longrightarrow> n < 2 ^ 64 \<Longrightarrow> owner_inv s \<and> account_inv s"
proof (induction rule: ring_run.induct)
  case (start ord)
  show ?case
    by (simp add: owner_inv_def account_inv_def owners_def ring_init_def autoindex_shmem_init_def)
next
  case (step ord n s s')
  then have "position_inv n s" by (simp add: position_inv_run)
  with step show ?case by (auto intro: owner_inv_step account_inv_step)
qed

subsection \<open>Ordered runs deliver in claim order\<close>

lemma slot_window_neq:
  assumes "p \<noteq> q" and "c \<le> unat p" and "c \<le> unat q"
    and "unat p \<le> c + 4095" and "unat q \<le> c + 4095"
  shows "ring_slot p \<noteq> ring_slot q"
proof -
  have "unat p \<noteq> unat q" using assms(1) by (simp add: word_unat_eq_iff)
  then show ?thesis
    unfolding ring_slot_mod by (rule mod_neq_window) (use assms in linarith)+
qed

lemma cons_pos_cong:
  "worker s' = worker s \<Longrightarrow> sys_head s' = sys_head s \<Longrightarrow> cons_pos s' = cons_pos s"
  by (simp add: cons_pos_def split: consumer.splits)

lemma cons_pos_bounds:
  assumes "position_inv n s"
  shows "unat (sys_head s) \<le> cons_pos s" and "cons_pos s \<le> unat (sys_tail s)"
  using assms by (auto simp: position_inv_def cons_pos_def Let_def split: consumer.splits)

text \<open>
  Steps that leave the consumer, the slots, the claims and the tail alone and
  make no new \<open>PClaimed\<close> producer keep the invariant.
\<close>

lemma fifo_inv_frame:
  assumes "fifo_inv s" and "cons_pos s' = cons_pos s" and "consumed s' = consumed s"
    and "claimed_by s' = claimed_by s" and "sys_slots s' = sys_slots s" and "sys_tail s' = sys_tail s"
    and "\<And>i e t. producers s' i = PClaimed e t \<longleftrightarrow> producers s i = PClaimed e t"
  shows "fifo_inv s'"
  using assms by (simp add: fifo_inv_def published_def)

lemma fifo_invI:
  assumes "consumed s = map (claimed_by s) [0..<cons_pos s]"
    and "\<And>i e t. producers s i = PClaimed e t \<Longrightarrow> cons_pos s \<le> unat t \<and> claimed_by s (unat t) = e"
    and "\<And>p. cons_pos s \<le> unat p \<Longrightarrow> unat p < unat (sys_tail s) \<Longrightarrow> published s p \<Longrightarrow>
           sys_slots s (ring_slot p) = claimed_by s (unat p)"
  shows "fifo_inv s"
  using assms by (simp add: fifo_inv_def)

lemma fifo_invD:
  assumes "fifo_inv s"
  shows "consumed s = map (claimed_by s) [0..<cons_pos s]"
    and "producers s i = PClaimed e t \<Longrightarrow> cons_pos s \<le> unat t \<and> claimed_by s (unat t) = e"
    and "cons_pos s \<le> unat p \<Longrightarrow> unat p < unat (sys_tail s) \<Longrightarrow> published s p \<Longrightarrow>
           sys_slots s (ring_slot p) = claimed_by s (unat p)"
  using assms by (simp_all add: fifo_inv_def)

lemma claimed_below_tail:
  "position_inv n s \<Longrightarrow> producers s j = PClaimed f u \<Longrightarrow> unat u < unat (sys_tail s)"
  by (metis position_inv_def producer_ok.simps(3))

lemma published_other:
  assumes "published s' p" and "\<And>j. j \<noteq> i \<Longrightarrow> producers s' j = producers s j"
    and "\<And>e. producers s i \<noteq> PClaimed e p"
  shows "published s p"
  using assms by (metis published_def)

lemma fifo_inv_claim:
  assumes pos: "position_inv n s" and n: "Suc n < 2 ^ 64" and inv: "fifo_inv s"
    and pc: "producers s i = PCas e (sys_tail s) h"
  shows "fifo_inv (set_producer i (PClaimed e (sys_tail s))
      (set_ring ((shm_ring (sys_shm s))\<lparr>ring_tail := sys_tail s + 1\<rparr>)
        (s\<lparr>claimed_by := (claimed_by s)(unat (sys_tail s) := e)\<rparr>)))" (is "fifo_inv ?s'")
proof (rule fifo_invI)
  have T': "unat (sys_tail s + 1) = Suc (unat (sys_tail s))"
    using pos n by (intro unat_Suc_u64) (simp add: position_inv_def Let_def)
  have c: "cons_pos ?s' = cons_pos s" by (rule cons_pos_cong) (simp_all add: step_defs)
  note cT = cons_pos_bounds(2) [OF pos]
  show "consumed ?s' = map (claimed_by ?s') [0..<cons_pos ?s']"
    unfolding c using fifo_invD(1) [OF inv] cT by (simp add: step_defs)
  show "cons_pos ?s' \<le> unat t \<and> claimed_by ?s' (unat t) = f"
    if "producers ?s' j = PClaimed f t" for j f t
  proof (cases "j = i")
    case True
    with that cT c show ?thesis by (simp add: step_defs)
  next
    case False
    with that have old: "producers s j = PClaimed f t" by (simp add: step_defs)
    with claimed_below_tail [OF pos old] fifo_invD(2) [OF inv old] c show ?thesis
      by (simp add: step_defs)
  qed
  show "sys_slots ?s' (ring_slot p) = claimed_by ?s' (unat p)"
    if p: "cons_pos ?s' \<le> unat p" "unat p < unat (sys_tail ?s')" "published ?s' p" for p
  proof -
    from p(3) have "producers ?s' i \<noteq> PClaimed e p" unfolding published_def by blast
    then have "p \<noteq> sys_tail s" by (simp add: step_defs)
    then have "unat p \<noteq> unat (sys_tail s)" by (simp add: word_unat_eq_iff)
    with p(2) T' have "unat p < unat (sys_tail s)" by (simp add: step_defs)
    moreover have "published s p"
      using pc by (intro published_other [OF p(3), of i s]) (simp_all add: step_defs)
    ultimately show ?thesis
      using p(1) c fifo_invD(3) [OF inv, of p] by (simp add: step_defs)
  qed
qed

lemma fifo_inv_write:
  assumes pos: "position_inv n s" and own: "owner_inv s" and inv: "fifo_inv s"
    and pc: "producers s i = PClaimed e t"
  shows "fifo_inv (set_producer i (PWritten t)
      (set_ring ((shm_ring (sys_shm s))\<lparr>ring_entries := (sys_slots s)(ring_slot t := e)\<rparr>) s))"
    (is "fifo_inv ?s'")
proof (rule fifo_invI)
  have c: "cons_pos ?s' = cons_pos s" by (rule cons_pos_cong) (simp_all add: step_defs)
  show "consumed ?s' = map (claimed_by ?s') [0..<cons_pos ?s']"
    unfolding c using fifo_invD(1) [OF inv] by (simp add: step_defs)
  show "cons_pos ?s' \<le> unat u \<and> claimed_by ?s' (unat u) = f"
    if "producers ?s' j = PClaimed f u" for j f u
    using that fifo_invD(2) [OF inv, of j f u] c by (simp add: step_defs split: if_splits)
  show "sys_slots ?s' (ring_slot p) = claimed_by ?s' (unat p)"
    if p: "cons_pos ?s' \<le> unat p" "unat p < unat (sys_tail ?s')" "published ?s' p" for p
  proof (cases "p = t")
    case True
    with fifo_invD(2) [OF inv pc] show ?thesis by (simp add: step_defs)
  next
    case False
    have "published s p"
      using pc False by (intro published_other [OF p(3), of i s]) (simp_all add: step_defs)
    moreover have "ring_slot p \<noteq> ring_slot t"
      using pos p c cons_pos_bounds(1) [OF pos] fifo_invD(2) [OF inv pc] claimed_below_tail [OF pos pc]
      by (intro slot_window_neq [OF False, of "cons_pos s"])
        (simp_all add: step_defs position_inv_def Let_def)
    ultimately show ?thesis
      using p c fifo_invD(3) [OF inv, of p] by (simp add: step_defs)
  qed
qed

lemma fifo_inv_consume:
  assumes pos: "position_inv n s" and inv: "fifo_inv s"
    and loop: "worker s = CLoop h t" "h \<noteq> t" and pub: "published s h"
  shows "fifo_inv (s\<lparr>worker := CLoop (h + 1) t,
                    consumed := consumed s @ [sys_slots s (ring_slot h)]\<rparr>)" (is "fifo_inv ?s'")
proof (rule fifo_invI)
  from pos loop have ht: "unat h < unat t" "unat t \<le> unat (sys_tail s)"
    by (auto simp: position_inv_def Let_def word_unat_eq_iff)
  then have h': "unat (h + 1) = Suc (unat h)"
    using unat_less_u64 [of t] by (intro unat_Suc_u64) simp
  have c: "cons_pos s = unat h" "cons_pos ?s' = Suc (unat h)"
    using loop h' by (simp_all add: cons_pos_def)
  show "consumed ?s' = map (claimed_by ?s') [0..<cons_pos ?s']"
    using fifo_invD(1) [OF inv] fifo_invD(3) [OF inv, of h] pub ht c by simp
  show "cons_pos ?s' \<le> unat u \<and> claimed_by ?s' (unat u) = f"
    if "producers ?s' j = PClaimed f u" for j f u
  proof -
    from that have old: "producers s j = PClaimed f u" by simp
    with pub have "u \<noteq> h" by (auto simp: published_def)
    then have "unat u \<noteq> unat h" by (simp add: word_unat_eq_iff)
    with fifo_invD(2) [OF inv old] c show ?thesis by simp
  qed
  show "sys_slots ?s' (ring_slot p) = claimed_by ?s' (unat p)"
    if "cons_pos ?s' \<le> unat p" "unat p < unat (sys_tail ?s')" "published ?s' p" for p
    using that c fifo_invD(3) [OF inv, of p] by (simp add: published_def)
qed

lemma fifo_inv_step:
  assumes step: "ring_step s s'" and ord: "ordered_step s s'"
    and pos: "position_inv n s" and own: "owner_inv s" and n: "Suc n < 2 ^ 64" and inv: "fifo_inv s"
  shows "fifo_inv s'"
  using step
proof cases
  case (cas_success i e t h t')
  from cas_success(3) have "t = sys_tail s" "t' = sys_tail s + 1"
    by (auto simp: pg_atomic_compare_exchange_u64_def split: if_splits)
  with fifo_inv_claim [OF pos n inv] cas_success(1,2) show ?thesis by simp
next
  case (write_slot i e t)
  with fifo_inv_write [OF pos own inv] show ?thesis by simp
next
  case (drain_slot h t)
  with ord have "published s h" by (simp add: ordered_step_def)
  with fifo_inv_consume [OF pos inv] drain_slot show ?thesis by simp
next
  case (drain_finish h t)
  then show ?thesis using inv
    by (auto simp: step_defs cons_pos_def elim!: fifo_inv_frame)
next
  case (drain_tail h)
  then show ?thesis using inv pos
    by (auto simp: step_defs cons_pos_def position_inv_def Let_def elim!: fifo_inv_frame)
next
  case (drain_head)
  then show ?thesis using inv by (auto simp: cons_pos_def elim!: fifo_inv_frame)
qed (use inv in \<open>auto simp: step_defs split: if_splits elim!: fifo_inv_frame intro!: cons_pos_cong\<close>)

lemma fifo_inv_run: "ring_run ord n s \<Longrightarrow> ord \<Longrightarrow> n < 2 ^ 64 \<Longrightarrow> fifo_inv s"
proof (induction rule: ring_run.induct)
  case (start ord)
  show ?case
    by (simp add: fifo_inv_def cons_pos_def ring_init_def autoindex_shmem_init_def)
next
  case (step ord n s s')
  then have "position_inv n s" "owner_inv s"
    by (simp_all add: position_inv_run owner_account_run)
  with step show ?case by (auto intro: fifo_inv_step)
qed

subsection \<open>Properties\<close>

lemma ring_run_free: "ring_run False n s \<Longrightarrow> ring_step s s' \<Longrightarrow> ring_run False (Suc n) s'"
  by (rule ring_run.step) simp_all

text \<open>
  A run in which the worker reads a position its producer has claimed but not
  yet written.
\<close>

lemma early_read_run:
  "\<exists>s. ring_run False 7 s \<and> consumed s = [zero_entry] \<and> claimed_by s 0 = e \<and>
       producers s 0 = PClaimed e 0 \<and> worker s = CLoop 1 1 \<and> sys_tail s = 1"
proof -
  note init = ring_init_def autoindex_shmem_init_def
  note full = ring_full_def AUTOINDEX_RING_MASK_def AUTOINDEX_RING_SIZE_def
  define s1 where "s1 = set_producer 0 (PStart e) ring_init"
  define s2 where "s2 = set_producer 0 (PTail e (sys_tail s1)) s1"
  define s3 where "s3 = set_producer 0 (PCas e 0 (sys_head s2)) s2"
  define s4 where "s4 = set_producer 0 (PClaimed e 0)
      (set_ring ((shm_ring (sys_shm s3))\<lparr>ring_tail := 1\<rparr>)
        (s3\<lparr>claimed_by := (claimed_by s3)(unat (0 :: uint64) := e)\<rparr>))"
  define s5 where "s5 = s4\<lparr>worker := CHead (sys_head s4)\<rparr>"
  define s6 where "s6 = s5\<lparr>worker := CLoop 0 (sys_tail s5)\<rparr>"
  define s7 where "s7 = s6\<lparr>worker := CLoop (0 + 1) 1,
      consumed := consumed s6 @ [sys_slots s6 (ring_slot 0)]\<rparr>"
  note unf = step_defs init s1_def s2_def s3_def s4_def s5_def s6_def s7_def
  have "ring_step ring_init s1"
    unfolding s1_def by (rule ring_step.call) (simp add: init)
  moreover have "ring_step s1 s2"
    unfolding s2_def by (rule ring_step.read_tail) (simp add: unf)
  moreover have "ring_step s2 s3"
    unfolding s3_def by (rule ring_step.read_head) (simp_all add: unf full)
  moreover have "ring_step s3 s4"
    unfolding s4_def by (rule ring_step.cas_success [where h = 0]) (simp_all add: unf)
  moreover have "ring_step s4 s5"
    unfolding s5_def by (rule ring_step.drain_head) (simp add: unf)
  moreover have "ring_step s5 s6"
    unfolding s6_def by (rule ring_step.drain_tail) (simp add: unf)
  moreover have "ring_step s6 s7"
    unfolding s7_def by (rule ring_step.drain_slot) (simp_all add: unf)
  ultimately have "ring_run False (Suc (Suc (Suc (Suc (Suc (Suc (Suc 0))))))) s7"
    by (blast intro: ring_run.start ring_run_free)
  moreover have "consumed s7 = [zero_entry] \<and> claimed_by s7 0 = e \<and>
       producers s7 0 = PClaimed e 0 \<and> worker s7 = CLoop 1 1 \<and> sys_tail s7 = 1"
    by (simp add: unf)
  ultimately show ?thesis by (auto simp: eval_nat_numeral)
qed

text \<open>A run in which the worker reads a position after its producer has written it.\<close>

lemma ring_run_ordered:
  "ring_run True n s \<Longrightarrow> ring_step s s' \<Longrightarrow> consumed s' = consumed s \<or> (\<forall>h t. worker s = CLoop h t \<longrightarrow> published s h) \<Longrightarrow>
   ring_run True (Suc n) s'"
  by (rule ring_run.step) (auto simp: ordered_step_def)

lemma ordered_read_run:
  "\<exists>s. ring_run True 8 s \<and> claimed_by s 0 = e \<and> worker s = CLoop 1 1"
proof -
  note init = ring_init_def autoindex_shmem_init_def
  note full = ring_full_def AUTOINDEX_RING_MASK_def AUTOINDEX_RING_SIZE_def
  define s1 where "s1 = set_producer 0 (PStart e) ring_init"
  define s2 where "s2 = set_producer 0 (PTail e (sys_tail s1)) s1"
  define s3 where "s3 = set_producer 0 (PCas e 0 (sys_head s2)) s2"
  define s4 where "s4 = set_producer 0 (PClaimed e 0)
      (set_ring ((shm_ring (sys_shm s3))\<lparr>ring_tail := 1\<rparr>)
        (s3\<lparr>claimed_by := (claimed_by s3)(unat (0 :: uint64) := e)\<rparr>))"
  define s5 where "s5 = set_producer 0 (PWritten 0)
      (set_ring ((shm_ring (sys_shm s4))\<lparr>ring_entries := (sys_slots s4)(ring_slot 0 := e)\<rparr>) s4)"
  define s6 where "s6 = s5\<lparr>worker := CHead (sys_head s5)\<rparr>"
  define s7 where "s7 = s6\<lparr>worker := CLoop 0 (sys_tail s6)\<rparr>"
  define s8 where "s8 = s7\<lparr>worker := CLoop (0 + 1) 1, consumed := consumed s7 @ [sys_slots s7 (ring_slot 0)]\<rparr>"
  note unf = step_defs init s1_def s2_def s3_def s4_def s5_def s6_def s7_def s8_def
  have "ring_run True (Suc 0) s1" unfolding s1_def
    by (rule ring_run_ordered [OF ring_run.start ring_step.call]) (simp_all add: unf)
  then have "ring_run True (Suc (Suc 0)) s2" unfolding s2_def
    by (rule ring_run_ordered [OF _ ring_step.read_tail]) (simp_all add: unf)
  then have "ring_run True (Suc (Suc (Suc 0))) s3" unfolding s3_def
    by (rule ring_run_ordered [OF _ ring_step.read_head]) (simp_all add: unf full)
  then have "ring_run True (Suc (Suc (Suc (Suc 0)))) s4" unfolding s4_def
    by (rule ring_run_ordered [OF _ ring_step.cas_success [where h = 0]]) (simp_all add: unf)
  then have "ring_run True (Suc (Suc (Suc (Suc (Suc 0))))) s5" unfolding s5_def
    by (rule ring_run_ordered [OF _ ring_step.write_slot]) (simp_all add: unf)
  then have "ring_run True (Suc (Suc (Suc (Suc (Suc (Suc 0)))))) s6" unfolding s6_def
    by (rule ring_run_ordered [OF _ ring_step.drain_head]) (simp_all add: unf)
  then have "ring_run True (Suc (Suc (Suc (Suc (Suc (Suc (Suc 0))))))) s7" unfolding s7_def
    by (rule ring_run_ordered [OF _ ring_step.drain_tail]) (simp_all add: unf)
  then have "ring_run True (Suc (Suc (Suc (Suc (Suc (Suc (Suc (Suc 0)))))))) s8" unfolding s8_def
    by (rule ring_run_ordered [OF _ ring_step.drain_slot]) (simp_all add: unf published_def)
  moreover have "claimed_by s8 0 = e \<and> worker s8 = CLoop 1 1" by (simp add: unf)
  ultimately show ?thesis by (auto simp: eval_nat_numeral)
qed

text \<open>
  C2: under every interleaving of fewer than \<open>2 ^ 64\<close> steps, the tail is never
  behind the head nor more than 4095 positions ahead of it (so no waiting slot
  is claimed again), and no two backends own the same position. No claimed position
  is lost from the books either: the counter \<open>total_written\<close> plus the number of
  backends between their swap and their count equals the tail.
\<close>

theorem ring_protocol_safe:
  assumes "ring_run ord n s" and "n < 2 ^ 64"
  shows "unat (sys_head s) \<le> unat (sys_tail s) \<and>
     unat (sys_tail s) \<le> unat (sys_head s) + 4095 \<and>
     (\<forall>i j p. owns (producers s i) = Some p \<and> owns (producers s j) = Some p \<longrightarrow> i = j) \<and>
     unat (total_written (sys_shm s)) + card (owners (producers s)) = unat (sys_tail s)"
  using position_inv_run [OF assms] owner_account_run [OF assms]
  by (simp add: position_inv_def owner_inv_def account_inv_def Let_def)

theorem ring_protocol_safe_witness:
  "\<exists>s. ring_run False 7 s \<and> sys_tail s = 1 \<and> unat (sys_head s) \<le> 1 \<and>
       unat (sys_tail s) \<le> unat (sys_head s) + 4095"
proof -
  obtain s where s: "ring_run False 7 s" "sys_tail s = 1"
    using early_read_run by blast
  have "unat (sys_head s) \<le> unat (sys_tail s) \<and> unat (sys_tail s) \<le> unat (sys_head s) + 4095"
    using ring_protocol_safe [OF s(1)] by simp
  with s show ?thesis by auto
qed

text \<open>
  C12: in every run of fewer than \<open>2 ^ 64\<close> steps in which the worker only reads
  positions whose producer has finished its copy, what it has read is the sequence of
  claimed entries up to its position, in claim order, without loss or duplication. The
  code does not ensure the proviso.
\<close>

theorem ring_ordered_delivery:
  assumes "ring_run True n s" and "n < 2 ^ 64"
  shows "consumed s = map (claimed_by s) [0..<cons_pos s] \<and> cons_pos s \<le> unat (sys_tail s)"
  using fifo_inv_run [OF assms(1) _ assms(2)] cons_pos_bounds(2) [OF position_inv_run [OF assms]]
  by (simp add: fifo_inv_def)

theorem ring_ordered_delivery_witness:
  "\<exists>s. ring_run True 8 s \<and> claimed_by s 0 = zero_entry\<lparr>n_pred := 1\<rparr> \<and> cons_pos s = 1 \<and>
       consumed s = [zero_entry\<lparr>n_pred := 1\<rparr>]"
proof -
  obtain s where s: "ring_run True 8 s" "claimed_by s 0 = zero_entry\<lparr>n_pred := 1\<rparr>" "worker s = CLoop 1 1"
    using ordered_read_run by blast
  have "cons_pos s = 1" using s(3) by (simp add: cons_pos_def)
  with ring_ordered_delivery [OF s(1)] s show ?thesis by auto
qed

text \<open>
  C35: that proviso is not guaranteed by the code. The tail is advanced before
  the slot is filled, so the worker can read a claimed position too early: it
  then consumes the zeroed slot and the captured entry is never counted.
\<close>

theorem ring_reads_unwritten_slot:
  "\<exists>n s. ring_run False n s \<and> n < 2 ^ 64 \<and> claimed_by s 0 = zero_entry\<lparr>n_pred := 1\<rparr> \<and>
         consumed s = [zero_entry] \<and> consumed s \<noteq> map (claimed_by s) [0..<cons_pos s]"
proof -
  obtain s where s: "ring_run False 7 s" "consumed s = [zero_entry]" "worker s = CLoop 1 1"
      "claimed_by s 0 = zero_entry\<lparr>n_pred := 1\<rparr>"
    using early_read_run [of "zero_entry\<lparr>n_pred := 1\<rparr>"] by blast
  have "zero_entry \<noteq> zero_entry\<lparr>n_pred := 1\<rparr>" by (simp add: zero_entry_def)
  with s have "consumed s \<noteq> map (claimed_by s) [0..<cons_pos s]" by (simp add: cons_pos_def)
  with s show ?thesis by (intro exI [of _ 7] exI [of _ s]) simp
qed

end
