(* ===== verification/Nodes.thy ===== *)
theory Nodes
  imports Prelude
begin

section \<open>Expression and plan nodes; pull_var_clause (var.c)\<close>

text \<open>
  The parts of PostgreSQL's node trees that the capture hook reads. An
  expression node is one of the kinds that \<^verbatim>\<open>pull_var_clause_walker\<close> tells apart,
  or any other node with the sub-nodes that \<^verbatim>\<open>expression_tree_walker\<close> visits, in
  its order (a \<open>List\<close> is such a node).
\<close>

subsection \<open>Expressions\<close>

record Var =
  varno :: int32
  varattno :: AttrNumber
  varlevelsup :: Index

datatype Node =
    VarNode Var
  | Aggref Index "Node list"
  | GroupingFunc Index "Node list"
  | WindowFunc "Node list"
  | PlaceHolderVar Index "Node list"
  | ExprNode "Node list"

definition PVC_INCLUDE_AGGREGATES :: uint32 where "PVC_INCLUDE_AGGREGATES = 1"
definition PVC_RECURSE_AGGREGATES :: uint32 where "PVC_RECURSE_AGGREGATES = 2"
definition PVC_INCLUDE_WINDOWFUNCS :: uint32 where "PVC_INCLUDE_WINDOWFUNCS = 4"
definition PVC_RECURSE_WINDOWFUNCS :: uint32 where "PVC_RECURSE_WINDOWFUNCS = 8"
definition PVC_INCLUDE_PLACEHOLDERS :: uint32 where "PVC_INCLUDE_PLACEHOLDERS = 16"
definition PVC_RECURSE_PLACEHOLDERS :: uint32 where "PVC_RECURSE_PLACEHOLDERS = 32"

text \<open>
  The walker threads the list built so far; the second function is the
  \<^verbatim>\<open>expression_tree_walker\<close> visit of the sub-nodes.
\<close>

fun pull_var_clause_walker :: "uint32 \<Rightarrow> Node \<Rightarrow> Node list \<Rightarrow> Node list result"
and pull_var_clause_children :: "uint32 \<Rightarrow> Node list \<Rightarrow> Node list \<Rightarrow> Node list result" where
  "pull_var_clause_walker flags (VarNode v) varlist =
     (if varlevelsup v \<noteq> 0 then Inl (PgError ''Upper-level Var found where not expected'')
      else Inr (varlist @ [VarNode v]))"
| "pull_var_clause_walker flags (Aggref levelsup args) varlist =
     (if levelsup \<noteq> 0 then Inl (PgError ''Upper-level Aggref found where not expected'')
      else if flags AND PVC_INCLUDE_AGGREGATES \<noteq> 0 then Inr (varlist @ [Aggref levelsup args])
      else if flags AND PVC_RECURSE_AGGREGATES \<noteq> 0 then pull_var_clause_children flags args varlist
      else Inl (PgError ''Aggref found where not expected''))"
| "pull_var_clause_walker flags (GroupingFunc levelsup args) varlist =
     (if levelsup \<noteq> 0 then Inl (PgError ''Upper-level GROUPING found where not expected'')
      else if flags AND PVC_INCLUDE_AGGREGATES \<noteq> 0 then Inr (varlist @ [GroupingFunc levelsup args])
      else if flags AND PVC_RECURSE_AGGREGATES \<noteq> 0 then pull_var_clause_children flags args varlist
      else Inl (PgError ''GROUPING found where not expected''))"
| "pull_var_clause_walker flags (WindowFunc args) varlist =
     (if flags AND PVC_INCLUDE_WINDOWFUNCS \<noteq> 0 then Inr (varlist @ [WindowFunc args])
      else if flags AND PVC_RECURSE_WINDOWFUNCS \<noteq> 0 then pull_var_clause_children flags args varlist
      else Inl (PgError ''WindowFunc found where not expected''))"
| "pull_var_clause_walker flags (PlaceHolderVar levelsup args) varlist =
     (if levelsup \<noteq> 0 then Inl (PgError ''Upper-level PlaceHolderVar found where not expected'')
      else if flags AND PVC_INCLUDE_PLACEHOLDERS \<noteq> 0 then Inr (varlist @ [PlaceHolderVar levelsup args])
      else if flags AND PVC_RECURSE_PLACEHOLDERS \<noteq> 0 then pull_var_clause_children flags args varlist
      else Inl (PgError ''PlaceHolderVar found where not expected''))"
| "pull_var_clause_walker flags (ExprNode args) varlist = pull_var_clause_children flags args varlist"
| "pull_var_clause_children flags [] varlist = Inr varlist"
| "pull_var_clause_children flags (n # ns) varlist =
     bind_res (pull_var_clause_walker flags n varlist) (pull_var_clause_children flags ns)"

definition pull_var_clause :: "Node \<Rightarrow> uint32 \<Rightarrow> Node list result" where
  "pull_var_clause node flags = pull_var_clause_walker flags node []"

subsection \<open>Plans\<close>

datatype RTEKind = RTE_RELATION | RTE_OTHER

record RangeTblEntry =
  rtekind :: RTEKind
  rte_relid :: Oid

datatype PlanTag =
    T_SeqScan | T_IndexScan | T_IndexOnlyScan | T_BitmapHeapScan | T_TidScan | T_TidRangeScan
  | T_HashJoin | T_MergeJoin | T_NestLoop | T_Sort | T_IncrementalSort | T_OtherPlan

text \<open>
  A plan node: its tag, estimated total cost, quals, target list, and the fields
  of the node kinds the hook looks into (join quals of a join, sort columns of
  a sort, range-table index of a scan), with its two child plans.
\<close>

datatype Plan = Plan
  (plan_tag: PlanTag) (total_cost: real) (plan_qual: "Node list") (plan_targetlist: "Node list")
  (plan_joinqual: "Node list") (plan_sortColIdx: "AttrNumber list") (plan_scanrelid: Index)
  (lefttree: "Plan option") (righttree: "Plan option")

datatype CmdType = CMD_UTILITY | CMD_OTHER

record PlannedStmt =
  commandType :: CmdType
  queryId :: uint64
  planTree :: "Plan option"
  rtable :: "RangeTblEntry list"

subsection \<open>What pull_var_clause collects\<close>

text \<open>The Vars of an expression, left to right, with nothing left out.\<close>

fun node_vars :: "Node \<Rightarrow> Var list"
and nodes_vars :: "Node list \<Rightarrow> Var list" where
  "node_vars (VarNode v) = [v]"
| "node_vars (Aggref l ns) = nodes_vars ns"
| "node_vars (GroupingFunc l ns) = nodes_vars ns"
| "node_vars (WindowFunc ns) = nodes_vars ns"
| "node_vars (PlaceHolderVar l ns) = nodes_vars ns"
| "node_vars (ExprNode ns) = nodes_vars ns"
| "nodes_vars [] = []"
| "nodes_vars (n # ns) = node_vars n @ nodes_vars ns"

text \<open>The flags the capture hook passes.\<close>

definition capture_flags :: uint32 where
  "capture_flags = PVC_RECURSE_AGGREGATES OR PVC_RECURSE_PLACEHOLDERS"

text \<open>Nodes the walker accepts under them: nothing upper-level, no window function.\<close>

fun level_zero :: "Node \<Rightarrow> bool"
and levels_zero :: "Node list \<Rightarrow> bool" where
  "level_zero (VarNode v) \<longleftrightarrow> varlevelsup v = 0"
| "level_zero (Aggref l ns) \<longleftrightarrow> l = 0 \<and> levels_zero ns"
| "level_zero (GroupingFunc l ns) \<longleftrightarrow> l = 0 \<and> levels_zero ns"
| "level_zero (WindowFunc ns) \<longleftrightarrow> False"
| "level_zero (PlaceHolderVar l ns) \<longleftrightarrow> l = 0 \<and> levels_zero ns"
| "level_zero (ExprNode ns) \<longleftrightarrow> levels_zero ns"
| "levels_zero [] \<longleftrightarrow> True"
| "levels_zero (n # ns) \<longleftrightarrow> level_zero n \<and> levels_zero ns"

lemma capture_flag_bits:
  "capture_flags AND PVC_INCLUDE_AGGREGATES = 0" "capture_flags AND PVC_RECURSE_AGGREGATES \<noteq> 0"
  "capture_flags AND PVC_INCLUDE_WINDOWFUNCS = 0" "capture_flags AND PVC_RECURSE_WINDOWFUNCS = 0"
  "capture_flags AND PVC_INCLUDE_PLACEHOLDERS = 0" "capture_flags AND PVC_RECURSE_PLACEHOLDERS \<noteq> 0"
  by (simp_all add: capture_flags_def PVC_INCLUDE_AGGREGATES_def PVC_RECURSE_AGGREGATES_def
      PVC_INCLUDE_WINDOWFUNCS_def PVC_RECURSE_WINDOWFUNCS_def PVC_INCLUDE_PLACEHOLDERS_def
      PVC_RECURSE_PLACEHOLDERS_def)

lemma pull_var_walker_collects:
  "level_zero n \<Longrightarrow>
     pull_var_clause_walker capture_flags n acc = Inr (acc @ map VarNode (node_vars n))"
  "levels_zero ns \<Longrightarrow>
     pull_var_clause_children capture_flags ns acc = Inr (acc @ map VarNode (nodes_vars ns))"
  by (induction n and ns arbitrary: acc and acc rule: node_vars_nodes_vars.induct)
    (simp_all add: capture_flag_bits)

lemma pull_var_walker_raises:
  "\<not> level_zero n \<Longrightarrow> \<exists>e. pull_var_clause_walker capture_flags n acc = Inl e"
  "\<not> levels_zero ns \<Longrightarrow> \<exists>e. pull_var_clause_children capture_flags ns acc = Inl e"
proof (induction n and ns arbitrary: acc and acc rule: node_vars_nodes_vars.induct)
  case (8 n ns)
  show ?case
  proof (cases "level_zero n")
    case True
    with 8 show ?thesis by (simp add: pull_var_walker_collects)
  next
    case False
    with 8 obtain e where "pull_var_clause_walker capture_flags n acc = Inl e" by blast
    then show ?thesis by simp
  qed
qed (simp_all add: capture_flag_bits)

subsection \<open>Properties\<close>

text \<open>
  C27: with the flags the capture hook passes, \<^verbatim>\<open>pull_var_clause\<close> returns every Var
  of the expression, in order and nothing else, or raises, and it raises exactly
  on expressions with an upper-level reference or a window function.
\<close>

theorem pull_var_clause_exact:
  "pull_var_clause n capture_flags =
     (if level_zero n then Inr (map VarNode (node_vars n))
      else Inl (projl (pull_var_clause n capture_flags))) \<and>
   (\<not> level_zero n \<longrightarrow> isl (pull_var_clause n capture_flags))"
  using pull_var_walker_collects(1) [of n "[]"] pull_var_walker_raises(1) [of n "[]"]
  by (auto simp: pull_var_clause_def)

theorem pull_var_clause_exact_witness:
  "isl (pull_var_clause (ExprNode [WindowFunc []]) capture_flags) \<and>
   pull_var_clause (Aggref 0 [VarNode \<lparr>varno = 1, varattno = 2, varlevelsup = 0\<rparr>]) capture_flags =
     Inr [VarNode \<lparr>varno = 1, varattno = 2, varlevelsup = 0\<rparr>]"
  using pull_var_clause_exact [of "ExprNode [WindowFunc []]"]
    pull_var_clause_exact [of "Aggref 0 [VarNode \<lparr>varno = 1, varattno = 2, varlevelsup = 0\<rparr>]"]
  by simp

end
