(* ===== verification/Capture.thy ===== *)
theory Capture
  imports Ring Nodes
begin

section \<open>Workload capture (workload_capture.c)\<close>

text \<open>
  The \<open>ExecutorEnd\<close> hook: walking the plan tree, collecting predicate, join and
  sort columns and scanned relations into a \<^typ>\<open>WorkloadEntry\<close>, and pushing the
  entry into the ring when it has any column.
\<close>

subsection \<open>extract_vars_from_expr\<close>

text \<open>
  The range-table lookup of a Var as the loop does it: the varno as an unsigned
  number within the range table, a plain relation, not a system catalog.
\<close>

definition var_column :: "PlannedStmt \<Rightarrow> Var \<Rightarrow> (Oid \<times> int16) option" where
  "var_column pstmt v =
     (let n = unat (varno v) in
      if n = 0 \<or> length (rtable pstmt) < n then None
      else
        let rte = rtable pstmt ! (n - 1) in
        if rtekind rte \<noteq> RTE_RELATION then None
        else if rte_relid rte < FirstNormalObjectId then None
        else Some (rte_relid rte, varattno v))"

text \<open>The arrays, the fill count and the loop over the list of nodes.\<close>

type_synonym columns = "int16 list \<times> Oid list \<times> nat"

fun extract_vars_loop :: "PlannedStmt \<Rightarrow> nat \<Rightarrow> Node list \<Rightarrow> columns \<Rightarrow> columns" where
  "extract_vars_loop pstmt max_count [] cols = cols"
| "extract_vars_loop pstmt max_count (VarNode v # vars) (atts, rels, count) =
     extract_vars_loop pstmt max_count vars
       (case var_column pstmt v of
          None \<Rightarrow> (atts, rels, count)
        | Some (relid, attno) \<Rightarrow>
            if count < max_count
            then (atts[count := attno], rels[count := relid], Suc count)
            else (atts, rels, count))"
| "extract_vars_loop pstmt max_count (_ # vars) cols = extract_vars_loop pstmt max_count vars cols"

text \<open>The expression is a list of quals; the empty list is the null pointer.\<close>

definition extract_vars_from_expr ::
  "PlannedStmt \<Rightarrow> nat \<Rightarrow> Node list \<Rightarrow> columns \<Rightarrow> columns result" where
  "extract_vars_from_expr pstmt max_count quals cols =
     (if quals = [] then Inr cols
      else bind_res (pull_var_clause (ExprNode quals) capture_flags)
             (\<lambda>vars. Inr (extract_vars_loop pstmt max_count vars cols)))"

subsection \<open>walk_plan_tree\<close>

definition set_pred :: "columns \<Rightarrow> WorkloadEntry \<Rightarrow> WorkloadEntry" where
  "set_pred = (\<lambda>(a, r, n) e. e\<lparr>pred_attnums := a, pred_relids := r, n_pred := n\<rparr>)"

definition set_join :: "columns \<Rightarrow> WorkloadEntry \<Rightarrow> WorkloadEntry" where
  "set_join = (\<lambda>(a, r, n) e. e\<lparr>join_attnums := a, join_relids := r, n_join := n\<rparr>)"

definition walk_quals :: "PlannedStmt \<Rightarrow> Plan \<Rightarrow> WorkloadEntry \<Rightarrow> WorkloadEntry result" where
  "walk_quals pstmt plan e =
     bind_res (extract_vars_from_expr pstmt AUTOINDEX_MAX_COLS (plan_qual plan)
                 (pred_attnums e, pred_relids e, n_pred e))
       (\<lambda>cols. Inr (set_pred cols e))"

definition walk_joinqual :: "PlannedStmt \<Rightarrow> Plan \<Rightarrow> WorkloadEntry \<Rightarrow> WorkloadEntry result" where
  "walk_joinqual pstmt plan e =
     bind_res (extract_vars_from_expr pstmt AUTOINDEX_MAX_COLS (plan_joinqual plan)
                 (join_attnums e, join_relids e, n_join e))
       (\<lambda>cols. Inr (set_join cols e))"

text \<open>The Var a sort column refers to, through the sort node's target list.\<close>

definition sort_var :: "Plan \<Rightarrow> AttrNumber \<Rightarrow> Var option" where
  "sort_var plan attno =
     (if 0 < sint attno \<and> sint attno \<le> int (length (plan_targetlist plan))
      then (case plan_targetlist plan ! (nat (sint attno) - 1) of
              VarNode v \<Rightarrow> Some v | _ \<Rightarrow> None)
      else None)"

fun walk_sort :: "PlannedStmt \<Rightarrow> Plan \<Rightarrow> AttrNumber list \<Rightarrow> WorkloadEntry \<Rightarrow> WorkloadEntry" where
  "walk_sort pstmt plan [] e = e"
| "walk_sort pstmt plan (attno # attnos) e =
     (if n_sort e < AUTOINDEX_MAX_COLS
      then walk_sort pstmt plan attnos
        (case Option.bind (sort_var plan attno) (var_column pstmt) of
           None \<Rightarrow> e
         | Some (relid, att) \<Rightarrow>
             e\<lparr>sort_attnums := (sort_attnums e)[n_sort e := att],
               sort_relids := (sort_relids e)[n_sort e := relid],
               n_sort := Suc (n_sort e)\<rparr>)
      else e)"

text \<open>The scanned relation, unless it is already among the first \<open>n_rels\<close> entries.\<close>

definition walk_scanrel :: "PlannedStmt \<Rightarrow> Plan \<Rightarrow> WorkloadEntry \<Rightarrow> WorkloadEntry" where
  "walk_scanrel pstmt plan e =
     (let n = unat (plan_scanrelid plan) in
      if 0 < n \<and> n \<le> length (rtable pstmt)
      then
        let rte = rtable pstmt ! (n - 1) in
        if rtekind rte = RTE_RELATION \<and> FirstNormalObjectId \<le> rte_relid rte \<and>
           n_rels e < AUTOINDEX_MAX_RELS
        then if rte_relid rte \<in> set (take (n_rels e) (relids e)) then e
             else e\<lparr>relids := (relids e)[n_rels e := rte_relid rte], n_rels := Suc (n_rels e)\<rparr>
        else e
      else e)"

fun is_scan :: "PlanTag \<Rightarrow> bool" where
  "is_scan T_SeqScan = True"
| "is_scan T_IndexScan = True"
| "is_scan T_IndexOnlyScan = True"
| "is_scan T_BitmapHeapScan = True"
| "is_scan T_TidScan = True"
| "is_scan T_TidRangeScan = True"
| "is_scan _ = False"

text \<open>The first \<open>switch\<close> on the node tag.\<close>

fun walk_columns :: "PlannedStmt \<Rightarrow> PlanTag \<Rightarrow> Plan \<Rightarrow> WorkloadEntry \<Rightarrow> WorkloadEntry result" where
  "walk_columns pstmt T_HashJoin plan e = walk_joinqual pstmt plan e"
| "walk_columns pstmt T_MergeJoin plan e = walk_joinqual pstmt plan e"
| "walk_columns pstmt T_NestLoop plan e = walk_joinqual pstmt plan e"
| "walk_columns pstmt T_Sort plan e = Inr (walk_sort pstmt plan (plan_sortColIdx plan) e)"
| "walk_columns pstmt T_IncrementalSort plan e = Inr (walk_sort pstmt plan (plan_sortColIdx plan) e)"
| "walk_columns pstmt _ plan e = walk_quals pstmt plan e"

definition walk_node :: "PlannedStmt \<Rightarrow> Plan \<Rightarrow> WorkloadEntry \<Rightarrow> WorkloadEntry result" where
  "walk_node pstmt plan e =
     bind_res (walk_columns pstmt (plan_tag plan) plan e)
       (\<lambda>e. Inr (if is_scan (plan_tag plan) then walk_scanrel pstmt plan e else e))"

lemma plan_size_children:
  "size_option size (lefttree p) < Suc (size p)" "size_option size (righttree p) < Suc (size p)"
  by (cases p; simp)+

function walk_plan_tree :: "PlannedStmt \<Rightarrow> Plan option \<Rightarrow> WorkloadEntry \<Rightarrow> WorkloadEntry result" where
  "walk_plan_tree pstmt None e = Inr e"
| "walk_plan_tree pstmt (Some plan) e =
     bind_res (walk_node pstmt plan e)
       (\<lambda>e. bind_res (walk_plan_tree pstmt (lefttree plan) e)
              (walk_plan_tree pstmt (righttree plan)))"
  by pat_completeness auto
termination
  by (relation "measure (\<lambda>(pstmt, p, e). size_option size p)") (simp_all add: plan_size_children)

subsection \<open>The hook\<close>

record QueryDesc =
  plannedstmt :: "PlannedStmt option"

definition OUTER_VAR :: int32 where "OUTER_VAR = -2"
definition INNER_VAR :: int32 where "INNER_VAR = -1"

text \<open>The entry the hook builds for a statement, if the statement has a plan and the entry a column.\<close>

definition capture_entry :: "TimestampTz \<Rightarrow> PlannedStmt \<Rightarrow> WorkloadEntry option result" where
  "capture_entry now pstmt =
     (case planTree pstmt of
        None \<Rightarrow> Inr None
      | Some plan \<Rightarrow>
          if commandType pstmt = CMD_UTILITY then Inr None
          else
            let e = zero_entry\<lparr>plan_cost := total_cost plan, entry_ts := now,
                                query_hash := queryId pstmt\<rparr>
            in bind_res (walk_plan_tree pstmt (Some plan) e)
                 (\<lambda>e. Inr (if 0 < n_pred e \<or> 0 < n_sort e \<or> 0 < n_join e then Some e else None)))"

text \<open>
  The hook over an executor state of type \<open>'x\<close>: the previous hook, if there is
  one, or the standard function does the executor's work, between the capture and
  the push. The outer option is the termination of the push loop.
\<close>

definition autoindex_workload_capture_hook ::
  "bool \<Rightarrow> TimestampTz \<Rightarrow> (QueryDesc option \<Rightarrow> 'x \<Rightarrow> 'x result) option \<Rightarrow>
   (QueryDesc option \<Rightarrow> 'x \<Rightarrow> 'x result) \<Rightarrow> QueryDesc option \<Rightarrow>
   AutoIndexShmemHeader option \<Rightarrow> 'x \<Rightarrow> (AutoIndexShmemHeader option \<times> 'x) result option" where
  "autoindex_workload_capture_hook enabled now prev_hook standard_ExecutorEnd qd shmem x =
     (let captured =
        (if enabled \<and> shmem \<noteq> None
         then (case Option.bind qd plannedstmt of
                 None \<Rightarrow> Inr None | Some pstmt \<Rightarrow> capture_entry now pstmt)
         else Inr None)
      in case captured of
           Inl err \<Rightarrow> Some (Inl err)
         | Inr captured \<Rightarrow>
             (case (case prev_hook of Some f \<Rightarrow> f qd x | None \<Rightarrow> standard_ExecutorEnd qd x) of
                Inl err \<Rightarrow> Some (Inl err)
              | Inr x' \<Rightarrow>
                  (case captured of
                     None \<Rightarrow> Some (Inr (shmem, x'))
                   | Some e \<Rightarrow> map_option (\<lambda>shmem'. Inr (shmem', x')) (ring_buffer_push shmem e))))"

text \<open>The pair of the saved previous hook and the installed hook.\<close>

definition autoindex_install_hooks :: "'h \<Rightarrow> 'h option \<times> 'h option \<Rightarrow> 'h option \<times> 'h option" where
  "autoindex_install_hooks capture_hook = (\<lambda>(prev, current). (current, Some capture_hook))"

subsection \<open>What a plan offers to the walk\<close>

text \<open>The nodes in the order they are visited, and the columns and relations each contributes.\<close>

function plan_nodes :: "Plan option \<Rightarrow> Plan list" where
  "plan_nodes None = []"
| "plan_nodes (Some p) = p # plan_nodes (lefttree p) @ plan_nodes (righttree p)"
  by pat_completeness auto
termination
  by (relation "measure (size_option size)") (simp_all add: plan_size_children)

fun is_join :: "PlanTag \<Rightarrow> bool" where
  "is_join T_HashJoin = True"
| "is_join T_MergeJoin = True"
| "is_join T_NestLoop = True"
| "is_join _ = False"

fun is_sort :: "PlanTag \<Rightarrow> bool" where
  "is_sort T_Sort = True"
| "is_sort T_IncrementalSort = True"
| "is_sort _ = False"

definition expr_columns :: "PlannedStmt \<Rightarrow> Node list \<Rightarrow> (Oid \<times> int16) list" where
  "expr_columns pstmt quals = List.map_filter (var_column pstmt) (nodes_vars quals)"

definition node_preds :: "PlannedStmt \<Rightarrow> Plan \<Rightarrow> (Oid \<times> int16) list" where
  "node_preds pstmt p =
     (if is_join (plan_tag p) \<or> is_sort (plan_tag p) then [] else expr_columns pstmt (plan_qual p))"

definition node_joins :: "PlannedStmt \<Rightarrow> Plan \<Rightarrow> (Oid \<times> int16) list" where
  "node_joins pstmt p = (if is_join (plan_tag p) then expr_columns pstmt (plan_joinqual p) else [])"

definition node_sorts :: "PlannedStmt \<Rightarrow> Plan \<Rightarrow> (Oid \<times> int16) list" where
  "node_sorts pstmt p =
     (if is_sort (plan_tag p)
      then List.map_filter (\<lambda>a. Option.bind (sort_var p a) (var_column pstmt)) (plan_sortColIdx p)
      else [])"

definition node_rels :: "PlannedStmt \<Rightarrow> Plan \<Rightarrow> Oid list" where
  "node_rels pstmt p =
     (if is_scan (plan_tag p)
      then (case var_column pstmt \<lparr>varno = plan_scanrelid p, varattno = 0, varlevelsup = 0\<rparr> of
              None \<Rightarrow> [] | Some (r, _) \<Rightarrow> [r])
      else [])"

definition node_ok :: "Plan \<Rightarrow> bool" where
  "node_ok p \<longleftrightarrow>
     (if is_join (plan_tag p) then levels_zero (plan_joinqual p)
      else is_sort (plan_tag p) \<or> levels_zero (plan_qual p))"

definition add_rel :: "Oid \<Rightarrow> Oid list \<Rightarrow> Oid list" where
  "add_rel r rs = (if length rs < AUTOINDEX_MAX_RELS \<and> r \<notin> set rs then rs @ [r] else rs)"

definition first_occurrences :: "'a list \<Rightarrow> 'a list" where
  "first_occurrences xs = rev (remdups (rev xs))"

lemma first_occurrences_snoc:
  "first_occurrences (xs @ [x]) =
     (if x \<in> set xs then first_occurrences xs else first_occurrences xs @ [x])"
  by (simp add: first_occurrences_def)

lemma set_first_occurrences [simp]: "set (first_occurrences xs) = set xs"
  by (simp add: first_occurrences_def)

lemma distinct_first_occurrences [simp]: "distinct (first_occurrences xs)"
  by (simp add: first_occurrences_def)

lemma fold_add_rel: "fold add_rel xs [] = take AUTOINDEX_MAX_RELS (first_occurrences xs)"
proof (induction xs rule: rev_induct)
  case Nil
  show ?case by (simp add: first_occurrences_def)
next
  case (snoc x xs)
  then show ?case
    by (cases "length (first_occurrences xs) < AUTOINDEX_MAX_RELS")
      (auto simp: add_rel_def first_occurrences_snoc)
qed

subsection \<open>The walk computes them\<close>

definition cols_list :: "columns \<Rightarrow> (Oid \<times> int16) list" where
  "cols_list = (\<lambda>(atts, rels, n). take n (zip rels atts))"

definition wf_cols :: "nat \<Rightarrow> columns \<Rightarrow> bool" where
  "wf_cols m = (\<lambda>(atts, rels, n). length atts = m \<and> length rels = m \<and> n \<le> m)"

lemma cols_store:
  assumes "wf_cols m (atts, rels, n)" and "n < m"
  shows "wf_cols m (atts[n := a], rels[n := r], Suc n)"
    and "cols_list (atts[n := a], rels[n := r], Suc n) = cols_list (atts, rels, n) @ [(r, a)]"
proof -
  have "zip (rels[n := r]) (atts[n := a]) = (zip rels atts)[n := (r, a)]"
    by (simp add: update_zip)
  with assms show "cols_list (atts[n := a], rels[n := r], Suc n) = cols_list (atts, rels, n) @ [(r, a)]"
    by (simp add: cols_list_def wf_cols_def take_store)
qed (use assms in \<open>auto simp: wf_cols_def\<close>)

lemma length_cols_list: "wf_cols m (atts, rels, n) \<Longrightarrow> length (cols_list (atts, rels, n)) = n"
  by (simp add: wf_cols_def cols_list_def)

lemma take_full_append: "length xs = m \<Longrightarrow> take m (xs @ ys) = xs"
  by simp

lemma extract_vars_loop_spec:
  assumes "wf_cols m c"
  shows "wf_cols m (extract_vars_loop pstmt m (map VarNode vs) c) \<and>
         cols_list (extract_vars_loop pstmt m (map VarNode vs) c) =
           take m (cols_list c @ List.map_filter (var_column pstmt) vs)"
  using assms
proof (induction vs arbitrary: c)
  case Nil
  then show ?case by (cases c) (auto simp: length_cols_list map_filter_simps wf_cols_def cols_list_def)
next
  case (Cons v vs)
  obtain atts rels n where c: "c = (atts, rels, n)" by (cases c)
  show ?case
  proof (cases "var_column pstmt v")
    case None
    with Cons c show ?thesis by (simp add: map_filter_simps)
  next
    case (Some ra)
    obtain r a where ra: "ra = (r, a)" by (cases ra)
    show ?thesis
    proof (cases "n < m")
      case True
      with Cons.IH [OF cols_store(1) [of m atts rels n a r]] Cons.prems Some ra c
      show ?thesis by (simp add: map_filter_simps cols_store(2))
    next
      case False
      with Cons.prems c have "length (cols_list c) = m"
        using length_cols_list [of m atts rels n] by (simp add: wf_cols_def)
      with Cons.IH [of c] Cons.prems Some ra c False show ?thesis
        by (simp add: map_filter_simps)
    qed
  qed
qed

text \<open>An expression the walker accepts adds its columns, any other is an error.\<close>

lemma extract_vars_accepts:
  assumes "levels_zero quals" and "wf_cols m c"
  obtains c' where "extract_vars_from_expr pstmt m quals c = Inr c'" "wf_cols m c'"
    "cols_list c' = take m (cols_list c @ expr_columns pstmt quals)"
proof (cases "quals = []")
  case True
  with assms that [of c] show thesis
    by (cases c) (auto simp: extract_vars_from_expr_def expr_columns_def map_filter_simps
        cols_list_def wf_cols_def)
next
  case False
  with assms that extract_vars_loop_spec [OF assms(2), of pstmt "nodes_vars quals"] show thesis
    by (auto simp: extract_vars_from_expr_def pull_var_clause_def pull_var_walker_collects
        expr_columns_def)
qed

lemma extract_vars_rejects:
  "\<not> levels_zero quals \<Longrightarrow> isl (extract_vars_from_expr pstmt m quals c)"
  using pull_var_walker_raises(1) [of "ExprNode quals" "[]"]
  by (cases "pull_var_clause_children capture_flags quals []")
    (auto simp: extract_vars_from_expr_def pull_var_clause_def)

text \<open>
  \<open>walked pstmt ps e e'\<close>: \<open>e'\<close> is \<open>e\<close> with the contributions of the nodes \<open>ps\<close>
  appended, as far as the arrays hold them.
\<close>

definition walked :: "PlannedStmt \<Rightarrow> Plan list \<Rightarrow> WorkloadEntry \<Rightarrow> WorkloadEntry \<Rightarrow> bool" where
  "walked pstmt ps e e' \<longleftrightarrow> wf_entry e' \<and>
     pred_cols e' = take AUTOINDEX_MAX_COLS (pred_cols e @ concat (map (node_preds pstmt) ps)) \<and>
     join_cols e' = take AUTOINDEX_MAX_COLS (join_cols e @ concat (map (node_joins pstmt) ps)) \<and>
     sort_cols e' = take AUTOINDEX_MAX_COLS (sort_cols e @ concat (map (node_sorts pstmt) ps)) \<and>
     rel_set e' = fold add_rel (concat (map (node_rels pstmt) ps)) (rel_set e) \<and>
     query_hash e' = query_hash e \<and> plan_cost e' = plan_cost e \<and>
     actual_ms e' = actual_ms e \<and> entry_ts e' = entry_ts e"

lemma wf_entry_cols:
  "wf_entry e \<longleftrightarrow>
     length (relids e) = AUTOINDEX_MAX_RELS \<and> n_rels e \<le> AUTOINDEX_MAX_RELS \<and>
     wf_cols AUTOINDEX_MAX_COLS (pred_attnums e, pred_relids e, n_pred e) \<and>
     wf_cols AUTOINDEX_MAX_COLS (sort_attnums e, sort_relids e, n_sort e) \<and>
     wf_cols AUTOINDEX_MAX_COLS (join_attnums e, join_relids e, n_join e)"
  by (auto simp: wf_entry_def wf_cols_def)

lemma entry_cols_list:
  "pred_cols e = cols_list (pred_attnums e, pred_relids e, n_pred e)"
  "sort_cols e = cols_list (sort_attnums e, sort_relids e, n_sort e)"
  "join_cols e = cols_list (join_attnums e, join_relids e, n_join e)"
  by (simp_all add: pred_cols_def sort_cols_def join_cols_def cols_list_def)

lemma entry_cols_le:
  assumes "wf_entry e"
  shows "length (pred_cols e) = n_pred e" "length (sort_cols e) = n_sort e"
    "length (join_cols e) = n_join e" "n_pred e \<le> AUTOINDEX_MAX_COLS"
    "n_sort e \<le> AUTOINDEX_MAX_COLS" "n_join e \<le> AUTOINDEX_MAX_COLS"
    "length (rel_set e) = n_rels e" "n_rels e \<le> AUTOINDEX_MAX_RELS"
  using assms by (auto simp: wf_entry_def pred_cols_def sort_cols_def join_cols_def rel_set_def)

lemma take_take_append: "take m (take m xs @ ys) = take m (xs @ ys)"
  by (cases "length xs < m") auto

lemma walked_trans: "walked pstmt ps e e' \<Longrightarrow> walked pstmt qs e' e'' \<Longrightarrow> walked pstmt (ps @ qs) e e''"
  by (simp add: walked_def take_take_append del: take_append)

lemma walked_refl: "wf_entry e \<Longrightarrow> walked pstmt [] e e"
  by (simp add: walked_def entry_cols_le)

lemma walk_quals_cases:
  assumes "wf_entry e"
  shows "levels_zero (plan_qual p) \<Longrightarrow> \<exists>c. walk_quals pstmt p e = Inr (set_pred c e) \<and>
           wf_cols AUTOINDEX_MAX_COLS c \<and>
           cols_list c = take AUTOINDEX_MAX_COLS (pred_cols e @ expr_columns pstmt (plan_qual p))"
    and "\<not> levels_zero (plan_qual p) \<Longrightarrow> isl (walk_quals pstmt p e)"
proof -
  let ?c = "(pred_attnums e, pred_relids e, n_pred e)"
  have wf: "wf_cols AUTOINDEX_MAX_COLS ?c" using assms by (simp add: wf_entry_cols)
  show "\<exists>c. walk_quals pstmt p e = Inr (set_pred c e) \<and> wf_cols AUTOINDEX_MAX_COLS c \<and>
          cols_list c = take AUTOINDEX_MAX_COLS (pred_cols e @ expr_columns pstmt (plan_qual p))"
    if "levels_zero (plan_qual p)"
    by (rule extract_vars_accepts [OF that wf, of pstmt])
      (auto simp: walk_quals_def entry_cols_list)
  show "isl (walk_quals pstmt p e)" if "\<not> levels_zero (plan_qual p)"
    using extract_vars_rejects [OF that, of pstmt AUTOINDEX_MAX_COLS ?c]
    by (auto simp: walk_quals_def isl_def)
qed

lemma walk_joinqual_cases:
  assumes "wf_entry e"
  shows "levels_zero (plan_joinqual p) \<Longrightarrow> \<exists>c. walk_joinqual pstmt p e = Inr (set_join c e) \<and>
           wf_cols AUTOINDEX_MAX_COLS c \<and>
           cols_list c = take AUTOINDEX_MAX_COLS (join_cols e @ expr_columns pstmt (plan_joinqual p))"
    and "\<not> levels_zero (plan_joinqual p) \<Longrightarrow> isl (walk_joinqual pstmt p e)"
proof -
  let ?c = "(join_attnums e, join_relids e, n_join e)"
  have wf: "wf_cols AUTOINDEX_MAX_COLS ?c" using assms by (simp add: wf_entry_cols)
  show "\<exists>c. walk_joinqual pstmt p e = Inr (set_join c e) \<and> wf_cols AUTOINDEX_MAX_COLS c \<and>
          cols_list c = take AUTOINDEX_MAX_COLS (join_cols e @ expr_columns pstmt (plan_joinqual p))"
    if "levels_zero (plan_joinqual p)"
    by (rule extract_vars_accepts [OF that wf, of pstmt])
      (auto simp: walk_joinqual_def entry_cols_list)
  show "isl (walk_joinqual pstmt p e)" if "\<not> levels_zero (plan_joinqual p)"
    using extract_vars_rejects [OF that, of pstmt AUTOINDEX_MAX_COLS ?c]
    by (auto simp: walk_joinqual_def isl_def)
qed

text \<open>The sort loop writes the sort columns and nothing else.\<close>

lemma walk_sort_frame:
  "walk_sort pstmt p as e =
     e\<lparr>sort_attnums := sort_attnums (walk_sort pstmt p as e),
       sort_relids := sort_relids (walk_sort pstmt p as e),
       n_sort := n_sort (walk_sort pstmt p as e)\<rparr>"
proof (induction as arbitrary: e)
  case (Cons a as)
  let ?e = "case Option.bind (sort_var p a) (var_column pstmt) of None \<Rightarrow> e
         | Some (relid, att) \<Rightarrow>
             e\<lparr>sort_attnums := (sort_attnums e)[n_sort e := att],
               sort_relids := (sort_relids e)[n_sort e := relid],
               n_sort := Suc (n_sort e)\<rparr>"
  show ?case
  proof (cases "n_sort e < AUTOINDEX_MAX_COLS")
    case True
    then have "walk_sort pstmt p (a # as) e = walk_sort pstmt p as ?e" by simp
    then show ?thesis using Cons [of ?e]
      by (cases "Option.bind (sort_var p a) (var_column pstmt)") auto
  qed simp
qed simp

lemma walk_sort_cols:
  assumes "wf_cols AUTOINDEX_MAX_COLS (sort_attnums e, sort_relids e, n_sort e)"
  shows "wf_cols AUTOINDEX_MAX_COLS (sort_attnums (walk_sort pstmt p as e),
           sort_relids (walk_sort pstmt p as e), n_sort (walk_sort pstmt p as e)) \<and>
         sort_cols (walk_sort pstmt p as e) = take AUTOINDEX_MAX_COLS
           (sort_cols e @ List.map_filter (\<lambda>a. Option.bind (sort_var p a) (var_column pstmt)) as)"
  using assms
proof (induction as arbitrary: e)
  case Nil
  then show ?case by (simp add: map_filter_simps wf_cols_def sort_cols_def)
next
  case (Cons a as)
  show ?case
  proof (cases "n_sort e < AUTOINDEX_MAX_COLS")
    case True
    with Cons cols_store [OF Cons.prems True] show ?thesis
      by (auto simp: map_filter_simps entry_cols_list simp del: take_append split: option.split)
  next
    case False
    with Cons.prems length_cols_list [OF Cons.prems] show ?thesis
      by (simp add: entry_cols_list wf_cols_def)
  qed
qed

lemma walk_scanrel_frame:
  "walk_scanrel pstmt p e =
     e\<lparr>relids := relids (walk_scanrel pstmt p e), n_rels := n_rels (walk_scanrel pstmt p e)\<rparr>"
  by (simp add: walk_scanrel_def Let_def)

lemma walk_scanrel_rels:
  assumes "wf_entry e" and "is_scan (plan_tag p)"
  shows "length (relids (walk_scanrel pstmt p e)) = AUTOINDEX_MAX_RELS \<and>
         n_rels (walk_scanrel pstmt p e) \<le> AUTOINDEX_MAX_RELS \<and>
         rel_set (walk_scanrel pstmt p e) = fold add_rel (node_rels pstmt p) (rel_set e)"
  using assms entry_cols_le(7,8) [OF assms(1)]
  by (auto simp: walk_scanrel_def node_rels_def var_column_def Let_def add_rel_def rel_set_def
      wf_entry_def take_store not_less)

text \<open>A node: its columns first, then, for a scan, its relation.\<close>

lemma walk_columns_tag:
  "walk_columns pstmt tag p e =
     (if is_join tag then walk_joinqual pstmt p e
      else if is_sort tag then Inr (walk_sort pstmt p (plan_sortColIdx p) e)
      else walk_quals pstmt p e)"
  by (cases tag) simp_all

lemma scan_not_join_sort: "is_scan tag \<Longrightarrow> \<not> is_join tag \<and> \<not> is_sort tag"
  by (cases tag) simp_all

lemma join_not_sort: "is_join tag \<Longrightarrow> \<not> is_sort tag"
  by (cases tag) simp_all

lemma entry_set_cols:
  assumes "wf_entry e" and "wf_cols AUTOINDEX_MAX_COLS c"
  shows "wf_entry (set_pred c e)" "pred_cols (set_pred c e) = cols_list c"
    "wf_entry (set_join c e)" "join_cols (set_join c e) = cols_list c"
  using assms
  by (auto simp: set_pred_def set_join_def wf_entry_def wf_cols_def pred_cols_def join_cols_def
      cols_list_def split: prod.split)

lemma entry_set_frame [simp]:
  "join_cols (set_pred c e) = join_cols e" "sort_cols (set_pred c e) = sort_cols e"
  "rel_set (set_pred c e) = rel_set e" "query_hash (set_pred c e) = query_hash e"
  "plan_cost (set_pred c e) = plan_cost e" "actual_ms (set_pred c e) = actual_ms e"
  "entry_ts (set_pred c e) = entry_ts e"
  "pred_cols (set_join c e) = pred_cols e" "sort_cols (set_join c e) = sort_cols e"
  "rel_set (set_join c e) = rel_set e" "query_hash (set_join c e) = query_hash e"
  "plan_cost (set_join c e) = plan_cost e" "actual_ms (set_join c e) = actual_ms e"
  "entry_ts (set_join c e) = entry_ts e"
  by (auto simp: set_pred_def set_join_def pred_cols_def sort_cols_def join_cols_def rel_set_def
      split: prod.split)

lemma walk_sort_walked:
  assumes "wf_entry e" and "is_sort (plan_tag p)" and "\<not> is_scan (plan_tag p)" and "\<not> is_join (plan_tag p)"
  shows "walked pstmt [p] e (walk_sort pstmt p (plan_sortColIdx p) e)"
proof -
  let ?e = "walk_sort pstmt p (plan_sortColIdx p) e"
  let ?s = "(sort_attnums ?e, sort_relids ?e, n_sort ?e)"
  have s: "wf_cols AUTOINDEX_MAX_COLS ?s"
    "sort_cols ?e = take AUTOINDEX_MAX_COLS (sort_cols e @ node_sorts pstmt p)"
    using walk_sort_cols [of e pstmt p "plan_sortColIdx p"] assms(1,2)
    by (auto simp: wf_entry_cols node_sorts_def)
  have frame: "wf_entry ?e \<and> pred_cols ?e = pred_cols e \<and> join_cols ?e = join_cols e \<and>
      rel_set ?e = rel_set e \<and> query_hash ?e = query_hash e \<and> plan_cost ?e = plan_cost e \<and>
      actual_ms ?e = actual_ms e \<and> entry_ts ?e = entry_ts e"
    by (subst (1 2 3 4 5 6 7 8) walk_sort_frame)
      (use assms(1) s(1) in \<open>auto simp: wf_entry_def wf_cols_def pred_cols_def join_cols_def rel_set_def\<close>)
  with s assms entry_cols_le [OF assms(1)] show ?thesis
    by (simp add: walked_def node_preds_def node_joins_def node_rels_def)
qed

lemma walk_scanrel_walked:
  assumes "wf_entry e" and "is_scan (plan_tag p)"
    and "cols_list c = take AUTOINDEX_MAX_COLS (pred_cols e @ node_preds pstmt p)"
    and "wf_cols AUTOINDEX_MAX_COLS c"
  shows "walked pstmt [p] e (walk_scanrel pstmt p (set_pred c e))"
proof -
  let ?p = "set_pred c e"
  let ?e = "walk_scanrel pstmt p ?p"
  note p = entry_set_cols(1,2) [OF assms(1,4)]
  note r = walk_scanrel_rels [OF p(1) assms(2), of pstmt]
  have frame: "wf_entry ?e \<and> pred_cols ?e = pred_cols ?p \<and> join_cols ?e = join_cols ?p \<and>
      sort_cols ?e = sort_cols ?p \<and> query_hash ?e = query_hash ?p \<and> plan_cost ?e = plan_cost ?p \<and>
      actual_ms ?e = actual_ms ?p \<and> entry_ts ?e = entry_ts ?p"
    by (subst (1 2 3 4 5 6 7 8) walk_scanrel_frame)
      (use p(1) r in \<open>auto simp: wf_entry_def pred_cols_def join_cols_def sort_cols_def\<close>)
  with r p assms entry_cols_le [OF assms(1)] scan_not_join_sort [OF assms(2)] show ?thesis
    by (simp add: walked_def node_joins_def node_sorts_def)
qed

lemma walk_node_ok:
  assumes wf: "wf_entry e" and ok: "node_ok p"
  shows "\<exists>e'. walk_node pstmt p e = Inr e' \<and> walked pstmt [p] e e'"
proof -
  consider (join) "is_join (plan_tag p)" "\<not> is_scan (plan_tag p)" "\<not> is_sort (plan_tag p)"
    | (sort) "is_sort (plan_tag p)" "\<not> is_scan (plan_tag p)" "\<not> is_join (plan_tag p)"
    | (other) "\<not> is_join (plan_tag p)" "\<not> is_sort (plan_tag p)"
    using scan_not_join_sort join_not_sort by blast
  then show ?thesis
  proof cases
    case join
    with ok walk_joinqual_cases(1) [OF wf, of p pstmt] obtain c where
      c: "walk_joinqual pstmt p e = Inr (set_join c e)" "wf_cols AUTOINDEX_MAX_COLS c"
        "cols_list c = take AUTOINDEX_MAX_COLS (join_cols e @ node_joins pstmt p)"
      by (auto simp: node_ok_def node_joins_def)
    with join entry_set_cols(3,4) [OF wf c(2)] entry_cols_le [OF wf] show ?thesis
      by (auto simp: walk_node_def walk_columns_tag walked_def node_preds_def node_sorts_def
          node_rels_def simp del: take_append)
  next
    case sort
    with walk_sort_walked [OF wf sort, of pstmt] show ?thesis
      by (simp add: walk_node_def walk_columns_tag)
  next
    case other
    with ok walk_quals_cases(1) [OF wf, of p pstmt] obtain c where
      c: "walk_quals pstmt p e = Inr (set_pred c e)" "wf_cols AUTOINDEX_MAX_COLS c"
        "cols_list c = take AUTOINDEX_MAX_COLS (pred_cols e @ node_preds pstmt p)"
      by (auto simp: node_ok_def node_preds_def)
    then show ?thesis
    proof (cases "is_scan (plan_tag p)")
      case True
      with other c walk_scanrel_walked [OF wf True c(3,2)] show ?thesis
        by (simp add: walk_node_def walk_columns_tag)
    next
      case False
      with other c entry_set_cols(1,2) [OF wf c(2)] entry_cols_le [OF wf] show ?thesis
        by (auto simp: walk_node_def walk_columns_tag walked_def node_joins_def node_sorts_def
            node_rels_def simp del: take_append)
    qed
  qed
qed

lemma walk_node_error:
  assumes "wf_entry e" and "\<not> node_ok p"
  shows "isl (walk_node pstmt p e)"
  using assms walk_quals_cases(2) [of e p pstmt] walk_joinqual_cases(2) [of e p pstmt]
  by (auto simp: walk_node_def walk_columns_tag node_ok_def isl_def split: if_splits)

text \<open>The whole tree.\<close>

lemma walk_plan_tree_ok:
  "wf_entry e \<Longrightarrow> list_all node_ok (plan_nodes p) \<Longrightarrow>
     \<exists>e'. walk_plan_tree pstmt p e = Inr e' \<and> walked pstmt (plan_nodes p) e e'"
proof (induction p arbitrary: e rule: plan_nodes.induct)
  case 1
  then show ?case by (simp add: walked_refl)
next
  case (2 p)
  from walk_node_ok [of e p pstmt] "2.prems" obtain e1 where
    e1: "walk_node pstmt p e = Inr e1" "walked pstmt [p] e e1" by auto
  with "2.IH"(1) [of e1] "2.prems" obtain e2 where
    e2: "walk_plan_tree pstmt (lefttree p) e1 = Inr e2" "walked pstmt (plan_nodes (lefttree p)) e1 e2"
    by (auto simp: walked_def)
  with "2.IH"(2) [of e2] "2.prems" obtain e3 where
    e3: "walk_plan_tree pstmt (righttree p) e2 = Inr e3" "walked pstmt (plan_nodes (righttree p)) e2 e3"
    by (auto simp: walked_def)
  have "walked pstmt ([p] @ plan_nodes (lefttree p) @ plan_nodes (righttree p)) e e3"
    by (intro walked_trans [OF e1(2)] walked_trans [OF e2(2)] e3(2))
  with e1 e2 e3 show ?case by simp
qed

lemma walk_plan_tree_error:
  "wf_entry e \<Longrightarrow> \<not> list_all node_ok (plan_nodes p) \<Longrightarrow> isl (walk_plan_tree pstmt p e)"
proof (induction p arbitrary: e rule: plan_nodes.induct)
  case 1
  then show ?case by simp
next
  case (2 p)
  show ?case
  proof (cases "node_ok p")
    case False
    with walk_node_error [OF "2.prems"(1) False, of pstmt] show ?thesis by (auto simp: isl_def)
  next
    case True
    with walk_node_ok [OF "2.prems"(1) True, of pstmt] obtain e1 where
      e1: "walk_node pstmt p e = Inr e1" "wf_entry e1" by (auto simp: walked_def)
    show ?thesis
    proof (cases "list_all node_ok (plan_nodes (lefttree p))")
      case left: True
      with walk_plan_tree_ok [OF e1(2) left, of pstmt] obtain e2 where
        e2: "walk_plan_tree pstmt (lefttree p) e1 = Inr e2" "wf_entry e2" by (auto simp: walked_def)
      from left True "2.prems"(2) have "\<not> list_all node_ok (plan_nodes (righttree p))" by simp
      with "2.IH"(2) [OF e2(2)] e1 e2 show ?thesis by simp
    next
      case False
      with "2.IH"(1) [OF e1(2) False] e1 show ?thesis by (auto simp: isl_def)
    qed
  qed
qed

subsection \<open>Properties\<close>

lemma capture_entry_contents:
  assumes "planTree pstmt = Some plan" and "commandType pstmt \<noteq> CMD_UTILITY"
  defines "ns \<equiv> plan_nodes (Some plan)"
  shows "if list_all node_ok ns
    then \<exists>e. capture_entry now pstmt =
               Inr (if pred_cols e = [] \<and> sort_cols e = [] \<and> join_cols e = [] then None else Some e) \<and>
             wf_entry e \<and>
             pred_cols e = take 16 (concat (map (node_preds pstmt) ns)) \<and>
             join_cols e = take 16 (concat (map (node_joins pstmt) ns)) \<and>
             sort_cols e = take 16 (concat (map (node_sorts pstmt) ns)) \<and>
             rel_set e = take 8 (first_occurrences (concat (map (node_rels pstmt) ns))) \<and>
             plan_cost e = total_cost plan \<and> query_hash e = queryId pstmt \<and> entry_ts e = now
    else isl (capture_entry now pstmt)"
proof -
  define z where "z = zero_entry\<lparr>plan_cost := total_cost plan, entry_ts := now, query_hash := queryId pstmt\<rparr>"
  have wz: "wf_entry z" "pred_cols z = []" "sort_cols z = []" "join_cols z = []" "rel_set z = []"
    using wf_zero_entry zero_entry_cols
    by (simp_all add: z_def wf_entry_def pred_cols_def sort_cols_def join_cols_def rel_set_def)
  have entry: "capture_entry now pstmt = bind_res (walk_plan_tree pstmt (Some plan) z)
      (\<lambda>e. Inr (if 0 < n_pred e \<or> 0 < n_sort e \<or> 0 < n_join e then Some e else None))"
    using assms by (simp add: capture_entry_def z_def)
  show ?thesis
  proof (cases "list_all node_ok ns")
    case True
    with walk_plan_tree_ok [OF wz(1), of "Some plan" pstmt] obtain e where
      e: "walk_plan_tree pstmt (Some plan) z = Inr e" "walked pstmt ns z e" by (auto simp: ns_def)
    have "wf_entry e" using e(2) by (simp add: walked_def)
    from entry_cols_le(1-3) [OF this, symmetric] e have "capture_entry now pstmt =
        Inr (if pred_cols e = [] \<and> sort_cols e = [] \<and> join_cols e = [] then None else Some e)"
      by (simp add: entry del: walk_plan_tree.simps)
    moreover have "pred_cols e = take 16 (concat (map (node_preds pstmt) ns)) \<and>
        join_cols e = take 16 (concat (map (node_joins pstmt) ns)) \<and>
        sort_cols e = take 16 (concat (map (node_sorts pstmt) ns)) \<and>
        rel_set e = take 8 (first_occurrences (concat (map (node_rels pstmt) ns))) \<and>
        plan_cost e = total_cost plan \<and> query_hash e = queryId pstmt \<and> entry_ts e = now"
      using e(2) wz by (simp add: walked_def fold_add_rel limits) (simp add: z_def)
    ultimately show ?thesis using True \<open>wf_entry e\<close>
      by (subst if_P [OF True]) (intro exI [of _ e], blast)
  next
    case False
    with walk_plan_tree_error [OF wz(1), of "Some plan" pstmt] show ?thesis
      by (auto simp: entry ns_def isl_def simp del: walk_plan_tree.simps)
  qed
qed

text \<open>
  C8: for a statement with a plan, the captured entry holds exactly the first
  sixteen predicate, join and sort columns of the plan's nodes in preorder and
  the first eight distinct scanned relations, within array bounds, stamped with
  the plan's cost, the query id and the time; the entry is handed on exactly when
  it has a column; and a plan with an expression the Var walker refuses raises
  the error instead.
\<close>

theorem capture_entry_exact:
  assumes "planTree pstmt = Some plan" and "commandType pstmt \<noteq> CMD_UTILITY"
  defines "ns \<equiv> plan_nodes (Some plan)"
  shows "if list_all node_ok ns
    then \<exists>e. capture_entry now pstmt =
               Inr (if pred_cols e = [] \<and> sort_cols e = [] \<and> join_cols e = [] then None else Some e) \<and>
             wf_entry e \<and>
             pred_cols e = take 16 (concat (map (node_preds pstmt) ns)) \<and>
             join_cols e = take 16 (concat (map (node_joins pstmt) ns)) \<and>
             sort_cols e = take 16 (concat (map (node_sorts pstmt) ns)) \<and>
             rel_set e = take 8 (first_occurrences (concat (map (node_rels pstmt) ns))) \<and>
             plan_cost e = total_cost plan \<and> query_hash e = queryId pstmt \<and> entry_ts e = now
    else isl (capture_entry now pstmt)"
  unfolding ns_def by (rule capture_entry_contents [OF assms(1,2)])

definition sample_var :: Var where
  "sample_var = \<lparr>varno = 1, varattno = 3, varlevelsup = 0\<rparr>"

definition sample_plan :: Plan where
  "sample_plan = Plan T_SeqScan 5 [VarNode sample_var] [] [] [] 1 None None"

definition sample_stmt :: PlannedStmt where
  "sample_stmt = \<lparr>commandType = CMD_OTHER, queryId = 7, planTree = Some sample_plan,
     rtable = [\<lparr>rtekind = RTE_RELATION, rte_relid = 20000\<rparr>]\<rparr>"

lemmas sample_defs = sample_var_def sample_plan_def sample_stmt_def

lemma sample_contributions:
  "plan_nodes (Some sample_plan) = [sample_plan]" "node_ok sample_plan"
  "node_preds sample_stmt sample_plan = [(20000, 3)]" "node_joins sample_stmt sample_plan = []"
  "node_sorts sample_stmt sample_plan = []" "node_rels sample_stmt sample_plan = [20000]"
  by (simp_all add: sample_defs node_ok_def node_preds_def node_joins_def node_sorts_def node_rels_def
      expr_columns_def var_column_def FirstNormalObjectId_def map_filter_simps)

definition sample_entry :: WorkloadEntry where
  "sample_entry = zero_entry\<lparr>plan_cost := 5, entry_ts := 9, query_hash := 7,
     pred_attnums := 3 # replicate 15 0, pred_relids := 20000 # replicate 15 0, n_pred := 1,
     relids := 20000 # replicate 7 0, n_rels := 1\<rparr>"

lemma sample_column: "var_column sample_stmt sample_var = Some (20000, 3)"
  by (simp add: sample_defs var_column_def FirstNormalObjectId_def)

lemma replicate_limits: "replicate 16 x = x # replicate 15 x" "replicate 8 x = x # replicate 7 x"
  by (simp_all add: numeral_eq_Suc)

lemma sample_captured: "capture_entry 9 sample_stmt = Inr (Some sample_entry)"
proof -
  have *: "planTree sample_stmt = Some sample_plan" "commandType sample_stmt = CMD_OTHER"
    "queryId sample_stmt = 7" "plan_tag sample_plan = T_SeqScan" "total_cost sample_plan = 5"
    "plan_qual sample_plan = [VarNode sample_var]" "lefttree sample_plan = None"
    "righttree sample_plan = None" "plan_scanrelid sample_plan = 1" "varlevelsup sample_var = 0"
    "rtable sample_stmt = [\<lparr>rtekind = RTE_RELATION, rte_relid = 20000\<rparr>]"
    by (simp_all add: sample_defs)
  show ?thesis
    by (simp add: capture_entry_def sample_entry_def * walk_node_def walk_quals_def
        walk_scanrel_def extract_vars_from_expr_def pull_var_clause_def sample_column
        FirstNormalObjectId_def set_pred_def zero_entry_def limits replicate_limits)
qed

theorem capture_entry_exact_witness:
  "\<exists>e. capture_entry 9 sample_stmt = Inr (Some e) \<and> pred_cols e = [(20000, 3)] \<and>
       rel_set e = [20000] \<and> plan_cost e = 5 \<and> query_hash e = 7"
proof -
  have "planTree sample_stmt = Some sample_plan" "commandType sample_stmt \<noteq> CMD_UTILITY"
    "total_cost sample_plan = 5" "queryId sample_stmt = 7"
    by (simp_all add: sample_defs)
  with capture_entry_exact [of sample_stmt sample_plan 9] show ?thesis
    by (auto simp: sample_contributions first_occurrences_def simp del: plan_nodes.simps)
qed

lemma capture_hook_pushes:
  assumes "wf_ring shm" and "plannedstmt qd = Some pstmt"
    and "capture_entry now pstmt = Inr captured"
    and "(case prev of Some f \<Rightarrow> f (Some qd) x | None \<Rightarrow> std (Some qd) x) = Inr x'"
  shows "\<exists>shm'. autoindex_workload_capture_hook enabled now prev std (Some qd) (Some shm) x =
           Some (Inr (Some shm', x')) \<and> wf_ring shm' \<and>
         ring_items shm' =
           (case captured of
              Some e \<Rightarrow> if enabled then take 4095 (ring_items shm @ [e]) else ring_items shm
            | None \<Rightarrow> ring_items shm)"
  using assms ringq.wf_push [OF assms(1)] ringq.items_push [OF assms(1)]
  by (auto simp: autoindex_workload_capture_hook_def ring_buffer_push_def ring_buffer_push_loop_once
      simp del: take_append split: option.split)

text \<open>
  C9: when the capture and the executor's end function raise no error, the hook
  comes to an end with the executor state of the previous hook, or of the standard
  function when there is none; and the ring afterwards holds the captured entry
  behind the old ones if there was room, and is untouched if capture is switched
  off or nothing was captured.
\<close>

theorem capture_hook_correct:
  assumes "wf_ring shm" and "plannedstmt qd = Some pstmt"
    and "capture_entry now pstmt = Inr captured"
    and "(case prev of Some f \<Rightarrow> f (Some qd) x | None \<Rightarrow> std (Some qd) x) = Inr x'"
  shows "\<exists>shm'. autoindex_workload_capture_hook enabled now prev std (Some qd) (Some shm) x =
           Some (Inr (Some shm', x')) \<and> wf_ring shm' \<and>
         ring_items shm' =
           (case captured of
              Some e \<Rightarrow> if enabled then take 4095 (ring_items shm @ [e]) else ring_items shm
            | None \<Rightarrow> ring_items shm)"
  using assms by (rule capture_hook_pushes)

theorem capture_hook_correct_witness:
  "\<exists>shm'. autoindex_workload_capture_hook True 9 None (\<lambda>_ x. Inr (x + 1))
        (Some \<lparr>plannedstmt = Some sample_stmt\<rparr>) (Some autoindex_shmem_init) (0::nat) =
      Some (Inr (Some shm', 1)) \<and> wf_ring shm' \<and> ring_items shm' = [sample_entry]"
  using capture_hook_correct [OF wf_shmem_init, where qd = "\<lparr>plannedstmt = Some sample_stmt\<rparr>"
      and prev = None and std = "\<lambda>_ x. Inr (x + 1)" and x = "0::nat" and enabled = True,
      OF _ sample_captured]
  by (simp add: ring_items_init)

text \<open>Vars that refer to a child plan's output, and plans whose references are set.\<close>

definition child_var :: "Var \<Rightarrow> bool" where
  "child_var v \<longleftrightarrow> varno v = INNER_VAR \<or> varno v = OUTER_VAR"

definition refs_set :: "Plan \<Rightarrow> bool" where
  "refs_set p \<longleftrightarrow>
     (is_join (plan_tag p) \<longrightarrow> list_all child_var (nodes_vars (plan_joinqual p))) \<and>
     (is_sort (plan_tag p) \<longrightarrow> list_all child_var (nodes_vars (plan_targetlist p)))"

lemma child_var_column:
  assumes "child_var v" and "length (rtable pstmt) < 2 ^ 31"
  shows "var_column pstmt v = None"
proof -
  have "length (rtable pstmt) < unat (varno v)"
    using assms by (auto simp: child_var_def INNER_VAR_def OUTER_VAR_def unsigned_minus_1_eq_mask mask_eq_exp_minus_1)
  then show ?thesis by (simp add: var_column_def)
qed

lemma map_filter_none: "list_all (\<lambda>x. f x = None) xs \<Longrightarrow> List.map_filter f xs = []"
  by (induction xs) (simp_all add: map_filter_simps)

lemma var_in_nodes: "VarNode v \<in> set ns \<Longrightarrow> v \<in> set (nodes_vars ns)"
  by (induction ns) auto

lemma refs_set_node:
  assumes "refs_set p" and "length (rtable pstmt) < 2 ^ 31"
  shows "node_joins pstmt p = []" and "node_sorts pstmt p = []"
proof -
  show "node_joins pstmt p = []"
    using assms unfolding node_joins_def expr_columns_def refs_set_def
    by (auto simp: list_all_iff child_var_column intro!: map_filter_none)
  have "Option.bind (sort_var p a) (var_column pstmt) = None" if "is_sort (plan_tag p)" for a
  proof (cases "sort_var p a")
    case (Some v)
    then have "nat (sint a) - 1 < length (plan_targetlist p)"
      "plan_targetlist p ! (nat (sint a) - 1) = VarNode v"
      by (auto simp: sort_var_def split: if_splits Node.splits)
    then have "VarNode v \<in> set (plan_targetlist p)" using nth_mem by metis
    with that assms(1) have "child_var v"
      by (auto simp: refs_set_def list_all_iff dest: var_in_nodes)
    with Some assms(2) show ?thesis by (simp add: child_var_column)
  qed simp
  then show "node_sorts pstmt p = []"
    by (auto simp: node_sorts_def list_all_iff intro!: map_filter_none)
qed

text \<open>
  C37: in a finished plan the Vars of join quals and of sort target lists refer to
  the child plans through the special varnos \<open>INNER_VAR\<close> and \<open>OUTER_VAR\<close>; for such
  a plan no join column and no sort column is ever captured.
\<close>

theorem capture_misses_join_and_sort:
  assumes "list_all refs_set (plan_nodes (planTree pstmt))" and "length (rtable pstmt) < 2 ^ 31"
    and "walk_plan_tree pstmt (planTree pstmt) zero_entry = Inr e"
  shows "n_join e = 0 \<and> n_sort e = 0"
proof -
  let ?ns = "plan_nodes (planTree pstmt)"
  have "list_all node_ok ?ns"
    using walk_plan_tree_error [OF wf_zero_entry, of "planTree pstmt" pstmt] assms(3) by auto
  with walk_plan_tree_ok [OF wf_zero_entry, of "planTree pstmt" pstmt] assms(3)
  have w: "walked pstmt ?ns zero_entry e" by auto
  have "concat (map (node_joins pstmt) ?ns) = []" "concat (map (node_sorts pstmt) ?ns) = []"
    using assms(1,2) by (auto simp: list_all_iff refs_set_node)
  with w have "join_cols e = []" "sort_cols e = []" by (simp_all only: walked_def) simp_all
  moreover from w have "wf_entry e" by (simp add: walked_def)
  ultimately show ?thesis using entry_cols_le(2,3) [of e] by simp
qed

definition sample_join :: PlannedStmt where
  "sample_join = \<lparr>commandType = CMD_OTHER, queryId = 1,
     planTree = Some (Plan T_NestLoop 1 [] []
        [ExprNode [VarNode \<lparr>varno = OUTER_VAR, varattno = 1, varlevelsup = 0\<rparr>,
                   VarNode \<lparr>varno = INNER_VAR, varattno = 2, varlevelsup = 0\<rparr>]] [] 0 None None),
     rtable = [\<lparr>rtekind = RTE_RELATION, rte_relid = 20000\<rparr>]\<rparr>"

theorem capture_misses_join_and_sort_witness:
  "\<exists>e. walk_plan_tree sample_join (planTree sample_join) zero_entry = Inr e \<and> n_join e = 0 \<and> n_sort e = 0"
proof -
  have refs: "list_all refs_set (plan_nodes (planTree sample_join))"
    by (simp add: sample_join_def refs_set_def child_var_def)
  have "list_all node_ok (plan_nodes (planTree sample_join))"
    by (simp add: sample_join_def node_ok_def)
  with walk_plan_tree_ok [OF wf_zero_entry] obtain e where
    "walk_plan_tree sample_join (planTree sample_join) zero_entry = Inr e" by blast
  with capture_misses_join_and_sort [OF refs _ this] show ?thesis by (simp add: sample_join_def)
qed

end
