(* ===== verification/Hooks.thy ===== *)
theory Hooks
  imports Capture
begin

section \<open>Installation of the executor hook\<close>

text \<open>
  The hook variables of a backend, what \<^verbatim>\<open>autoindex_install_hooks\<close> does to them, and the
  call of the hooks at the end of a query. The installation is part of the callback that
  initialises the shared memory. The postmaster runs this callback when it starts and
  again, in the same process, whenever it reinitialises after the crash of a backend; the
  backends inherit the variables. As a hook variable may come to refer to the hook itself,
  the call is a partial function.
\<close>

subsection \<open>Hook variables\<close>

text \<open>A hook is that of AutoIndex or one that an extension had installed before.\<close>

datatype end_hook = Capture_Hook | Extension_Hook

type_synonym hook_vars = "end_hook option \<times> end_hook option"

text \<open>\<open>autoindex_shmem_init\<close> as a whole: the zeroed header and the installation.\<close>

definition shmem_init_callback :: "hook_vars \<Rightarrow> AutoIndexShmemHeader \<times> hook_vars" where
  "shmem_init_callback vars = (autoindex_shmem_init, autoindex_install_hooks Capture_Hook vars)"

text \<open>The variables after the start of the postmaster and a number of reinitialisations.\<close>

fun after_reinitialising :: "nat \<Rightarrow> hook_vars \<Rightarrow> hook_vars" where
  "after_reinitialising 0 vars = snd (shmem_init_callback vars)"
| "after_reinitialising (Suc n) vars = snd (shmem_init_callback (after_reinitialising n vars))"

subsection \<open>The end of a query\<close>

text \<open>
  What the functions that end a query work on: whether capture is enabled, the time, the
  previous hook, the extension's hook and the standard function.
\<close>

record 'x backend =
  be_enabled :: bool
  be_now :: TimestampTz
  be_prev :: "end_hook option"
  be_extension :: "QueryDesc option \<Rightarrow> 'x \<Rightarrow> 'x result"
  be_standard :: "QueryDesc option \<Rightarrow> 'x \<Rightarrow> 'x result"

definition capture_part ::
  "'x backend \<Rightarrow> QueryDesc option \<Rightarrow> AutoIndexShmemHeader option \<Rightarrow> WorkloadEntry option result" where
  "capture_part b qd shmem =
     (if be_enabled b \<and> shmem \<noteq> None
      then (case Option.bind qd plannedstmt of None \<Rightarrow> Inr None | Some pstmt \<Rightarrow> capture_entry (be_now b) pstmt)
      else Inr None)"

definition push_part ::
  "WorkloadEntry option \<Rightarrow> AutoIndexShmemHeader option \<times> 'x \<Rightarrow> (AutoIndexShmemHeader option \<times> 'x) result option" where
  "push_part captured r =
     (case captured of
        None \<Rightarrow> Some (Inr r)
      | Some e \<Rightarrow> map_option (\<lambda>shmem'. Inr (shmem', snd r)) (ring_buffer_push (fst r) e))"

partial_function (option) call_hook ::
  "'x backend \<Rightarrow> end_hook \<Rightarrow> QueryDesc option \<Rightarrow> AutoIndexShmemHeader option \<Rightarrow> 'x \<Rightarrow>
   (AutoIndexShmemHeader option \<times> 'x) result option" where
  "call_hook b hook qd shmem x =
     (if hook = Extension_Hook then Some (map_sum id (Pair shmem) (be_extension b qd x))
      else
        (case capture_part b qd shmem of
           Inl err \<Rightarrow> Some (Inl err)
         | Inr captured \<Rightarrow>
             Option.bind
               (case be_prev b of
                  Some f \<Rightarrow> call_hook b f qd shmem x
                | None \<Rightarrow> Some (map_sum id (Pair shmem) (be_standard b qd x)))
               (\<lambda>r. case r of Inl err \<Rightarrow> Some (Inl err) | Inr r \<Rightarrow> push_part captured r)))"

definition ExecutorEnd ::
  "'x backend \<Rightarrow> end_hook option \<Rightarrow> QueryDesc option \<Rightarrow> AutoIndexShmemHeader option \<Rightarrow> 'x \<Rightarrow>
   (AutoIndexShmemHeader option \<times> 'x) result option" where
  "ExecutorEnd b hook qd shmem x =
     (case hook of
        Some f \<Rightarrow> call_hook b f qd shmem x
      | None \<Rightarrow> Some (map_sum id (Pair shmem) (be_standard b qd x)))"

subsection \<open>One installation\<close>

lemma call_extension: "call_hook b Extension_Hook qd shmem x = Some (map_sum id (Pair shmem) (be_extension b qd x))"
  by (subst call_hook.simps) simp

text \<open>Installed once, the hook is the function of the capture component.\<close>

lemma call_capture_once:
  assumes "be_prev b \<noteq> Some Capture_Hook"
  shows "call_hook b Capture_Hook qd shmem x =
    autoindex_workload_capture_hook (be_enabled b) (be_now b)
      (map_option (\<lambda>_. be_extension b) (be_prev b)) (be_standard b) qd shmem x"
proof -
  have prev: "be_prev b = None \<or> be_prev b = Some Extension_Hook" using assms by (metis end_hook.exhaust option.exhaust)
  let ?next = "case be_prev b of Some f \<Rightarrow> be_extension b qd x | None \<Rightarrow> be_standard b qd x"
  have "(case be_prev b of Some f \<Rightarrow> call_hook b f qd shmem x
      | None \<Rightarrow> Some (map_sum id (Pair shmem) (be_standard b qd x))) = Some (map_sum id (Pair shmem) ?next)"
    using prev by (auto simp: call_extension)
  moreover have "(case map_option (\<lambda>_. be_extension b) (be_prev b) of Some f \<Rightarrow> f qd x | None \<Rightarrow> be_standard b qd x) = ?next"
    by (cases "be_prev b") auto
  ultimately show ?thesis
    by (subst call_hook.simps, cases ?next)
      (auto simp: autoindex_workload_capture_hook_def capture_part_def push_part_def Let_def split: sum.split option.split)
qed

subsection \<open>More than one installation\<close>

lemma call_capture_diverges:
  assumes "be_prev b = Some Capture_Hook" and "capture_part b qd shmem = Inr captured"
  shows "call_hook b Capture_Hook qd shmem x = None"
proof -
  have "\<not> (b' = b \<and> hook = Capture_Hook \<and> qd' = qd \<and> shmem' = shmem)"
    if "call_hook b' hook qd' shmem' x' = Some r" for b' hook qd' shmem' x' r
    by (rule call_hook.raw_induct [where P = "\<lambda>b' hook qd' shmem' x' r.
          \<not> (b' = b \<and> hook = Capture_Hook \<and> qd' = qd \<and> shmem' = shmem)" and
          xa = "((((b', hook), qd'), shmem'), x')", unfolded prod.case, OF _ that])
      (use assms in \<open>fastforce simp: bind_eq_Some_conv\<close>)
  then show ?thesis by (cases "call_hook b Capture_Hook qd shmem x") blast+
qed

lemma after_reinitialising_vars:
  "after_reinitialising n (prev, cur) = (if n = 0 then cur else Some Capture_Hook, Some Capture_Hook)"
  by (induction n) (auto simp: shmem_init_callback_def autoindex_install_hooks_def)

subsection \<open>Property\<close>

text \<open>
  C17: After the start of the server a query ends by the hook of the capture component, which
  calls the hook that was there before. After a reinitialisation the saved hook is the hook
  itself: it calls itself without end, for every query on which the capture raises no error,
  and with capture switched off too.
\<close>

theorem reinitialising_breaks_executor_end:
  assumes "hook_before \<noteq> Some Capture_Hook" and "after_reinitialising n (None, hook_before) = (prev, hook)"
    and "be_prev b = prev"
  shows "(n = 0 \<longrightarrow> ExecutorEnd b hook qd shmem x =
      autoindex_workload_capture_hook (be_enabled b) (be_now b)
        (map_option (\<lambda>_. be_extension b) hook_before) (be_standard b) qd shmem x) \<and>
    (0 < n \<and> capture_part b qd shmem = Inr captured \<longrightarrow> ExecutorEnd b hook qd shmem x = None) \<and>
    (0 < n \<and> \<not> be_enabled b \<longrightarrow> ExecutorEnd b hook qd shmem x = None)"
proof -
  have vars: "prev = (if n = 0 then hook_before else Some Capture_Hook)" "hook = Some Capture_Hook"
    using assms(2) by (simp_all add: after_reinitialising_vars)
  have off: "\<not> be_enabled b \<Longrightarrow> capture_part b qd shmem = Inr None" by (simp add: capture_part_def)
  show ?thesis
    using vars assms(1,3) call_capture_once [of b qd shmem x] call_capture_diverges [of b qd shmem _ x] off
    by (auto simp: ExecutorEnd_def)
qed

definition sample_backend :: "nat backend" where
  "sample_backend = \<lparr>be_enabled = True, be_now = 9, be_prev = Some Capture_Hook, be_extension = \<lambda>_ x. Inr x,
     be_standard = \<lambda>_ x. Inr (x + 1)\<rparr>"

theorem reinitialising_breaks_executor_end_witness:
  "ExecutorEnd sample_backend (snd (after_reinitialising 1 (None, None))) (Some \<lparr>plannedstmt = Some sample_stmt\<rparr>)
     (Some autoindex_shmem_init) 0 = None"
proof -
  have "after_reinitialising 1 (None, None) = (Some Capture_Hook, Some Capture_Hook)"
    by (simp add: after_reinitialising_vars)
  moreover have "capture_part sample_backend (Some \<lparr>plannedstmt = Some sample_stmt\<rparr>) (Some autoindex_shmem_init) =
      Inr (Some sample_entry)"
    using sample_captured by (simp add: capture_part_def sample_backend_def)
  ultimately show ?thesis
    using reinitialising_breaks_executor_end [of None 1 "Some Capture_Hook" "Some Capture_Hook" sample_backend]
    by (simp add: sample_backend_def)
qed

end
