(* ===== verification/Gucs.thy ===== *)
theory Gucs
  imports Prelude
begin

section \<open>Configuration variables (autoindex.c)\<close>

text \<open>
  The nine configuration variables, their initial values, and the bounds with which
  \<^verbatim>\<open>autoindex_register_gucs\<close> registers them. The configuration machinery accepts a
  new value only within the registered bounds, at registration and on a reload; what it
  reads from the configuration file is a parameter. The intervals are turned into milliseconds in \<open>long\<close>
  arithmetic and then passed as \<open>int\<close>.
\<close>

record gucs =
  autoindex_enabled :: bool
  autoindex_analysis_interval :: int32
  autoindex_advisor_interval :: int32
  autoindex_lifecycle_interval :: int32
  autoindex_min_exec_freq :: int32
  autoindex_min_score :: real
  autoindex_max_indexes_per_table :: int32
  autoindex_drop_after_idle_days :: int32
  autoindex_workload_window_days :: int32

text \<open>The initialisers of the variables.\<close>

definition initial_gucs :: gucs where
  "initial_gucs = \<lparr>
     autoindex_enabled = True,
     autoindex_analysis_interval = 60,
     autoindex_advisor_interval = 300,
     autoindex_lifecycle_interval = 6,
     autoindex_min_exec_freq = 100,
     autoindex_min_score = 1,
     autoindex_max_indexes_per_table = 5,
     autoindex_drop_after_idle_days = 7,
     autoindex_workload_window_days = 3\<rparr>"

definition INT_MAX :: int where
  "INT_MAX = 2 ^ 31 - 1"

text \<open>
  A variable is registered with its boot value and its bounds; at that moment it
  takes the value that the configuration gives it, if that is within the bounds, and
  the boot value otherwise.
\<close>

definition DefineCustomIntVariable :: "int option \<Rightarrow> int \<Rightarrow> int \<Rightarrow> int \<Rightarrow> int32" where
  "DefineCustomIntVariable configured boot minval maxval =
     word_of_int (case configured of
       Some v \<Rightarrow> if minval \<le> v \<and> v \<le> maxval then v else boot
     | None \<Rightarrow> boot)"

definition DefineCustomRealVariable :: "real option \<Rightarrow> real \<Rightarrow> real \<Rightarrow> real \<Rightarrow> real" where
  "DefineCustomRealVariable configured boot minval maxval =
     (case configured of
       Some v \<Rightarrow> if minval \<le> v \<and> v \<le> maxval then v else boot
     | None \<Rightarrow> boot)"

definition DefineCustomBoolVariable :: "bool option \<Rightarrow> bool \<Rightarrow> bool" where
  "DefineCustomBoolVariable configured boot = (case configured of Some b \<Rightarrow> b | None \<Rightarrow> boot)"

record configuration =
  conf_bool :: "string \<Rightarrow> bool option"
  conf_int :: "string \<Rightarrow> int option"
  conf_real :: "string \<Rightarrow> real option"

definition autoindex_register_gucs :: "configuration \<Rightarrow> gucs" where
  "autoindex_register_gucs conf = \<lparr>
     autoindex_enabled = DefineCustomBoolVariable (conf_bool conf ''autoindex.enabled'') True,
     autoindex_analysis_interval =
       DefineCustomIntVariable (conf_int conf ''autoindex.analysis_interval'') 60 1 3600,
     autoindex_advisor_interval =
       DefineCustomIntVariable (conf_int conf ''autoindex.advisor_interval'') 300 10 86400,
     autoindex_lifecycle_interval =
       DefineCustomIntVariable (conf_int conf ''autoindex.lifecycle_interval'') 6 1 168,
     autoindex_min_exec_freq =
       DefineCustomIntVariable (conf_int conf ''autoindex.min_exec_freq'') 100 1 INT_MAX,
     autoindex_min_score =
       DefineCustomRealVariable (conf_real conf ''autoindex.min_score'') 1 0 1000000000000,
     autoindex_max_indexes_per_table =
       DefineCustomIntVariable (conf_int conf ''autoindex.max_indexes_per_table'') 5 1 100,
     autoindex_drop_after_idle_days =
       DefineCustomIntVariable (conf_int conf ''autoindex.drop_after_idle_days'') 7 1 365,
     autoindex_workload_window_days =
       DefineCustomIntVariable (conf_int conf ''autoindex.workload_window_days'') 3 1 30\<rparr>"

text \<open>
  A reload of the configuration file, by the rule of the configuration machinery: a variable
  that the file does not set gets its boot value, one that it sets within the bounds gets
  that value, and one that it sets out of bounds keeps the value it has. A file that cannot
  be read changes nothing. The registration tells whether a value is within the bounds.
\<close>

definition accept :: "'a option \<Rightarrow> 'a \<Rightarrow> 'b \<Rightarrow> 'b \<Rightarrow> 'b" where
  "accept configured accepted new old = (if configured = None \<or> configured = Some accepted then new else old)"

definition ProcessConfigFile :: "configuration option \<Rightarrow> gucs \<Rightarrow> gucs" where
  "ProcessConfigFile file g =
     (case file of
        None \<Rightarrow> g
      | Some conf \<Rightarrow>
          let new = autoindex_register_gucs conf;
              int = (\<lambda>name var. accept (conf_int conf name) (sint (var new)) (var new) (var g))
          in \<lparr>autoindex_enabled = autoindex_enabled new,
              autoindex_analysis_interval = int ''autoindex.analysis_interval'' autoindex_analysis_interval,
              autoindex_advisor_interval = int ''autoindex.advisor_interval'' autoindex_advisor_interval,
              autoindex_lifecycle_interval = int ''autoindex.lifecycle_interval'' autoindex_lifecycle_interval,
              autoindex_min_exec_freq = int ''autoindex.min_exec_freq'' autoindex_min_exec_freq,
              autoindex_min_score =
                accept (conf_real conf ''autoindex.min_score'') (autoindex_min_score new) (autoindex_min_score new)
                  (autoindex_min_score g),
              autoindex_max_indexes_per_table = int ''autoindex.max_indexes_per_table'' autoindex_max_indexes_per_table,
              autoindex_drop_after_idle_days = int ''autoindex.drop_after_idle_days'' autoindex_drop_after_idle_days,
              autoindex_workload_window_days = int ''autoindex.workload_window_days'' autoindex_workload_window_days\<rparr>)"

text \<open>The time spans of the main loop: \<open>long\<close> products of the intervals.\<close>

definition advisor_msec :: "gucs \<Rightarrow> int64" where
  "advisor_msec g = scast (autoindex_advisor_interval g) * 1000"

definition lifecycle_msec :: "gucs \<Rightarrow> int64" where
  "lifecycle_msec g = scast (autoindex_lifecycle_interval g) * 3600 * 1000"

definition wait_msec :: "gucs \<Rightarrow> int64" where
  "wait_msec g = scast (autoindex_analysis_interval g) * 1000"

subsection \<open>Bounds\<close>

definition in_bounds :: "int \<Rightarrow> int \<Rightarrow> int32 \<Rightarrow> bool" where
  "in_bounds lo hi v \<longleftrightarrow> lo \<le> sint v \<and> sint v \<le> hi"

definition wf_gucs :: "gucs \<Rightarrow> bool" where
  "wf_gucs g \<longleftrightarrow>
     in_bounds 1 3600 (autoindex_analysis_interval g) \<and> in_bounds 10 86400 (autoindex_advisor_interval g) \<and>
     in_bounds 1 168 (autoindex_lifecycle_interval g) \<and> in_bounds 1 INT_MAX (autoindex_min_exec_freq g) \<and>
     in_bounds 1 100 (autoindex_max_indexes_per_table g) \<and> in_bounds 1 365 (autoindex_drop_after_idle_days g) \<and>
     in_bounds 1 30 (autoindex_workload_window_days g) \<and>
     0 \<le> autoindex_min_score g \<and> autoindex_min_score g \<le> 1000000000000"

lemma sint_word_of_int_in_bounds:
  "- (2 ^ 31) \<le> x \<Longrightarrow> x < 2 ^ 31 \<Longrightarrow> sint (word_of_int x :: int32) = x"
  by (simp add: signed_of_int signed_take_bit_int_eq_self)

lemma DefineCustomIntVariable_in_bounds:
  assumes "lo \<le> boot" and "boot \<le> hi" and "- (2 ^ 31) \<le> lo" and "hi < 2 ^ 31"
  shows "in_bounds lo hi (DefineCustomIntVariable c boot lo hi)"
  using assms by (auto simp: in_bounds_def DefineCustomIntVariable_def sint_word_of_int_in_bounds split: option.splits)

lemma wf_register: "wf_gucs (autoindex_register_gucs conf)"
  by (auto simp: wf_gucs_def autoindex_register_gucs_def DefineCustomRealVariable_def INT_MAX_def
      intro!: DefineCustomIntVariable_in_bounds split: option.splits)

lemma accept_in_bounds: "in_bounds lo hi new \<Longrightarrow> in_bounds lo hi old \<Longrightarrow> in_bounds lo hi (accept c v new old)"
  by (simp add: accept_def)

lemma wf_reloaded:
  assumes "wf_gucs g"
  shows "wf_gucs (ProcessConfigFile f g)"
proof (cases f)
  case (Some conf)
  with assms wf_register [of conf] show ?thesis
    by (simp add: ProcessConfigFile_def wf_gucs_def Let_def accept_in_bounds) (simp add: accept_def)
qed (use assms in \<open>simp add: ProcessConfigFile_def\<close>)

lemma wf_configured: "wf_gucs (fold ProcessConfigFile files (autoindex_register_gucs conf))"
  using wf_register [of conf] by (induction files arbitrary: conf rule: rev_induct) (simp_all add: wf_reloaded)

lemma enabled_reloaded:
  "autoindex_enabled (ProcessConfigFile file g) =
     (case file of None \<Rightarrow> autoindex_enabled g
      | Some conf \<Rightarrow> (case conf_bool conf ''autoindex.enabled'' of None \<Rightarrow> True | Some b \<Rightarrow> b))"
  by (simp add: ProcessConfigFile_def autoindex_register_gucs_def DefineCustomBoolVariable_def Let_def split: option.split)

lemma sint_scast_mult:
  assumes "in_bounds lo hi v" and "0 \<le> lo" and "0 < k" and "hi * k < 2 ^ 63"
  shows "sint (scast v * word_of_int k :: int64) = sint v * k"
proof -
  have v: "0 \<le> sint v" "sint v \<le> hi" using assms(1,2) by (auto simp: in_bounds_def)
  then have "sint v * k \<le> hi * k" using assms(3) by (simp add: mult_right_mono)
  moreover have "0 \<le> sint v * k" using v assms(3) by simp
  moreover have "scast v * word_of_int k = (word_of_int (sint v * k) :: int64)" by (simp only: scast_eq of_int_mult)
  ultimately show ?thesis using assms(4) by (simp only: signed_of_int) (simp add: signed_take_bit_int_eq_self)
qed

text \<open>No interval overflows, neither the \<open>long\<close> product nor the \<open>int\<close> it is passed as.\<close>

lemma msec_values:
  assumes "wf_gucs g"
  shows "sint (advisor_msec g) = sint (autoindex_advisor_interval g) * 1000"
    and "sint (lifecycle_msec g) = sint (autoindex_lifecycle_interval g) * 3600000"
    and "sint (wait_msec g) = sint (autoindex_analysis_interval g) * 1000"
proof -
  have b: "in_bounds 10 86400 (autoindex_advisor_interval g)" "in_bounds 1 168 (autoindex_lifecycle_interval g)"
    "in_bounds 1 3600 (autoindex_analysis_interval g)"
    using assms by (simp_all add: wf_gucs_def)
  show "sint (advisor_msec g) = sint (autoindex_advisor_interval g) * 1000"
    using sint_scast_mult [OF b(1), of 1000] by (simp add: advisor_msec_def)
  show "sint (lifecycle_msec g) = sint (autoindex_lifecycle_interval g) * 3600000"
    using sint_scast_mult [OF b(2), of 3600000] by (simp add: lifecycle_msec_def mult.assoc)
  show "sint (wait_msec g) = sint (autoindex_analysis_interval g) * 1000"
    using sint_scast_mult [OF b(3), of 1000] by (simp add: wait_msec_def)
qed

subsection \<open>Property\<close>

text \<open>
  C34: Whatever the configuration says, after registration every variable is within its
  registered bounds and an unconfigured one has its initial value; the millisecond
  values that the main loop derives from the intervals are positive and exact, and they
  fit the \<open>int\<close> parameter they are passed as.
\<close>

theorem gucs_bounded:
  fixes conf :: configuration
  defines "g \<equiv> autoindex_register_gucs conf"
  shows "wf_gucs g \<and>
    sint (scast (advisor_msec g) :: int32) = sint (autoindex_advisor_interval g) * 1000 \<and>
    sint (scast (lifecycle_msec g) :: int32) = sint (autoindex_lifecycle_interval g) * 3600000 \<and>
    10000 \<le> sint (advisor_msec g) \<and> 3600000 \<le> sint (lifecycle_msec g) \<and> 1000 \<le> sint (wait_msec g) \<and>
    autoindex_register_gucs \<lparr>conf_bool = \<lambda>_. None, conf_int = \<lambda>_. None, conf_real = \<lambda>_. None\<rparr> = initial_gucs"
proof -
  have wf: "wf_gucs g" by (simp add: g_def wf_register)
  note ms = msec_values [OF wf]
  have b: "in_bounds 10 86400 (autoindex_advisor_interval g)" "in_bounds 1 168 (autoindex_lifecycle_interval g)"
    "in_bounds 1 3600 (autoindex_analysis_interval g)"
    using wf by (simp_all add: wf_gucs_def)
  have cast: "sint (scast w :: int32) = sint w" if "0 \<le> sint w" "sint w < 2 ^ 31" for w :: int64
    using that sint_word_of_int_in_bounds [of "sint w"] by (simp only: scast_eq)
  have "autoindex_register_gucs \<lparr>conf_bool = \<lambda>_. None, conf_int = \<lambda>_. None, conf_real = \<lambda>_. None\<rparr> = initial_gucs"
    by (simp add: initial_gucs_def autoindex_register_gucs_def DefineCustomIntVariable_def
        DefineCustomBoolVariable_def DefineCustomRealVariable_def)
  moreover have "10000 \<le> sint (advisor_msec g)" "sint (advisor_msec g) < 2 ^ 31"
    "3600000 \<le> sint (lifecycle_msec g)" "sint (lifecycle_msec g) < 2 ^ 31" "1000 \<le> sint (wait_msec g)"
    unfolding ms using b by (simp_all add: in_bounds_def)
  ultimately show ?thesis
    using wf ms(1,2) cast [of "advisor_msec g"] cast [of "lifecycle_msec g"] by linarith
qed

end
