(* ===== verification/Bgworker.thy ===== *)
theory Bgworker
  imports Gucs
begin

section \<open>The registry of background workers (bgworker.c)\<close>

text \<open>
  The two data structures that describe the background workers of a server and the
  operations on them: the postmaster's private list of registered workers, and the array
  of slots in shared memory through which backends request workers and ask for their
  state. A pointer to a list cell is its index in the list. The operations of backends
  hold a lock; an operation of the postmaster is taken as one step here although the
  postmaster takes no lock. The theory ends with the invariant that ties list and array
  together and its preservation by every operation.
\<close>

subsection \<open>Data\<close>

datatype BgWorkerStartTime =
    BgWorkerStart_PostmasterStart
  | BgWorkerStart_ConsistentState
  | BgWorkerStart_RecoveryFinished

definition BGWORKER_SHMEM_ACCESS :: int32 where "BGWORKER_SHMEM_ACCESS = 1"
definition BGWORKER_BACKEND_DATABASE_CONNECTION :: int32 where "BGWORKER_BACKEND_DATABASE_CONNECTION = 2"
definition BGWORKER_INTERRUPTIBLE :: int32 where "BGWORKER_INTERRUPTIBLE = 4"
definition BGWORKER_CLASS_PARALLEL :: int32 where "BGWORKER_CLASS_PARALLEL = 16"
definition BGW_NEVER_RESTART :: int32 where "BGW_NEVER_RESTART = -1"
definition BGW_MAXLEN :: nat where "BGW_MAXLEN = 96"
definition MAXPGPATH :: nat where "MAXPGPATH = 1024"
definition InvalidPid :: int32 where "InvalidPid = -1"

record BackgroundWorker =
  bgw_name :: string
  bgw_type :: string
  bgw_flags :: int32
  bgw_start_time :: BgWorkerStartTime
  bgw_restart_time :: int32
  bgw_library_name :: string
  bgw_function_name :: string
  bgw_main_arg :: uint64
  bgw_extra :: string
  bgw_notify_pid :: int32

record RegisteredBgWorker =
  rw_worker :: BackgroundWorker
  rw_pid :: int32
  rw_crashed_at :: TimestampTz
  rw_shmem_slot :: nat
  rw_terminate :: bool

record BackgroundWorkerSlot =
  in_use :: bool
  slot_terminate :: bool
  slot_pid :: int32
  generation :: uint64
  slot_worker :: BackgroundWorker

record BackgroundWorkerArray =
  total_slots :: nat
  parallel_register_count :: uint32
  parallel_terminate_count :: uint32
  slots :: "BackgroundWorkerSlot list"

record BackgroundWorkerHandle =
  handle_slot :: nat
  handle_generation :: uint64

text \<open>The signals that the postmaster sends.\<close>

datatype kill = Kill_TERM int32 | Kill_USR1 int32

text \<open>
  The state: the postmaster's list with the count of static registrations, the array once
  shared memory exists, the size of the array, and the signals sent so far.
\<close>

record registry =
  BackgroundWorkerList :: "RegisteredBgWorker list"
  BackgroundWorkerData :: "BackgroundWorkerArray option"
  numworkers :: nat
  max_worker_processes :: nat
  kills :: "kill list"

definition has_flag :: "int32 \<Rightarrow> BackgroundWorker \<Rightarrow> bool" where
  "has_flag flag worker \<longleftrightarrow> bgw_flags worker AND flag \<noteq> 0"

definition upd_rw :: "nat \<Rightarrow> (RegisteredBgWorker \<Rightarrow> RegisteredBgWorker) \<Rightarrow> registry \<Rightarrow> registry" where
  "upd_rw i f r = r\<lparr>BackgroundWorkerList :=
     (BackgroundWorkerList r)[i := f (BackgroundWorkerList r ! i)]\<rparr>"

definition unlink_rw :: "nat \<Rightarrow> registry \<Rightarrow> registry" where
  "unlink_rw i r = r\<lparr>BackgroundWorkerList := take i (BackgroundWorkerList r) @ drop (Suc i) (BackgroundWorkerList r)\<rparr>"

definition upd_data :: "(BackgroundWorkerArray \<Rightarrow> BackgroundWorkerArray) \<Rightarrow> registry \<Rightarrow> registry" where
  "upd_data f r = r\<lparr>BackgroundWorkerData := map_option f (BackgroundWorkerData r)\<rparr>"

definition upd_slot ::
  "nat \<Rightarrow> (BackgroundWorkerSlot \<Rightarrow> BackgroundWorkerSlot) \<Rightarrow> BackgroundWorkerArray \<Rightarrow> BackgroundWorkerArray" where
  "upd_slot k f d = d\<lparr>slots := (slots d)[k := f (slots d ! k)]\<rparr>"

definition notify :: "int32 \<Rightarrow> registry \<Rightarrow> registry" where
  "notify pid r = (if pid \<noteq> 0 then r\<lparr>kills := kills r @ [Kill_USR1 pid]\<rparr> else r)"

subsection \<open>Initialisation of the array\<close>

text \<open>The array lies in memory of any former content.\<close>

definition number_rw :: "nat \<Rightarrow> RegisteredBgWorker \<Rightarrow> RegisteredBgWorker" where
  "number_rw slotno rw = rw\<lparr>rw_shmem_slot := slotno, rw_worker := (rw_worker rw)\<lparr>bgw_notify_pid := 0\<rparr>\<rparr>"

definition init_slot :: "RegisteredBgWorker list \<Rightarrow> nat \<Rightarrow> BackgroundWorkerSlot \<Rightarrow> BackgroundWorkerSlot" where
  "init_slot rws slotno slot =
     (if slotno < length rws
      then \<lparr>in_use = True, slot_terminate = False, slot_pid = InvalidPid, generation = 0,
            slot_worker = rw_worker (rws ! slotno)\<rparr>
      else slot\<lparr>in_use := False\<rparr>)"

definition BackgroundWorkerShmemInit :: "BackgroundWorkerSlot list \<Rightarrow> registry \<Rightarrow> registry" where
  "BackgroundWorkerShmemInit memory r =
     (let rws = map (\<lambda>(n, rw). number_rw n rw) (enumerate 0 (BackgroundWorkerList r))
      in r\<lparr>BackgroundWorkerList := rws,
           BackgroundWorkerData := Some \<lparr>total_slots = max_worker_processes r,
             parallel_register_count = 0, parallel_terminate_count = 0,
             slots = map (\<lambda>(n, slot). init_slot rws n slot) (enumerate 0 memory)\<rparr>\<rparr>)"

subsection \<open>Operations of the postmaster\<close>

fun find_index :: "('a \<Rightarrow> bool) \<Rightarrow> 'a list \<Rightarrow> nat option" where
  "find_index P [] = None"
| "find_index P (x # xs) = (if P x then Some 0 else map_option Suc (find_index P xs))"

definition FindRegisteredWorkerBySlotNumber :: "nat \<Rightarrow> registry \<Rightarrow> nat option" where
  "FindRegisteredWorkerBySlotNumber slotno r = find_index (\<lambda>rw. rw_shmem_slot rw = slotno) (BackgroundWorkerList r)"

definition ReportBackgroundWorkerPID :: "nat \<Rightarrow> registry \<Rightarrow> registry" where
  "ReportBackgroundWorkerPID i r =
     (let rw = BackgroundWorkerList r ! i
      in notify (bgw_notify_pid (rw_worker rw))
           (upd_data (upd_slot (rw_shmem_slot rw) (\<lambda>slot. slot\<lparr>slot_pid := rw_pid rw\<rparr>)) r))"

definition count_terminated :: "BackgroundWorker \<Rightarrow> BackgroundWorkerArray \<Rightarrow> BackgroundWorkerArray" where
  "count_terminated worker d =
     (if has_flag BGWORKER_CLASS_PARALLEL worker
      then d\<lparr>parallel_terminate_count := parallel_terminate_count d + 1\<rparr> else d)"

definition ForgetBackgroundWorker :: "nat \<Rightarrow> registry \<Rightarrow> registry" where
  "ForgetBackgroundWorker i r =
     (let rw = BackgroundWorkerList r ! i
      in unlink_rw i
           (upd_data (\<lambda>d. upd_slot (rw_shmem_slot rw) (\<lambda>slot. slot\<lparr>in_use := False\<rparr>)
              (count_terminated (rw_worker rw) d)) r))"

definition ReportBackgroundWorkerExit :: "nat \<Rightarrow> registry \<Rightarrow> registry" where
  "ReportBackgroundWorkerExit i r =
     (let rw = BackgroundWorkerList r ! i;
          r = upd_data (upd_slot (rw_shmem_slot rw) (\<lambda>slot. slot\<lparr>slot_pid := rw_pid rw\<rparr>)) r;
          r = (if rw_terminate rw \<or> bgw_restart_time (rw_worker rw) = BGW_NEVER_RESTART
               then ForgetBackgroundWorker i r else r)
      in notify (bgw_notify_pid (rw_worker rw)) r)"

text \<open>Strings are copied up to the size of the field, with the characters that are not ASCII replaced.\<close>

definition ascii_safe_char :: "char \<Rightarrow> char" where
  "ascii_safe_char c =
     (let ch = of_char c :: nat in
      if 32 \<le> ch \<and> ch \<le> 127 then c
      else if ch = 10 \<or> ch = 13 \<or> ch = 9 then c
      else CHR ''?'')"

definition ascii_safe_strlcpy :: "string \<Rightarrow> nat \<Rightarrow> string" where
  "ascii_safe_strlcpy src destsiz = map ascii_safe_char (take (destsiz - 1) src)"

definition copy_worker :: "(int32 \<Rightarrow> bool) \<Rightarrow> BackgroundWorker \<Rightarrow> BackgroundWorker" where
  "copy_worker known worker = \<lparr>
     bgw_name = ascii_safe_strlcpy (bgw_name worker) BGW_MAXLEN,
     bgw_type = ascii_safe_strlcpy (bgw_type worker) BGW_MAXLEN,
     bgw_flags = bgw_flags worker,
     bgw_start_time = bgw_start_time worker,
     bgw_restart_time = bgw_restart_time worker,
     bgw_library_name = ascii_safe_strlcpy (bgw_library_name worker) MAXPGPATH,
     bgw_function_name = ascii_safe_strlcpy (bgw_function_name worker) BGW_MAXLEN,
     bgw_main_arg = bgw_main_arg worker,
     bgw_extra = bgw_extra worker,
     bgw_notify_pid = (if known (bgw_notify_pid worker) then bgw_notify_pid worker else 0)\<rparr>"

text \<open>
  One slot in the loop of \<open>BackgroundWorkerStateChange\<close>. The parameters tell which process
  ids belong to a backend and for which slots the allocation of a list cell succeeds; without
  the cell the loop ends, which is \<^const>\<open>None\<close>.
\<close>

definition request_termination :: "nat \<Rightarrow> registry \<Rightarrow> registry" where
  "request_termination i r =
     (let rw = BackgroundWorkerList r ! i;
          r = upd_rw i (\<lambda>rw. rw\<lparr>rw_terminate := True\<rparr>) r
      in if rw_pid rw \<noteq> 0 then r\<lparr>kills := kills r @ [Kill_TERM (rw_pid rw)]\<rparr>
         else ReportBackgroundWorkerPID i r)"

definition free_slot :: "nat \<Rightarrow> BackgroundWorkerSlot \<Rightarrow> registry \<Rightarrow> registry" where
  "free_slot slotno slot r =
     notify (bgw_notify_pid (slot_worker slot))
       (upd_data (\<lambda>d. upd_slot slotno (\<lambda>slot. slot\<lparr>slot_pid := 0, in_use := False\<rparr>)
          (count_terminated (slot_worker slot) d)) r)"

definition state_change_slot ::
  "bool \<Rightarrow> (int32 \<Rightarrow> bool) \<Rightarrow> (nat \<Rightarrow> bool) \<Rightarrow> nat \<Rightarrow> registry \<Rightarrow> registry option" where
  "state_change_slot allow_new_workers known alloc slotno r =
     (let slot = slots (the (BackgroundWorkerData r)) ! slotno in
      if \<not> in_use slot then Some r
      else
        (case FindRegisteredWorkerBySlotNumber slotno r of
           Some i \<Rightarrow>
             Some (if slot_terminate slot \<and> \<not> rw_terminate (BackgroundWorkerList r ! i)
                   then request_termination i r else r)
         | None \<Rightarrow>
             let r = (if \<not> allow_new_workers
                      then upd_data (upd_slot slotno (\<lambda>slot. slot\<lparr>slot_terminate := True\<rparr>)) r else r)
             in if slot_terminate slot \<or> \<not> allow_new_workers then Some (free_slot slotno slot r)
                else if \<not> alloc slotno then None
                else Some (r\<lparr>BackgroundWorkerList :=
                       \<lparr>rw_worker = copy_worker known (slot_worker slot), rw_pid = 0, rw_crashed_at = 0,
                        rw_shmem_slot = slotno, rw_terminate = False\<rparr> # BackgroundWorkerList r\<rparr>)))"

fun state_change_loop ::
  "bool \<Rightarrow> (int32 \<Rightarrow> bool) \<Rightarrow> (nat \<Rightarrow> bool) \<Rightarrow> nat list \<Rightarrow> registry \<Rightarrow> registry" where
  "state_change_loop allow known alloc [] r = r"
| "state_change_loop allow known alloc (slotno # rest) r =
     (case state_change_slot allow known alloc slotno r of
        None \<Rightarrow> r
      | Some r \<Rightarrow> state_change_loop allow known alloc rest r)"

definition BackgroundWorkerStateChange ::
  "bool \<Rightarrow> (int32 \<Rightarrow> bool) \<Rightarrow> (nat \<Rightarrow> bool) \<Rightarrow> registry \<Rightarrow> registry" where
  "BackgroundWorkerStateChange allow known alloc r =
     (if max_worker_processes r \<noteq> total_slots (the (BackgroundWorkerData r)) then r
      else state_change_loop allow known alloc [0..<max_worker_processes r] r)"

definition BackgroundWorkerStopNotifications :: "int32 \<Rightarrow> registry \<Rightarrow> registry" where
  "BackgroundWorkerStopNotifications pid r = r\<lparr>BackgroundWorkerList :=
     map (\<lambda>rw. if bgw_notify_pid (rw_worker rw) = pid
               then rw\<lparr>rw_worker := (rw_worker rw)\<lparr>bgw_notify_pid := 0\<rparr>\<rparr> else rw) (BackgroundWorkerList r)\<rparr>"

text \<open>
  The loops that may unlink the current cell: the first argument counts the cells that are
  left, the second is the index of the current one.
\<close>

fun forget_unstarted_loop :: "nat \<Rightarrow> nat \<Rightarrow> registry \<Rightarrow> registry" where
  "forget_unstarted_loop 0 i r = r"
| "forget_unstarted_loop (Suc todo) i r =
     (let rw = BackgroundWorkerList r ! i in
      if slot_pid (slots (the (BackgroundWorkerData r)) ! rw_shmem_slot rw) = InvalidPid \<and>
         bgw_notify_pid (rw_worker rw) \<noteq> 0
      then forget_unstarted_loop todo i (notify (bgw_notify_pid (rw_worker rw)) (ForgetBackgroundWorker i r))
      else forget_unstarted_loop todo (Suc i) r)"

definition ForgetUnstartedBackgroundWorkers :: "registry \<Rightarrow> registry" where
  "ForgetUnstartedBackgroundWorkers r = forget_unstarted_loop (length (BackgroundWorkerList r)) 0 r"

fun reset_crash_loop :: "nat \<Rightarrow> nat \<Rightarrow> registry \<Rightarrow> registry" where
  "reset_crash_loop 0 i r = r"
| "reset_crash_loop (Suc todo) i r =
     (if bgw_restart_time (rw_worker (BackgroundWorkerList r ! i)) = BGW_NEVER_RESTART
      then reset_crash_loop todo i (ForgetBackgroundWorker i r)
      else reset_crash_loop todo (Suc i)
             (upd_rw i (\<lambda>rw. rw\<lparr>rw_crashed_at := 0, rw_pid := 0,
                rw_worker := (rw_worker rw)\<lparr>bgw_notify_pid := 0\<rparr>\<rparr>) r))"

definition ResetBackgroundWorkerCrashTimes :: "registry \<Rightarrow> registry" where
  "ResetBackgroundWorkerCrashTimes r = reset_crash_loop (length (BackgroundWorkerList r)) 0 r"

subsection \<open>Registration\<close>

text \<open>
  The check of a registration; a failed check is an error at the level the caller chose.
  The bound on the restart time, in seconds, is the number of milliseconds of a day.
\<close>

definition bgw_error :: "BackgroundWorker \<Rightarrow> string \<Rightarrow> 'a result" where
  "bgw_error worker msg = Inl (PgError (''background worker \"'' @ bgw_name worker @ ''\": '' @ msg))"

definition SanityCheckBackgroundWorker :: "BackgroundWorker \<Rightarrow> BackgroundWorker result" where
  "SanityCheckBackgroundWorker worker =
     (if \<not> has_flag BGWORKER_SHMEM_ACCESS worker then
        bgw_error worker ''background workers without shared memory access are not supported''
      else if has_flag BGWORKER_BACKEND_DATABASE_CONNECTION worker \<and>
              bgw_start_time worker = BgWorkerStart_PostmasterStart then
        bgw_error worker ''cannot request database access if starting at postmaster start''
      else if has_flag BGWORKER_INTERRUPTIBLE worker \<and>
              \<not> has_flag BGWORKER_BACKEND_DATABASE_CONNECTION worker then
        bgw_error worker ''cannot make background workers interruptible without database access''
      else if sint (bgw_restart_time worker) < 0 \<and> bgw_restart_time worker \<noteq> BGW_NEVER_RESTART \<or>
              86400000000 div 1000 < sint (bgw_restart_time worker) then
        bgw_error worker ''invalid restart interval''
      else if bgw_restart_time worker \<noteq> BGW_NEVER_RESTART \<and> has_flag BGWORKER_CLASS_PARALLEL worker then
        bgw_error worker ''parallel workers may not be configured for restart''
      else Inr (if bgw_type worker = [] then worker\<lparr>bgw_type := bgw_name worker\<rparr> else worker))"

text \<open>
  A static registration, in the postmaster or elsewhere. Failed checks are logged, and the
  worker is not registered. The number of its slot is assigned later.
\<close>

definition RegisterBackgroundWorker ::
  "bool \<Rightarrow> bool \<Rightarrow> bool \<Rightarrow> BackgroundWorker \<Rightarrow> registry \<Rightarrow> registry result" where
  "RegisterBackgroundWorker IsUnderPostmaster IsPostmasterEnvironment alloc worker r =
     (if IsUnderPostmaster \<or> \<not> IsPostmasterEnvironment then Inr r
      else if BackgroundWorkerData r \<noteq> None then
        Inl (PgError (''cannot register background worker \"'' @ bgw_name worker @ ''\" after shmem init''))
      else
        (case SanityCheckBackgroundWorker worker of
           Inl _ \<Rightarrow> Inr r
         | Inr worker \<Rightarrow>
             if bgw_notify_pid worker \<noteq> 0 then Inr r
             else
               let r = r\<lparr>numworkers := numworkers r + 1\<rparr> in
               if max_worker_processes r < numworkers r then Inr r
               else if \<not> alloc then Inr r
               else Inr (r\<lparr>BackgroundWorkerList :=
                      \<lparr>rw_worker = worker, rw_pid = 0, rw_crashed_at = 0, rw_shmem_slot = 0,
                       rw_terminate = False\<rparr> # BackgroundWorkerList r\<rparr>)))"

text \<open>
  A registration by a backend: the first unused slot, unless too many parallel workers are
  active; the counters are unsigned and may wrap around.
\<close>

definition too_many_parallel :: "uint32 \<Rightarrow> BackgroundWorkerArray \<Rightarrow> bool" where
  "too_many_parallel max_parallel_workers d \<longleftrightarrow>
     max_parallel_workers \<le> parallel_register_count d - parallel_terminate_count d"

definition claim_bgw_slot :: "BackgroundWorker \<Rightarrow> nat \<Rightarrow> BackgroundWorkerArray \<Rightarrow> BackgroundWorkerArray" where
  "claim_bgw_slot worker k d =
     (let d = (if has_flag BGWORKER_CLASS_PARALLEL worker
               then d\<lparr>parallel_register_count := parallel_register_count d + 1\<rparr> else d)
      in upd_slot k (\<lambda>slot. slot\<lparr>slot_worker := worker, slot_pid := InvalidPid,
           generation := generation slot + 1, slot_terminate := False, in_use := True\<rparr>) d)"

definition RegisterDynamicBackgroundWorker ::
  "bool \<Rightarrow> uint32 \<Rightarrow> BackgroundWorker \<Rightarrow> registry \<Rightarrow> (BackgroundWorkerHandle option \<times> registry) result" where
  "RegisterDynamicBackgroundWorker IsUnderPostmaster max_parallel_workers worker r =
     (if \<not> IsUnderPostmaster then Inr (None, r) else bind_res (SanityCheckBackgroundWorker worker) (\<lambda>worker.
       let d = the (BackgroundWorkerData r) in
       if has_flag BGWORKER_CLASS_PARALLEL worker \<and> too_many_parallel max_parallel_workers d
       then Inr (None, r)
       else
         (case find_index (\<lambda>slot. \<not> in_use slot) (take (total_slots d) (slots d)) of
            None \<Rightarrow> Inr (None, r)
          | Some k \<Rightarrow>
              Inr (Some \<lparr>handle_slot = k, handle_generation = generation (slots d ! k) + 1\<rparr>,
                   upd_data (claim_bgw_slot worker k) r))))"

datatype BgwHandleStatus = BGWH_STARTED int32 | BGWH_NOT_YET_STARTED | BGWH_STOPPED | BGWH_POSTMASTER_DIED

definition GetBackgroundWorkerPid :: "BackgroundWorkerHandle \<Rightarrow> registry \<Rightarrow> BgwHandleStatus" where
  "GetBackgroundWorkerPid handle r =
     (let slot = slots (the (BackgroundWorkerData r)) ! handle_slot handle;
          pid = (if handle_generation handle \<noteq> generation slot \<or> \<not> in_use slot then 0 else slot_pid slot)
      in if pid = 0 then BGWH_STOPPED
         else if pid = InvalidPid then BGWH_NOT_YET_STARTED
         else BGWH_STARTED pid)"

text \<open>
  The two waits, on a list of the registry's states at the moments of the checks, each with
  whether the wait after it ends by the death of the postmaster; with no more moments to come
  the wait goes on.
\<close>

fun WaitForBackgroundWorkerStartup :: "BackgroundWorkerHandle \<Rightarrow> (registry \<times> bool) list \<Rightarrow> BgwHandleStatus option" where
  "WaitForBackgroundWorkerStartup handle [] = None"
| "WaitForBackgroundWorkerStartup handle ((r, died) # later) =
     (let status = GetBackgroundWorkerPid handle r in
      if status \<noteq> BGWH_NOT_YET_STARTED then Some status
      else if died then Some BGWH_POSTMASTER_DIED
      else WaitForBackgroundWorkerStartup handle later)"

fun WaitForBackgroundWorkerShutdown :: "BackgroundWorkerHandle \<Rightarrow> (registry \<times> bool) list \<Rightarrow> BgwHandleStatus option" where
  "WaitForBackgroundWorkerShutdown handle [] = None"
| "WaitForBackgroundWorkerShutdown handle ((r, died) # later) =
     (let status = GetBackgroundWorkerPid handle r in
      if status = BGWH_STOPPED then Some status
      else if died then Some BGWH_POSTMASTER_DIED
      else WaitForBackgroundWorkerShutdown handle later)"

definition GetBackgroundWorkerTypeByPid :: "int32 \<Rightarrow> registry \<Rightarrow> string option" where
  "GetBackgroundWorkerTypeByPid pid r =
     (let d = the (BackgroundWorkerData r) in
      map_option (\<lambda>slot. bgw_type (slot_worker slot))
        (List.find (\<lambda>slot. 0 < sint (slot_pid slot) \<and> slot_pid slot = pid) (take (total_slots d) (slots d))))"

definition TerminateBackgroundWorker :: "BackgroundWorkerHandle \<Rightarrow> registry \<Rightarrow> registry" where
  "TerminateBackgroundWorker handle r =
     upd_data (upd_slot (handle_slot handle) (\<lambda>slot.
       if handle_generation handle = generation slot then slot\<lparr>slot_terminate := True\<rparr> else slot)) r"

text \<open>Termination of the interruptible workers of a database; which process is in which database is a parameter.\<close>

definition TerminateBackgroundWorkersForDatabase :: "(int32 \<Rightarrow> Oid option) \<Rightarrow> Oid \<Rightarrow> registry \<Rightarrow> registry" where
  "TerminateBackgroundWorkersForDatabase database_of databaseId r =
     fold (\<lambda>slotno. upd_data (upd_slot slotno (\<lambda>slot.
        if in_use slot \<and> has_flag BGWORKER_INTERRUPTIBLE (slot_worker slot) \<and>
           database_of (slot_pid slot) = Some databaseId
        then slot\<lparr>slot_terminate := True\<rparr> else slot)))
       [0..<total_slots (the (BackgroundWorkerData r))] r"

subsection \<open>Entry points\<close>

text \<open>The entry points in the server itself; others are loaded from libraries.\<close>

definition InternalBGWorkers :: "string list" where
  "InternalBGWorkers = [''ApplyLauncherMain'', ''ApplyWorkerMain'', ''ParallelApplyWorkerMain'',
     ''ParallelWorkerMain'', ''RepackWorkerMain'', ''SequenceSyncWorkerMain'', ''TableSyncWorkerMain'',
     ''DataChecksumsWorkerLauncherMain'', ''DataChecksumsWorkerMain'', ''AutoIndexMain'']"

datatype entry_point = Internal string | External string string

definition LookupBackgroundWorkerFunction :: "string \<Rightarrow> string \<Rightarrow> entry_point result" where
  "LookupBackgroundWorkerFunction libraryname funcname =
     (if libraryname = ''postgres'' then
        case List.find (\<lambda>fn. fn = funcname) InternalBGWorkers of
          Some fn \<Rightarrow> Inr (Internal fn)
        | None \<Rightarrow> Inl (PgError (''internal function \"'' @ funcname @ ''\" not found''))
      else Inr (External libraryname funcname))"

subsection \<open>The invariant\<close>

definition is_parallel :: "BackgroundWorkerSlot \<Rightarrow> bool" where
  "is_parallel slot \<longleftrightarrow> in_use slot \<and> has_flag BGWORKER_CLASS_PARALLEL (slot_worker slot)"

definition parallel_slots :: "BackgroundWorkerArray \<Rightarrow> nat" where
  "parallel_slots d = length (filter is_parallel (slots d))"

text \<open>
  The array by itself: it has the configured size, the difference of the two counters is
  the number of parallel workers, and none of these is to be restarted.
\<close>

definition wf_array :: "nat \<Rightarrow> nat \<Rightarrow> BackgroundWorkerArray \<Rightarrow> bool" where
  "wf_array limit n d \<longleftrightarrow> length (slots d) = n \<and> total_slots d = n \<and>
     parallel_register_count d - parallel_terminate_count d = of_nat (parallel_slots d) \<and> parallel_slots d \<le> limit \<and>
     (\<forall>slot \<in> set (slots d). is_parallel slot \<longrightarrow> bgw_restart_time (slot_worker slot) = BGW_NEVER_RESTART)"

text \<open>A cell of the list and its slot: the slot is in use and has the pid of the cell once that has run.\<close>

definition rw_matches :: "BackgroundWorkerArray \<Rightarrow> RegisteredBgWorker \<Rightarrow> bool" where
  "rw_matches d rw \<longleftrightarrow> rw_shmem_slot rw < length (slots d) \<and>
     (let slot = slots d ! rw_shmem_slot rw in
      in_use slot \<and> bgw_flags (slot_worker slot) = bgw_flags (rw_worker rw) \<and>
      bgw_restart_time (slot_worker slot) = bgw_restart_time (rw_worker rw) \<and>
      (if rw_pid rw = 0 then slot_pid slot = 0 \<or> slot_pid slot = InvalidPid else slot_pid slot = rw_pid rw))"

definition unregistered_ok :: "BackgroundWorkerArray \<Rightarrow> RegisteredBgWorker list \<Rightarrow> bool" where
  "unregistered_ok d rws \<longleftrightarrow>
     (\<forall>k < length (slots d). in_use (slots d ! k) \<and> k \<notin> rw_shmem_slot ` set rws \<longrightarrow> slot_pid (slots d ! k) = InvalidPid)"

definition wf_list :: "BackgroundWorkerArray \<Rightarrow> RegisteredBgWorker list \<Rightarrow> bool" where
  "wf_list d rws \<longleftrightarrow> distinct (map rw_shmem_slot rws) \<and> (\<forall>rw \<in> set rws. rw_matches d rw) \<and> unregistered_ok d rws"

definition wf_registry :: "nat \<Rightarrow> registry \<Rightarrow> bool" where
  "wf_registry limit r \<longleftrightarrow>
     (\<exists>d. BackgroundWorkerData r = Some d \<and> wf_array limit (max_worker_processes r) d \<and> wf_list d (BackgroundWorkerList r))"

lemma length_filter_update:
  "k < length xs \<Longrightarrow>
   length (filter P (xs[k := y])) + (if P (xs ! k) then 1 else 0) = length (filter P xs) + (if P y then 1 else 0)"
proof (induction xs arbitrary: k)
  case (Cons x xs)
  then show ?case by (cases k) auto
qed simp

lemma nth_update_if: "xs[k := y] ! l = (if k = l \<and> k < length xs then y else xs ! l)"
  by (cases "k < length xs") (auto simp: nth_list_update list_update_beyond)

lemma slots_upd_slot [simp]: "slots (upd_slot k f d) = (slots d)[k := f (slots d ! k)]"
  "total_slots (upd_slot k f d) = total_slots d"
  "parallel_register_count (upd_slot k f d) = parallel_register_count d"
  "parallel_terminate_count (upd_slot k f d) = parallel_terminate_count d"
  by (simp_all add: upd_slot_def)

lemma count_terminated_simps [simp]: "slots (count_terminated w d) = slots d"
  "total_slots (count_terminated w d) = total_slots d"
  "parallel_register_count (count_terminated w d) = parallel_register_count d"
  "parallel_terminate_count (count_terminated w d) =
     parallel_terminate_count d + (if has_flag BGWORKER_CLASS_PARALLEL w then 1 else 0)"
  by (simp_all add: count_terminated_def)

text \<open>A change of the slot that keeps its use and its worker.\<close>

lemma wf_array_keep:
  assumes "wf_array limit n d" and "k < n" and "in_use (f (slots d ! k)) = in_use (slots d ! k)"
    and "slot_worker (f (slots d ! k)) = slot_worker (slots d ! k)"
  shows "wf_array limit n (upd_slot k f d)"
proof -
  have k: "k < length (slots d)" using assms(1,2) by (simp add: wf_array_def)
  have par: "is_parallel (f (slots d ! k)) = is_parallel (slots d ! k)" using assms(3,4) by (simp add: is_parallel_def)
  from length_filter_update [OF k, of is_parallel "f (slots d ! k)"] par have
    "parallel_slots (upd_slot k f d) = parallel_slots d" by (simp add: parallel_slots_def)
  moreover have "bgw_restart_time (slot_worker slot) = BGW_NEVER_RESTART"
    if "slot \<in> set ((slots d)[k := f (slots d ! k)])" "is_parallel slot" for slot
    using that par k assms(1,4) set_update_subset_insert [of "slots d" k] nth_mem [OF k]
    unfolding wf_array_def by (metis insertE subsetD)
  ultimately show ?thesis using assms(1) by (simp add: wf_array_def)
qed

text \<open>A slot that is given up, with the count of the terminated workers.\<close>

lemma wf_array_unuse:
  assumes "wf_array limit n d" and "k < n" and "in_use (slots d ! k)" and "\<not> in_use (f (slots d ! k))"
    and "bgw_flags worker = bgw_flags (slot_worker (slots d ! k))"
  shows "wf_array limit n (upd_slot k f (count_terminated worker d))"
proof -
  have k: "k < length (slots d)" using assms(1,2) by (simp add: wf_array_def)
  let ?d = "upd_slot k f (count_terminated worker d)"
  have par: "is_parallel (slots d ! k) = has_flag BGWORKER_CLASS_PARALLEL worker" "\<not> is_parallel (f (slots d ! k))"
    using assms(3-5) by (simp_all add: is_parallel_def has_flag_def)
  have count: "parallel_slots d = parallel_slots ?d + (if has_flag BGWORKER_CLASS_PARALLEL worker then 1 else 0)"
    using length_filter_update [OF k, of is_parallel "f (slots d ! k)"] par by (simp add: parallel_slots_def)
  have "parallel_register_count d - parallel_terminate_count d = of_nat (parallel_slots d)" "parallel_slots ?d \<le> limit"
    using assms(1) count by (simp_all add: wf_array_def)
  with count have "parallel_register_count ?d - parallel_terminate_count ?d = of_nat (parallel_slots ?d)" "parallel_slots ?d \<le> limit"
    by (auto simp: algebra_simps split: if_splits)
  moreover have "bgw_restart_time (slot_worker slot) = BGW_NEVER_RESTART"
    if "slot \<in> set ((slots d)[k := f (slots d ! k)])" "is_parallel slot" for slot
    using that par(2) assms(1) set_update_subset_insert [of "slots d" k] unfolding wf_array_def by (metis insertE subsetD)
  ultimately show ?thesis using assms(1) by (simp add: wf_array_def)
qed

lemma rw_matches_other:
  assumes "rw_matches d rw" and "rw_shmem_slot rw \<noteq> k"
  shows "rw_matches (upd_slot k f d) rw"
  using assms by (simp add: rw_matches_def Let_def)

lemma unlink_list:
  assumes "distinct (map rw_shmem_slot rws)" and "i < length rws"
  defines "rest \<equiv> take i rws @ drop (Suc i) rws"
  shows "distinct (map rw_shmem_slot rest)" and "set rest \<subseteq> set rws"
    and "rw_shmem_slot ` set rest = rw_shmem_slot ` set rws - {rw_shmem_slot (rws ! i)}"
proof -
  have rws: "rws = take i rws @ rws ! i # drop (Suc i) rws" using assms(2) by (rule id_take_nth_drop)
  have d: "distinct (map rw_shmem_slot (take i rws @ rws ! i # drop (Suc i) rws))" using assms(1) rws by simp
  then show "distinct (map rw_shmem_slot rest)" unfolding rest_def by auto
  show "set rest \<subseteq> set rws" unfolding rest_def by (auto dest: in_set_takeD in_set_dropD)
  have "rw_shmem_slot ` set rws = rw_shmem_slot ` set (take i rws @ rws ! i # drop (Suc i) rws)" using rws by simp
  with d show "rw_shmem_slot ` set rest = rw_shmem_slot ` set rws - {rw_shmem_slot (rws ! i)}"
    unfolding rest_def by (simp add: image_Un)
qed

lemma wf_list_forget:
  assumes "wf_list d rws" and "i < length rws" and "k = rw_shmem_slot (rws ! i)" and "\<And>slot. \<not> in_use (f slot)"
  shows "wf_list (upd_slot k f d) (take i rws @ drop (Suc i) rws)"
proof -
  let ?rest = "take i rws @ drop (Suc i) rws"
  have dist: "distinct (map rw_shmem_slot rws)" using assms(1) by (simp add: wf_list_def)
  note un = unlink_list [OF dist assms(2)]
  have "rw_matches (upd_slot k f d) rw" if "rw \<in> set ?rest" for rw
  proof (rule rw_matches_other)
    show "rw_matches d rw" using that un(2) assms(1) by (auto simp: wf_list_def)
    show "rw_shmem_slot rw \<noteq> k" using that un(3) assms(3) by (metis DiffE imageI singletonI)
  qed
  moreover have "slot_pid (slots (upd_slot k f d) ! l) = InvalidPid"
    if "l < length (slots d)" "in_use (slots (upd_slot k f d) ! l)" "l \<notin> rw_shmem_slot ` set ?rest" for l
  proof -
    have l: "l \<noteq> k" using that(1,2) assms(4) by auto
    with that un(3) assms(3) have "l \<notin> rw_shmem_slot ` set rws" by simp
    with that l assms(1) show ?thesis by (simp add: wf_list_def unregistered_ok_def)
  qed
  then have "unregistered_ok (upd_slot k f d) ?rest" by (simp add: unregistered_ok_def)
  ultimately show ?thesis using un(1) by (simp add: wf_list_def)
qed

lemma upd_data_simps [simp]: "BackgroundWorkerList (upd_data f r) = BackgroundWorkerList r"
  "BackgroundWorkerData (upd_data f r) = map_option f (BackgroundWorkerData r)"
  "max_worker_processes (upd_data f r) = max_worker_processes r"
  by (simp_all add: upd_data_def)

lemma notify_simps [simp]: "BackgroundWorkerList (notify pid r) = BackgroundWorkerList r"
  "BackgroundWorkerData (notify pid r) = BackgroundWorkerData r"
  "max_worker_processes (notify pid r) = max_worker_processes r" "wf_registry limit (notify pid r) = wf_registry limit r"
  by (simp_all add: notify_def wf_registry_def)

lemma wf_kills [simp]: "wf_registry limit (r\<lparr>kills := ks\<rparr>) = wf_registry limit r"
  by (simp add: wf_registry_def)

lemma wf_registryE:
  assumes "wf_registry limit r"
  obtains d where "BackgroundWorkerData r = Some d" and "wf_array limit (max_worker_processes r) d"
    and "wf_list d (BackgroundWorkerList r)" and "length (slots d) = max_worker_processes r"
  using assms by (auto simp: wf_registry_def wf_array_def)

lemma wf_list_nth:
  assumes "wf_list d rws" and "i < length rws"
  shows "rw_shmem_slot (rws ! i) < length (slots d) \<and> in_use (slots d ! rw_shmem_slot (rws ! i)) \<and>
    bgw_flags (slot_worker (slots d ! rw_shmem_slot (rws ! i))) = bgw_flags (rw_worker (rws ! i)) \<and>
    bgw_restart_time (slot_worker (slots d ! rw_shmem_slot (rws ! i))) = bgw_restart_time (rw_worker (rws ! i))"
proof -
  have "rw_matches d (rws ! i)" using assms by (simp add: wf_list_def)
  then show ?thesis by (simp add: rw_matches_def Let_def)
qed

lemma wf_forget:
  assumes "wf_registry limit r" and "i < length (BackgroundWorkerList r)"
  shows "wf_registry limit (ForgetBackgroundWorker i r)"
proof -
  let ?rw = "BackgroundWorkerList r ! i"
  let ?f = "\<lambda>slot. slot\<lparr>in_use := False\<rparr>"
  obtain d where d: "BackgroundWorkerData r = Some d" "wf_array limit (max_worker_processes r) d"
    "wf_list d (BackgroundWorkerList r)" "length (slots d) = max_worker_processes r"
    using wf_registryE [OF assms(1)] by blast
  note rw = wf_list_nth [OF d(3) assms(2)]
  let ?d = "upd_slot (rw_shmem_slot ?rw) ?f (count_terminated (rw_worker ?rw) d)"
  have "wf_array limit (max_worker_processes r) ?d"
    using rw d(4) by (intro wf_array_unuse [OF d(2)]) auto
  moreover have "wf_list (upd_slot (rw_shmem_slot ?rw) ?f d) (take i (BackgroundWorkerList r) @ drop (Suc i) (BackgroundWorkerList r))"
    by (rule wf_list_forget [OF d(3) assms(2) refl]) simp
  then have "wf_list ?d (take i (BackgroundWorkerList r) @ drop (Suc i) (BackgroundWorkerList r))"
    by (simp add: wf_list_def rw_matches_def unregistered_ok_def)
  ultimately show ?thesis using d(1) by (simp add: wf_registry_def ForgetBackgroundWorker_def unlink_rw_def Let_def)
qed

lemma length_forget [simp]:
  "i < length (BackgroundWorkerList r) \<Longrightarrow>
   length (BackgroundWorkerList (ForgetBackgroundWorker i r)) = length (BackgroundWorkerList r) - 1"
  by (simp add: ForgetBackgroundWorker_def unlink_rw_def Let_def)

lemma max_forget [simp]: "max_worker_processes (ForgetBackgroundWorker i r) = max_worker_processes r"
  by (simp add: ForgetBackgroundWorker_def unlink_rw_def Let_def)

text \<open>A change of a cell together with its slot.\<close>

definition change_rw ::
  "nat \<Rightarrow> (RegisteredBgWorker \<Rightarrow> RegisteredBgWorker) \<Rightarrow> (BackgroundWorkerSlot \<Rightarrow> BackgroundWorkerSlot) \<Rightarrow>
   registry \<Rightarrow> registry" where
  "change_rw i f g r = upd_data (upd_slot (rw_shmem_slot (BackgroundWorkerList r ! i)) g) (upd_rw i f r)"

definition keeps_identity :: "RegisteredBgWorker \<Rightarrow> RegisteredBgWorker \<Rightarrow> bool" where
  "keeps_identity rw rw' \<longleftrightarrow> rw_shmem_slot rw' = rw_shmem_slot rw \<and>
     bgw_flags (rw_worker rw') = bgw_flags (rw_worker rw) \<and>
     bgw_restart_time (rw_worker rw') = bgw_restart_time (rw_worker rw)"

lemma upd_rw_simps [simp]:
  "BackgroundWorkerList (upd_rw i f r) = (BackgroundWorkerList r)[i := f (BackgroundWorkerList r ! i)]"
  "BackgroundWorkerData (upd_rw i f r) = BackgroundWorkerData r"
  "max_worker_processes (upd_rw i f r) = max_worker_processes r"
  by (simp_all add: upd_rw_def)

lemma map_slot_update:
  assumes "i < length rws" and "rw_shmem_slot rw' = rw_shmem_slot (rws ! i)"
  shows "map rw_shmem_slot (rws[i := rw']) = map rw_shmem_slot rws"
  using assms by (metis list_update_id map_update)

lemma wf_list_change:
  assumes "wf_list d rws" and "i < length rws" and "keeps_identity (rws ! i) rw'"
    and "\<And>slot. in_use (g slot) = in_use slot" and "\<And>slot. slot_worker (g slot) = slot_worker slot"
    and "if rw_pid rw' = 0 then slot_pid (g (slots d ! rw_shmem_slot (rws ! i))) \<in> {0, InvalidPid}
         else slot_pid (g (slots d ! rw_shmem_slot (rws ! i))) = rw_pid rw'"
  shows "wf_list (upd_slot (rw_shmem_slot (rws ! i)) g d) (rws[i := rw'])"
proof -
  let ?k = "rw_shmem_slot (rws ! i)"
  let ?d = "upd_slot ?k g d"
  note own = wf_list_nth [OF assms(1,2)]
  have ident: "rw_shmem_slot rw' = ?k" using assms(3) by (simp add: keeps_identity_def)
  have slots: "map rw_shmem_slot (rws[i := rw']) = map rw_shmem_slot rws"
    by (rule map_slot_update [OF assms(2) ident])
  then have img: "rw_shmem_slot ` set (rws[i := rw']) = rw_shmem_slot ` set rws" by (metis list.set_map)
  have "rw_matches ?d (rws[i := rw'] ! j)" if j: "j < length rws" for j
  proof (cases "j = i")
    case True
    with own assms(2-6) ident show ?thesis by (auto simp: rw_matches_def keeps_identity_def Let_def split: if_splits)
  next
    case False
    then have "rw_shmem_slot (rws ! j) \<noteq> ?k"
      using assms(1,2) j by (auto simp: wf_list_def distinct_conv_nth)
    moreover have "rw_matches d (rws ! j)" using assms(1) j by (simp add: wf_list_def)
    ultimately show ?thesis using False rw_matches_other by simp
  qed
  then have "\<forall>rw \<in> set (rws[i := rw']). rw_matches ?d rw" by (simp add: all_set_conv_all_nth)
  moreover have "unregistered_ok ?d (rws[i := rw'])"
    using assms(1,2,4) own unfolding wf_list_def unregistered_ok_def img
    by (auto simp: nth_list_update split: if_splits)
  ultimately show ?thesis using assms(1) slots by (simp add: wf_list_def)
qed

lemma wf_change:
  assumes "wf_registry limit r" and "i < length (BackgroundWorkerList r)"
    and "keeps_identity (BackgroundWorkerList r ! i) (f (BackgroundWorkerList r ! i))"
    and "\<And>slot. in_use (g slot) = in_use slot" and "\<And>slot. slot_worker (g slot) = slot_worker slot"
    and "\<And>slot. if rw_pid (f (BackgroundWorkerList r ! i)) = 0
        then slot_pid (g slot) \<in> {0, InvalidPid} \<or>
          g slot = slot \<and> rw_pid (BackgroundWorkerList r ! i) = 0
        else slot_pid (g slot) = rw_pid (f (BackgroundWorkerList r ! i)) \<or>
          g slot = slot \<and> rw_pid (BackgroundWorkerList r ! i) = rw_pid (f (BackgroundWorkerList r ! i))"
  shows "wf_registry limit (change_rw i f g r)"
proof -
  let ?L = "BackgroundWorkerList r"
  obtain d where d: "BackgroundWorkerData r = Some d" "wf_array limit (max_worker_processes r) d"
    "wf_list d ?L" "length (slots d) = max_worker_processes r"
    using wf_registryE [OF assms(1)] by blast
  let ?slot = "slots d ! rw_shmem_slot (?L ! i)"
  have "rw_matches d (?L ! i)" using d(3) assms(2) by (simp add: wf_list_def)
  then have m: "if rw_pid (?L ! i) = 0 then slot_pid ?slot = 0 \<or> slot_pid ?slot = InvalidPid
      else slot_pid ?slot = rw_pid (?L ! i)"
    by (simp add: rw_matches_def Let_def)
  have "wf_list (upd_slot (rw_shmem_slot (?L ! i)) g d) (?L[i := f (?L ! i)])"
    using assms(6) [of ?slot] m by (intro wf_list_change [OF d(3) assms(2-5)]) (auto split: if_splits)
  moreover have "wf_array limit (max_worker_processes r) (upd_slot (rw_shmem_slot (?L ! i)) g d)"
    using wf_list_nth [OF d(3) assms(2)] d(4) assms(4,5) by (intro wf_array_keep [OF d(2)]) auto
  ultimately show ?thesis using d(1) by (simp add: wf_registry_def change_rw_def)
qed

lemma list_change_rw [simp]:
  "BackgroundWorkerList (change_rw i f g r) = (BackgroundWorkerList r)[i := f (BackgroundWorkerList r ! i)]"
  "max_worker_processes (change_rw i f g r) = max_worker_processes r"
  by (simp_all add: change_rw_def)

lemma report_pid_change:
  assumes "i < length (BackgroundWorkerList r)" and "keeps_identity (BackgroundWorkerList r ! i) (f (BackgroundWorkerList r ! i))"
  shows "ReportBackgroundWorkerPID i (upd_rw i f r) =
    notify (bgw_notify_pid (rw_worker (f (BackgroundWorkerList r ! i))))
      (change_rw i f (\<lambda>slot. slot\<lparr>slot_pid := rw_pid (f (BackgroundWorkerList r ! i))\<rparr>) r)"
  using assms by (simp add: ReportBackgroundWorkerPID_def change_rw_def keeps_identity_def Let_def)

lemma upd_slot_id: "upd_slot k (\<lambda>slot. slot) = id"
  by (rule ext) (simp add: upd_slot_def)

lemma change_rw_alone: "change_rw i f (\<lambda>slot. slot) r = upd_rw i f r"
  by (simp add: change_rw_def upd_data_def upd_rw_def upd_slot_id option.map_id)

lemma wf_upd_rw:
  assumes "wf_registry limit r" and "i < length (BackgroundWorkerList r)"
    and "keeps_identity (BackgroundWorkerList r ! i) (f (BackgroundWorkerList r ! i))"
    and "rw_pid (f (BackgroundWorkerList r ! i)) = rw_pid (BackgroundWorkerList r ! i)"
  shows "wf_registry limit (upd_rw i f r)"
  unfolding change_rw_alone [symmetric] using assms by (intro wf_change) auto

subsection \<open>Every operation keeps the invariant\<close>

lemma wf_request_termination:
  assumes "wf_registry limit r" and "i < length (BackgroundWorkerList r)"
  shows "wf_registry limit (request_termination i r)"
proof (cases "rw_pid (BackgroundWorkerList r ! i) = 0")
  case True
  have "wf_registry limit (ReportBackgroundWorkerPID i (upd_rw i (\<lambda>rw. rw\<lparr>rw_terminate := True\<rparr>) r))"
    unfolding report_pid_change [of i r "\<lambda>rw. rw\<lparr>rw_terminate := True\<rparr>", OF assms(2), simplified keeps_identity_def, simplified]
      notify_simps
    using assms True by (intro wf_change) (auto simp: keeps_identity_def)
  with True show ?thesis by (simp add: request_termination_def)
next
  case False
  with assms show ?thesis by (auto simp: request_termination_def keeps_identity_def Let_def intro!: wf_upd_rw)
qed

lemma length_request_termination [simp]:
  "length (BackgroundWorkerList (request_termination i r)) = length (BackgroundWorkerList r)"
  "max_worker_processes (request_termination i r) = max_worker_processes r"
  by (simp_all add: request_termination_def ReportBackgroundWorkerPID_def Let_def)

lemma find_index_Some:
  "find_index P xs = Some i \<Longrightarrow> i < length xs \<and> P (xs ! i)"
  by (induction xs arbitrary: i) (auto split: if_splits)

lemma find_index_None: "find_index P xs = None \<longleftrightarrow> (\<forall>x \<in> set xs. \<not> P x)"
  by (induction xs) auto

lemma wf_free_slot:
  assumes "wf_registry limit r" and "BackgroundWorkerData r = Some d" and "k < max_worker_processes r"
    and "in_use (slots d ! k)" and "k \<notin> rw_shmem_slot ` set (BackgroundWorkerList r)"
    and "bgw_flags (slot_worker slot) = bgw_flags (slot_worker (slots d ! k))"
  shows "wf_registry limit (free_slot k slot r)"
proof -
  let ?f = "\<lambda>slot. slot\<lparr>slot_pid := 0, in_use := False\<rparr>"
  have d: "wf_array limit (max_worker_processes r) d" "wf_list d (BackgroundWorkerList r)"
    using assms(1,2) by (auto simp: wf_registry_def)
  have "wf_array limit (max_worker_processes r) (upd_slot k ?f (count_terminated (slot_worker slot) d))"
    using assms(3,4,6) by (intro wf_array_unuse [OF d(1)]) auto
  moreover have "wf_list (upd_slot k ?f d) (BackgroundWorkerList r)"
    using d(2) assms(5) unfolding wf_list_def unregistered_ok_def
    by (auto simp: nth_update_if intro!: rw_matches_other)
  then have "wf_list (upd_slot k ?f (count_terminated (slot_worker slot) d)) (BackgroundWorkerList r)"
    by (simp add: wf_list_def rw_matches_def unregistered_ok_def)
  ultimately show ?thesis using assms(2) by (simp add: free_slot_def wf_registry_def)
qed

lemma wf_flag_slot:
  assumes "wf_registry limit r" and "k < max_worker_processes r"
    and "\<And>slot. in_use (g slot) = in_use slot" and "\<And>slot. slot_worker (g slot) = slot_worker slot"
    and "\<And>slot. slot_pid (g slot) = slot_pid slot"
  shows "wf_registry limit (upd_data (upd_slot k g) r)"
proof -
  obtain d where d: "BackgroundWorkerData r = Some d" "wf_array limit (max_worker_processes r) d"
    "wf_list d (BackgroundWorkerList r)" "length (slots d) = max_worker_processes r"
    using wf_registryE [OF assms(1)] by blast
  have "wf_array limit (max_worker_processes r) (upd_slot k g d)" using d(2) assms(2-4) by (intro wf_array_keep) auto
  moreover have "wf_list (upd_slot k g d) (BackgroundWorkerList r)"
    using d(3) assms(3-5) unfolding wf_list_def unregistered_ok_def rw_matches_def
    by (auto simp: nth_update_if Let_def)
  ultimately show ?thesis using d(1) by (simp add: wf_registry_def)
qed

lemma wf_push_rw:
  assumes "wf_registry limit r" and "BackgroundWorkerData r = Some d" and "k < max_worker_processes r"
    and "in_use (slots d ! k)" and "k \<notin> rw_shmem_slot ` set (BackgroundWorkerList r)"
  shows "wf_registry limit (r\<lparr>BackgroundWorkerList :=
    \<lparr>rw_worker = copy_worker known (slot_worker (slots d ! k)), rw_pid = 0, rw_crashed_at = 0, rw_shmem_slot = k,
     rw_terminate = False\<rparr> # BackgroundWorkerList r\<rparr>)"
proof -
  have d: "wf_array limit (max_worker_processes r) d" "wf_list d (BackgroundWorkerList r)"
    using assms(1,2) by (auto simp: wf_registry_def)
  then have len: "length (slots d) = max_worker_processes r" by (simp add: wf_array_def)
  have "slot_pid (slots d ! k) = InvalidPid"
    using d(2) assms(3-5) len by (simp add: wf_list_def unregistered_ok_def)
  then show ?thesis using d assms(2-5) len
    by (auto simp: wf_registry_def wf_list_def unregistered_ok_def rw_matches_def copy_worker_def Let_def)
qed

lemma wf_state_change_slot:
  assumes "wf_registry limit r" and "k < max_worker_processes r" and "state_change_slot allow known alloc k r = Some r'"
  shows "wf_registry limit r' \<and> max_worker_processes r' = max_worker_processes r"
proof -
  obtain d where d: "BackgroundWorkerData r = Some d" using wf_registryE [OF assms(1)] by blast
  let ?slot = "slots d ! k"
  consider (unused) "\<not> in_use ?slot"
    | (known) i where "in_use ?slot" "FindRegisteredWorkerBySlotNumber k r = Some i"
    | (new) "in_use ?slot" "FindRegisteredWorkerBySlotNumber k r = None"
    by (cases "FindRegisteredWorkerBySlotNumber k r") auto
  then show ?thesis
  proof cases
    case unused
    with assms d show ?thesis by (simp add: state_change_slot_def)
  next
    case known
    then have "i < length (BackgroundWorkerList r)"
      by (auto simp: FindRegisteredWorkerBySlotNumber_def dest!: find_index_Some)
    with known assms d show ?thesis
      by (auto simp: state_change_slot_def Let_def wf_request_termination split: if_splits)
  next
    case new
    then have k: "k \<notin> rw_shmem_slot ` set (BackgroundWorkerList r)"
      by (auto simp: FindRegisteredWorkerBySlotNumber_def find_index_None)
    let ?mark = "upd_slot k (\<lambda>slot. slot\<lparr>slot_terminate := True\<rparr>)"
    have mark: "wf_registry limit (upd_data ?mark r)" using assms(1,2) by (intro wf_flag_slot) auto
    have "wf_registry limit (free_slot k ?slot (upd_data ?mark r))" using d new(1) k assms(2)
      wf_registryE [OF assms(1)] by (intro wf_free_slot [OF mark, of "?mark d"]) (auto simp: nth_update_if)
    moreover have "wf_registry limit (free_slot k ?slot r)" using d new(1) k assms(2) by (intro wf_free_slot [OF assms(1) d]) auto
    moreover note wf_push_rw [OF assms(1) d assms(2) new(1) k, of known]
    ultimately show ?thesis using assms(3) d new
      by (auto simp: state_change_slot_def Let_def free_slot_def split: if_splits)
  qed
qed

lemma wf_state_change_loop:
  "wf_registry limit r \<Longrightarrow> \<forall>k \<in> set ks. k < max_worker_processes r \<Longrightarrow>
   wf_registry limit (state_change_loop allow known alloc ks r) \<and>
   max_worker_processes (state_change_loop allow known alloc ks r) = max_worker_processes r"
proof (induction ks arbitrary: r)
  case (Cons k ks)
  then show ?case using wf_state_change_slot [of limit r k allow known alloc]
    by (cases "state_change_slot allow known alloc k r") auto
qed simp

lemma wf_state_change: "wf_registry limit r \<Longrightarrow> wf_registry limit (BackgroundWorkerStateChange allow known alloc r)"
  by (simp add: BackgroundWorkerStateChange_def wf_state_change_loop)

lemma wf_list_map:
  assumes "\<And>rw. rw_shmem_slot (f rw) = rw_shmem_slot rw" and "\<And>rw. rw_matches d (f rw) = rw_matches d rw"
  shows "wf_list d (map f rws) = wf_list d rws"
proof -
  have "map rw_shmem_slot (map f rws) = map rw_shmem_slot rws" using assms(1) by simp
  moreover have "rw_shmem_slot ` set (map f rws) = rw_shmem_slot ` set rws" using assms(1) by (simp add: image_image)
  moreover have "(\<forall>rw \<in> set (map f rws). rw_matches d rw) = (\<forall>rw \<in> set rws. rw_matches d rw)" using assms(2) by simp
  ultimately show ?thesis unfolding wf_list_def unregistered_ok_def by (simp only:)
qed

lemma wf_stop_notifications:
  assumes "wf_registry limit r"
  shows "wf_registry limit (BackgroundWorkerStopNotifications pid r)"
  using assms unfolding wf_registry_def BackgroundWorkerStopNotifications_def
  by (auto simp: wf_list_map rw_matches_def)

lemma wf_forget_unstarted_loop:
  "wf_registry limit r \<Longrightarrow> i + todo \<le> length (BackgroundWorkerList r) \<Longrightarrow> wf_registry limit (forget_unstarted_loop todo i r)"
proof (induction todo arbitrary: i r)
  case (Suc todo)
  then have i: "i < length (BackgroundWorkerList r)" by simp
  note wf = wf_forget [OF Suc.prems(1) i]
  have "wf_registry limit (forget_unstarted_loop todo i (notify pid (ForgetBackgroundWorker i r)))" for pid
    using Suc.prems wf i by (intro Suc.IH) auto
  moreover have "wf_registry limit (forget_unstarted_loop todo (Suc i) r)" using Suc.prems by (intro Suc.IH) auto
  ultimately show ?case by (simp add: Let_def)
qed simp

lemma wf_forget_unstarted: "wf_registry limit r \<Longrightarrow> wf_registry limit (ForgetUnstartedBackgroundWorkers r)"
  by (simp add: ForgetUnstartedBackgroundWorkers_def wf_forget_unstarted_loop)

lemma wf_terminate:
  assumes "wf_registry limit r" and "handle_slot handle < max_worker_processes r"
  shows "wf_registry limit (TerminateBackgroundWorker handle r)"
  unfolding TerminateBackgroundWorker_def using assms by (intro wf_flag_slot) auto

lemma wf_terminate_database:
  assumes "wf_registry limit r"
  shows "wf_registry limit (TerminateBackgroundWorkersForDatabase database_of db r) \<and>
    max_worker_processes (TerminateBackgroundWorkersForDatabase database_of db r) = max_worker_processes r"
proof -
  have "wf_registry limit (fold (\<lambda>k. upd_data (upd_slot k g)) ks r) \<and>
      max_worker_processes (fold (\<lambda>k. upd_data (upd_slot k g)) ks r) = max_worker_processes r"
    if "\<forall>k \<in> set ks. k < max_worker_processes r" "wf_registry limit r"
      "\<And>slot. in_use (g slot) = in_use slot \<and> slot_worker (g slot) = slot_worker slot \<and> slot_pid (g slot) = slot_pid slot"
    for ks g r
    using that
  proof (induction ks arbitrary: r)
    case (Cons k ks)
    have "wf_registry limit (upd_data (upd_slot k g) r)" using Cons.prems by (intro wf_flag_slot) auto
    with Cons.IH [of "upd_data (upd_slot k g) r"] Cons.prems show ?case by simp
  qed simp
  moreover have "total_slots (the (BackgroundWorkerData r)) = max_worker_processes r"
    using assms by (auto simp: wf_registry_def wf_array_def)
  ultimately show ?thesis unfolding TerminateBackgroundWorkersForDatabase_def using assms by simp
qed

lemma sanity_check_parallel:
  assumes "SanityCheckBackgroundWorker worker = Inr worker'"
  shows "bgw_flags worker' = bgw_flags worker \<and> bgw_restart_time worker' = bgw_restart_time worker \<and>
    (has_flag BGWORKER_CLASS_PARALLEL worker' \<longrightarrow> bgw_restart_time worker' = BGW_NEVER_RESTART)"
  using assms
  by (auto simp: SanityCheckBackgroundWorker_def bgw_error_def has_flag_def split: if_splits)

lemma wf_array_claim:
  assumes "wf_array limit n d" and "k < n" and "\<not> in_use (slots d ! k)"
    and "has_flag BGWORKER_CLASS_PARALLEL worker \<longrightarrow>
      bgw_restart_time worker = BGW_NEVER_RESTART \<and> parallel_slots d < limit"
  shows "wf_array limit n (claim_bgw_slot worker k d)"
proof -
  have k: "k < length (slots d)" using assms(1,2) by (simp add: wf_array_def)
  let ?slot = "(slots d ! k)\<lparr>slot_worker := worker, slot_pid := InvalidPid,
    generation := generation (slots d ! k) + 1, slot_terminate := False, in_use := True\<rparr>"
  let ?d = "claim_bgw_slot worker k d"
  have slots: "slots ?d = (slots d)[k := ?slot]" by (simp add: claim_bgw_slot_def Let_def)
  have par: "\<not> is_parallel (slots d ! k)" "is_parallel ?slot = has_flag BGWORKER_CLASS_PARALLEL worker"
    using assms(3) by (simp_all add: is_parallel_def)
  have count: "parallel_slots ?d = parallel_slots d + (if has_flag BGWORKER_CLASS_PARALLEL worker then 1 else 0)"
    using length_filter_update [OF k, of is_parallel ?slot] par by (simp add: parallel_slots_def slots)
  have "parallel_register_count d - parallel_terminate_count d = of_nat (parallel_slots d)"
    using assms(1) by (simp add: wf_array_def)
  then have "parallel_register_count ?d - parallel_terminate_count ?d = of_nat (parallel_slots ?d)"
    unfolding count by (auto simp: claim_bgw_slot_def Let_def algebra_simps)
  moreover have "bgw_restart_time (slot_worker slot) = BGW_NEVER_RESTART"
    if "slot \<in> set (slots ?d)" "is_parallel slot" for slot
    using that par(2) assms(1,4) set_update_subset_insert [of "slots d" k ?slot] unfolding slots wf_array_def by auto
  moreover have "length (slots ?d) = n" "total_slots ?d = n"
    using assms(1) by (auto simp: claim_bgw_slot_def Let_def wf_array_def)
  moreover have "parallel_slots ?d \<le> limit" using count assms(1,4) by (auto simp: wf_array_def)
  ultimately show ?thesis by (simp add: wf_array_def)
qed

lemma wf_list_claim:
  assumes "wf_list d rws" and "k < length (slots d)" and "\<not> in_use (slots d ! k)"
  shows "wf_list (claim_bgw_slot worker k d) rws"
proof -
  have free: "rw_shmem_slot rw \<noteq> k" if "rw \<in> set rws" for rw
    using that assms by (auto simp: wf_list_def rw_matches_def Let_def)
  have len: "length (slots (claim_bgw_slot worker k d)) = length (slots d)" by (simp add: claim_bgw_slot_def Let_def)
  have same: "slots (claim_bgw_slot worker k d) ! l = slots d ! l" if "l \<noteq> k" for l
    using that by (simp add: claim_bgw_slot_def Let_def)
  have own: "slot_pid (slots (claim_bgw_slot worker k d) ! k) = InvalidPid"
    using assms(2) by (simp add: claim_bgw_slot_def Let_def)
  have "rw_matches (claim_bgw_slot worker k d) rw" if "rw \<in> set rws" for rw
    using that assms(1) same [OF free [OF that]] len by (auto simp: wf_list_def rw_matches_def)
  moreover have "unregistered_ok (claim_bgw_slot worker k d) rws"
    using assms(1) same own len unfolding wf_list_def unregistered_ok_def by metis
  ultimately show ?thesis using assms(1) by (simp add: wf_list_def)
qed

lemma wf_register_dynamic:
  assumes "wf_registry limit r" and "RegisterDynamicBackgroundWorker in_child max_parallel worker r = Inr (h, r')"
    and "max_worker_processes r < 2 ^ 32" and "unat max_parallel \<le> limit"
  shows "wf_registry limit r' \<and> max_worker_processes r' = max_worker_processes r"
proof -
  obtain d where d: "BackgroundWorkerData r = Some d" "wf_array limit (max_worker_processes r) d"
    "wf_list d (BackgroundWorkerList r)" "length (slots d) = max_worker_processes r"
    using wf_registryE [OF assms(1)] by blast
  show ?thesis
  proof (cases "r' = r")
    case False
    with assms(2) d(1) obtain worker' k where w: "SanityCheckBackgroundWorker worker = Inr worker'"
      "\<not> (has_flag BGWORKER_CLASS_PARALLEL worker' \<and> too_many_parallel max_parallel d)"
      "find_index (\<lambda>slot. \<not> in_use slot) (take (total_slots d) (slots d)) = Some k"
      "r' = upd_data (claim_bgw_slot worker' k) r"
      by (auto simp: RegisterDynamicBackgroundWorker_def Let_def split: if_splits option.splits)
    have k: "k < max_worker_processes r" "\<not> in_use (slots d ! k)"
      using find_index_Some [OF w(3)] d(2) by (auto simp: wf_array_def)
    have "parallel_slots d < limit" if "has_flag BGWORKER_CLASS_PARALLEL worker'"
    proof -
      have n: "parallel_slots d < 2 ^ 32"
        using length_filter_le [of is_parallel "slots d"] assms(3) d(4) by (simp add: parallel_slots_def)
      have "of_nat (parallel_slots d) < max_parallel"
        using w(2) that d(2) by (simp add: too_many_parallel_def wf_array_def not_le)
      with n assms(4) show ?thesis by (simp add: word_less_nat_alt unat_of_nat)
    qed
    with wf_array_claim [OF d(2) k, of worker'] sanity_check_parallel [OF w(1)]
    have "wf_array limit (max_worker_processes r) (claim_bgw_slot worker' k d)" by blast
    moreover have "wf_list (claim_bgw_slot worker' k d) (BackgroundWorkerList r)"
      using wf_list_claim [OF d(3)] k d(4) by simp
    ultimately show ?thesis using w(4) d(1) by (simp add: wf_registry_def)
  qed (use assms in simp)
qed

text \<open>
  A reinitialisation: what \<open>ResetBackgroundWorkerCrashTimes\<close> leaves of the list are the workers
  that may be restarted, and none of them is a parallel worker.
\<close>

definition may_restart :: "RegisteredBgWorker \<Rightarrow> bool" where
  "may_restart rw \<longleftrightarrow> bgw_restart_time (rw_worker rw) \<noteq> BGW_NEVER_RESTART"

definition reset_rw :: "RegisteredBgWorker \<Rightarrow> RegisteredBgWorker" where
  "reset_rw rw = rw\<lparr>rw_crashed_at := 0, rw_pid := 0, rw_worker := (rw_worker rw)\<lparr>bgw_notify_pid := 0\<rparr>\<rparr>"

lemma list_forget:
  "BackgroundWorkerList (ForgetBackgroundWorker i r) = take i (BackgroundWorkerList r) @ drop (Suc i) (BackgroundWorkerList r)"
  by (simp add: ForgetBackgroundWorker_def unlink_rw_def Let_def)

lemma reset_crash_loop_list:
  "i + todo = length (BackgroundWorkerList r) \<Longrightarrow>
   BackgroundWorkerList (reset_crash_loop todo i r) =
     take i (BackgroundWorkerList r) @ map reset_rw (filter may_restart (drop i (BackgroundWorkerList r))) \<and>
   max_worker_processes (reset_crash_loop todo i r) = max_worker_processes r"
proof (induction todo arbitrary: i r)
  case (Suc todo)
  let ?L = "BackgroundWorkerList r"
  have i: "i < length ?L" "drop i ?L = ?L ! i # drop (Suc i) ?L" using Suc.prems by (simp_all add: Cons_nth_drop_Suc)
  show ?case
  proof (cases "may_restart (?L ! i)")
    case False
    then have "reset_crash_loop (Suc todo) i r = reset_crash_loop todo i (ForgetBackgroundWorker i r)"
      by (simp add: may_restart_def)
    moreover have "i + todo = length (BackgroundWorkerList (ForgetBackgroundWorker i r))" using Suc.prems i by simp
    ultimately show ?thesis using Suc.IH [of i "ForgetBackgroundWorker i r"] False i
      by (simp add: list_forget take_Suc_conv_app_nth)
  next
    case True
    let ?r = "upd_rw i reset_rw r"
    have "reset_crash_loop (Suc todo) i r = reset_crash_loop todo (Suc i) ?r"
      using True by (simp add: may_restart_def reset_rw_def [abs_def])
    moreover have "Suc i + todo = length (BackgroundWorkerList ?r)" using Suc.prems by simp
    ultimately show ?thesis using Suc.IH [of "Suc i" ?r] True i
      by (simp add: take_Suc_conv_app_nth take_update_swap drop_update_cancel list_update_append)
  qed
qed simp

lemma list_reset_crash_times:
  "BackgroundWorkerList (ResetBackgroundWorkerCrashTimes r) = map reset_rw (filter may_restart (BackgroundWorkerList r))"
  "max_worker_processes (ResetBackgroundWorkerCrashTimes r) = max_worker_processes r"
  using reset_crash_loop_list [of 0 "length (BackgroundWorkerList r)" r]
  by (simp_all add: ResetBackgroundWorkerCrashTimes_def)

text \<open>The initialisation makes the array agree with a list of workers that have not started.\<close>

lemma nth_init_slots:
  "k < length memory \<Longrightarrow>
   map (\<lambda>(n, slot). init_slot rws n slot) (enumerate 0 memory) ! k = init_slot rws k (memory ! k)"
  by (simp add: nth_enumerate_eq)

lemma wf_bgw_shmem_init:
  assumes "length memory = max_worker_processes r" and "length (BackgroundWorkerList r) \<le> max_worker_processes r"
    and "\<forall>rw \<in> set (BackgroundWorkerList r). \<not> has_flag BGWORKER_CLASS_PARALLEL (rw_worker rw) \<and> rw_pid rw = 0"
  shows "wf_registry limit (BackgroundWorkerShmemInit memory r) \<and>
    max_worker_processes (BackgroundWorkerShmemInit memory r) = max_worker_processes r"
proof -
  define rws where "rws = map (\<lambda>(n, rw). number_rw n rw) (enumerate 0 (BackgroundWorkerList r))"
  define sl where "sl = map (\<lambda>(n, slot). init_slot rws n slot) (enumerate 0 memory)"
  let ?d = "\<lparr>total_slots = max_worker_processes r, parallel_register_count = 0, parallel_terminate_count = 0, slots = sl\<rparr>"
  have len: "length rws = length (BackgroundWorkerList r)" "length sl = max_worker_processes r"
    using assms(1) by (simp_all add: rws_def sl_def)
  have rw: "rws ! k = number_rw k (BackgroundWorkerList r ! k)" if "k < length rws" for k
    using that by (simp add: rws_def nth_enumerate_eq)
  have slot: "sl ! k = init_slot rws k (memory ! k)" if "k < max_worker_processes r" for k
    unfolding sl_def using that assms(1) by (intro nth_init_slots) simp
  have ids: "map rw_shmem_slot rws = [0..<length rws]" using rw by (intro nth_equalityI) (simp_all add: number_rw_def)
  have "\<not> is_parallel (sl ! k)" if "k < max_worker_processes r" for k
  proof (cases "k < length rws")
    case True
    with assms(3) len(1) have "\<not> has_flag BGWORKER_CLASS_PARALLEL (rw_worker (BackgroundWorkerList r ! k))" by simp
    with True rw [OF True] slot [OF that] show ?thesis by (simp add: is_parallel_def init_slot_def has_flag_def number_rw_def)
  qed (simp add: slot [OF that] is_parallel_def init_slot_def)
  then have none: "filter is_parallel sl = []" using len(2) by (simp add: filter_empty_conv all_set_conv_all_nth)
  then have arr: "wf_array limit (max_worker_processes r) ?d"
    using len(2) by (auto simp: wf_array_def parallel_slots_def filter_empty_conv)
  have "rw_matches ?d (rws ! k)" if k: "k < length rws" for k
  proof -
    have "k < max_worker_processes r" "rw_pid (BackgroundWorkerList r ! k) = 0" using k assms(2,3) len(1) by auto
    with k rw [OF k] slot len(2) show ?thesis by (simp add: rw_matches_def init_slot_def number_rw_def Let_def)
  qed
  then have "\<forall>rw \<in> set rws. rw_matches ?d rw" by (simp add: all_set_conv_all_nth)
  moreover have "unregistered_ok ?d rws"
  proof -
    have img: "rw_shmem_slot ` set rws = {0..<length rws}" using ids by (metis list.set_map set_upt)
    show ?thesis unfolding unregistered_ok_def img using slot len(2) by (auto simp: init_slot_def)
  qed
  moreover have "distinct (map rw_shmem_slot rws)" unfolding ids by simp
  ultimately have "wf_list ?d rws" by (simp only: wf_list_def)
  moreover have "BackgroundWorkerShmemInit memory r = r\<lparr>BackgroundWorkerList := rws, BackgroundWorkerData := Some ?d\<rparr>"
    by (simp add: BackgroundWorkerShmemInit_def rws_def sl_def Let_def)
  ultimately show ?thesis using arr none by (simp add: wf_registry_def parallel_slots_def)
qed

end
