(* ===== verification/Double.thy ===== *)
theory Double
  imports Prelude
begin

section \<open>C doubles\<close>

text \<open>
  Plan costs and accumulated rents are C \<open>double\<close>s. A finite double is a real
  number; an arithmetic operation of the sources is the exact operation followed
  by \<open>rnd\<close>, the IEEE~754 binary64 rounding to nearest, ties to even, with gradual
  underflow. Costs stay far below the overflow threshold, so infinities and NaN
  are not modelled. The lemmas the other theories use are stated once for any
  rounding with these laws (locale \<open>rounding\<close>) and the binary64 rounding is an
  instance.
\<close>

subsection \<open>Rounding to binary64\<close>

definition rne :: "real \<Rightarrow> int" where
  "rne y = (let f = \<lfloor>y\<rfloor>; d = y - of_int f in
            if d < 1 / 2 then f else if 1 / 2 < d then f + 1 else if even f then f else f + 1)"

definition fexp :: "real \<Rightarrow> int" where
  "fexp x = max (\<lfloor>log 2 \<bar>x\<bar>\<rfloor> - 52) (- 1074)"

definition rnd :: "real \<Rightarrow> real" where
  "rnd x = (if x = 0 then 0 else of_int (rne (x / 2 powr of_int (fexp x))) * 2 powr of_int (fexp x))"

subsection \<open>The laws the clients use\<close>

locale rounding =
  fixes rd :: "real \<Rightarrow> real"
  assumes rd_mono: "x \<le> y \<Longrightarrow> rd x \<le> rd y"
    and rd_zero: "rd 0 = 0"
    and rd_idem: "rd (rd x) = rd x"
begin

lemma rd_nonneg: "0 \<le> x \<Longrightarrow> 0 \<le> rd x"
  using rd_mono [of 0 x] by (simp add: rd_zero)

text \<open>Adding a non-negative cost to a double never lowers it.\<close>

lemma rd_add_ge: "rd a = a \<Longrightarrow> 0 \<le> c \<Longrightarrow> a \<le> rd (a + c)"
  using rd_mono [of a "a + c"] by simp

lemma rd_fold_add:
  "rd a = a \<Longrightarrow> \<forall>c \<in> set cs. 0 \<le> c \<Longrightarrow>
     a \<le> fold (\<lambda>c r. rd (r + c)) cs a \<and>
     rd (fold (\<lambda>c r. rd (r + c)) cs a) = fold (\<lambda>c r. rd (r + c)) cs a"
proof (induction cs arbitrary: a)
  case Nil
  then show ?case by simp
next
  case (Cons c cs)
  have "a \<le> rd (a + c)" using Cons.prems by (intro rd_add_ge) simp_all
  moreover have "rd (a + c) \<le> fold (\<lambda>c r. rd (r + c)) cs (rd (a + c)) \<and>
      rd (fold (\<lambda>c r. rd (r + c)) cs (rd (a + c))) = fold (\<lambda>c r. rd (r + c)) cs (rd (a + c))"
    using Cons.prems by (intro Cons.IH) (simp_all add: rd_idem)
  ultimately show ?case by auto
qed

end

subsection \<open>binary64 satisfies them\<close>

lemma rne_of_int [simp]: "rne (of_int n) = n"
  by (simp add: rne_def)

lemma rne_zero [simp]: "rne 0 = 0"
  using rne_of_int [of 0] by simp

lemma rne_bounds: "\<lfloor>y\<rfloor> \<le> rne y" "rne y \<le> \<lfloor>y\<rfloor> + 1"
  by (auto simp: rne_def Let_def)

lemma rne_mono:
  assumes "x \<le> y"
  shows "rne x \<le> rne y"
proof (cases "\<lfloor>x\<rfloor> = \<lfloor>y\<rfloor>")
  case True
  with assms show ?thesis by (auto simp: rne_def Let_def)
next
  case False
  with floor_mono [OF assms] have "\<lfloor>x\<rfloor> + 1 \<le> \<lfloor>y\<rfloor>" by linarith
  with rne_bounds(2) [of x] rne_bounds(1) [of y] show ?thesis by linarith
qed

lemma rne_minus: "rne (- y) = - rne y"
proof (cases "y = of_int \<lfloor>y\<rfloor>")
  case True
  then show ?thesis by (metis of_int_minus rne_of_int)
next
  case False
  then have "y - of_int \<lfloor>y\<rfloor> \<noteq> 0" by simp
  have f: "\<lfloor>- y\<rfloor> = - \<lfloor>y\<rfloor> - 1"
    using False by (intro floor_unique) (simp_all, linarith+)
  show ?thesis
    unfolding rne_def f Let_def by (auto simp: field_simps)
qed

lemma fexp_minus [simp]: "fexp (- x) = fexp x"
  by (simp add: fexp_def)

lemma rnd_minus: "rnd (- x) = - rnd x"
  by (simp add: rnd_def rne_minus flip: minus_divide_left)

lemma rnd_zero [simp]: "rnd 0 = 0"
  by (simp add: rnd_def)

lemma fexp_mono: "0 < x \<Longrightarrow> x \<le> y \<Longrightarrow> fexp x \<le> fexp y"
  unfolding fexp_def by (intro max.mono diff_right_mono floor_mono) simp_all

lemma rnd_upper:
  assumes "0 < x"
  shows "rnd x \<le> 2 powr of_int (fexp x + 53)"
proof -
  let ?e = "fexp x"
  have "log 2 x < of_int (?e + 53)"
    unfolding fexp_def using assms by (simp add: abs_of_pos) linarith
  then have "x < 2 powr of_int (?e + 53)"
    using assms by (simp add: log_less_iff)
  also have "\<dots> = of_int (2 ^ 53) * 2 powr of_int ?e"
    by (simp add: powr_add)
  finally have "x / 2 powr of_int ?e \<le> of_int (2 ^ 53)"
    by (simp add: divide_le_eq)
  then have "rne (x / 2 powr of_int ?e) \<le> 2 ^ 53"
    using rne_mono [of "x / 2 powr of_int ?e" "of_int (2 ^ 53)"] by (simp only: rne_of_int)
  then have "(of_int (rne (x / 2 powr of_int ?e)) :: real) \<le> of_int (2 ^ 53)"
    by (simp only: of_int_le_iff)
  then have "rnd x \<le> of_int (2 ^ 53) * 2 powr of_int ?e"
    using assms by (simp add: rnd_def mult_right_mono)
  then show ?thesis by (simp add: powr_add)
qed

lemma rnd_lower:
  assumes "0 < y" and "- 1074 < fexp y"
  shows "2 powr of_int (fexp y + 52) \<le> rnd y"
proof -
  let ?e = "fexp y"
  have "of_int (?e + 52) \<le> log 2 y"
    using assms unfolding fexp_def by (simp add: abs_of_pos split: if_splits)
  then have "2 powr of_int (?e + 52) \<le> y"
    using assms by (simp add: le_log_iff)
  then have "of_int (2 ^ 52) \<le> y / 2 powr of_int ?e"
    by (simp add: powr_add le_divide_eq)
  then have "2 ^ 52 \<le> rne (y / 2 powr of_int ?e)"
    using rne_mono [of "of_int (2 ^ 52)" "y / 2 powr of_int ?e"] by (simp only: rne_of_int)
  then have "(of_int (2 ^ 52) :: real) \<le> of_int (rne (y / 2 powr of_int ?e))"
    by (simp only: of_int_le_iff)
  then have "of_int (2 ^ 52) * 2 powr of_int ?e \<le> rnd y"
    using assms by (simp add: rnd_def mult_right_mono)
  then show ?thesis by (simp add: powr_add)
qed

lemma rnd_mono_pos:
  assumes "0 < x" and "x \<le> y"
  shows "rnd x \<le> rnd y"
proof (cases "fexp x = fexp y")
  case True
  have "rne (x / 2 powr of_int (fexp x)) \<le> rne (y / 2 powr of_int (fexp x))"
    using assms by (intro rne_mono divide_right_mono) simp_all
  with assms True show ?thesis by (simp add: rnd_def mult_right_mono)
next
  case False
  with fexp_mono [OF assms] have e: "fexp x + 53 \<le> fexp y + 52" by linarith
  have "- 1074 \<le> fexp x" by (simp add: fexp_def)
  with e have "- 1074 < fexp y" by linarith
  have "rnd x \<le> 2 powr of_int (fexp x + 53)" using assms(1) by (rule rnd_upper)
  also have "\<dots> \<le> 2 powr of_int (fexp y + 52)" using e by (intro powr_mono) simp_all
  also have "\<dots> \<le> rnd y" using assms \<open>- 1074 < fexp y\<close> by (intro rnd_lower) simp_all
  finally show ?thesis .
qed

lemma rne_sign: "0 \<le> y \<Longrightarrow> 0 \<le> rne y"
  using rne_mono [of 0 y] by simp

lemma rnd_sign: "0 \<le> x \<Longrightarrow> 0 \<le> rnd x"
  by (simp add: rnd_def rne_sign)

lemma rnd_mono: "x \<le> y \<Longrightarrow> rnd x \<le> rnd y"
proof -
  assume le: "x \<le> y"
  consider "0 < x" | "x \<le> 0" "0 \<le> y" | "y < 0" by linarith
  then show ?thesis
  proof cases
    case 1
    with le show ?thesis by (simp add: rnd_mono_pos)
  next
    case 2
    with rnd_sign [of y] rnd_sign [of "- x"] show ?thesis by (simp add: rnd_minus)
  next
    case 3
    with le rnd_mono_pos [of "- y" "- x"] show ?thesis by (simp add: rnd_minus)
  qed
qed

lemma pow2_quotient:
  assumes "k \<le> e"
  shows "(2 :: real) powr of_int e / 2 powr of_int k = 2 ^ nat (e - k)"
proof -
  have "(2 :: real) powr of_int e / 2 powr of_int k = 2 powr (of_int (e - k))"
    by (simp add: powr_diff)
  also have "\<dots> = 2 powr (of_nat (nat (e - k)))" using assms by simp
  also have "\<dots> = 2 ^ nat (e - k)" by (rule powr_realpow) simp
  finally show ?thesis .
qed

text \<open>A value on its own grid is not changed.\<close>

lemma rnd_grid:
  assumes "x \<noteq> 0" and "x / 2 powr of_int (fexp x) = of_int k"
  shows "rnd x = x"
proof -
  have "rnd x = of_int k * 2 powr of_int (fexp x)"
    using assms(1) unfolding rnd_def assms(2) by simp
  also have "\<dots> = x" using assms(2) [symmetric] by simp
  finally show ?thesis .
qed

text \<open>A number with a 53-bit significand in the exponent range is a double.\<close>

lemma rnd_representable_pos:
  assumes m: "0 < m" "m \<le> 2 ^ 53" and e: "- 1074 \<le> e"
  shows "rnd (of_int m * 2 powr of_int e) = of_int m * 2 powr of_int e" (is "rnd ?x = ?x")
proof (cases "m = 2 ^ 53")
  case True
  then have x: "?x = 2 powr of_int (e + 53)" by (simp add: powr_add)
  have f: "fexp (2 powr of_int (e + 53)) = e + 1"
    unfolding fexp_def using e by simp
  have "rnd (2 powr of_int (e + 53)) = 2 powr of_int (e + 53)"
    by (rule rnd_grid [where k = "2 ^ 52"]) (simp_all only: f pow2_quotient, simp_all)
  then show ?thesis by (simp only: x)
next
  case False
  with m have "of_int m < (of_int (2 ^ 53) :: real)" by (subst of_int_less_iff) simp
  then have "?x < of_int (2 ^ 53) * 2 powr of_int e" by simp
  also have "\<dots> = 2 powr of_int (e + 53)" by (simp add: powr_add)
  finally have "log 2 ?x < of_int (e + 53)" using m by (subst log_less_iff) simp_all
  then have "\<lfloor>log 2 ?x\<rfloor> \<le> e + 52" by linarith
  with e m have "fexp ?x \<le> e" by (simp add: fexp_def)
  then have q: "(2 :: real) powr of_int e / 2 powr of_int (fexp ?x) = 2 ^ nat (e - fexp ?x)"
    by (rule pow2_quotient)
  have "?x / 2 powr of_int (fexp ?x) = of_int m * (2 powr of_int e / 2 powr of_int (fexp ?x))"
    by (simp only: times_divide_eq_right)
  also have "\<dots> = of_int (m * 2 ^ nat (e - fexp ?x))"
    unfolding q by simp
  finally show ?thesis using m by (intro rnd_grid [where k = "m * 2 ^ nat (e - fexp ?x)"]) simp_all
qed

lemma rnd_representable:
  assumes "\<bar>m\<bar> \<le> 2 ^ 53" and "- 1074 \<le> e"
  shows "rnd (of_int m * 2 powr of_int e) = of_int m * 2 powr of_int e"
proof -
  consider "m = 0" | "0 < m" | "m < 0" by linarith
  then show ?thesis
  proof cases
    case 2
    with assms show ?thesis by (intro rnd_representable_pos) simp_all
  next
    case 3
    with assms rnd_representable_pos [of "- m" e] show ?thesis
      by (simp add: rnd_minus)
  qed simp
qed

lemma rnd_of_int: "\<bar>m\<bar> \<le> 2 ^ 53 \<Longrightarrow> rnd (of_int m) = of_int m"
  using rnd_representable [of m 0] by simp

lemma rnd_numeral [simp]: "numeral n \<le> (2 :: int) ^ 53 \<Longrightarrow> rnd (numeral n) = numeral n"
  using rnd_of_int [of "numeral n"] by simp

lemma rnd_one [simp]: "rnd 1 = 1"
  using rnd_of_int [of 1] by simp

lemma rnd_idem_pos:
  assumes "0 < x"
  shows "rnd (rnd x) = rnd x"
proof -
  let ?e = "fexp x" and ?m = "rne (x / 2 powr of_int (fexp x))"
  have rx: "rnd x = of_int ?m * 2 powr of_int ?e" using assms by (simp add: rnd_def)
  have "0 \<le> ?m" using assms by (simp add: rne_sign)
  moreover have "?m \<le> 2 ^ 53"
  proof -
    have "(of_int ?m :: real) * 2 powr of_int ?e \<le> of_int (2 ^ 53) * 2 powr of_int ?e"
      using rnd_upper [OF assms] rx by (simp add: powr_add)
    then have "(of_int ?m :: real) \<le> of_int (2 ^ 53)" by simp
    then show ?thesis by (simp only: of_int_le_iff)
  qed
  moreover have "- 1074 \<le> ?e" by (simp add: fexp_def)
  ultimately show ?thesis unfolding rx by (intro rnd_representable) simp_all
qed

lemma rnd_idem: "rnd (rnd x) = rnd x"
proof -
  consider "x = 0" | "0 < x" | "x < 0" by linarith
  then show ?thesis
  proof cases
    case 3
    with rnd_idem_pos [of "- x"] show ?thesis by (simp add: rnd_minus)
  qed (simp_all add: rnd_idem_pos)
qed

interpretation binary64: rounding rnd
  by unfold_locales (simp_all add: rnd_mono rnd_idem)

end
