(* ===== verification/AdvisorHash.thy ===== *)
theory AdvisorHash
  imports Workload Double
begin

section \<open>The advisor's column-statistics table (index_advisor.c)\<close>

text \<open>
  The open-addressing hash table in which the advisor accumulates, per
  (relation, column, usage), the number of executions, the rent and the last
  time seen: the key hash, linear probing with insertion, the eviction of stale
  entries and the removal of one entry. A pointer to a slot is the slot number;
  the null pointer is \<^const>\<open>None\<close>.
\<close>

subsection \<open>Data\<close>

text \<open>\<open>USAGE_ZERO\<close> is the value 0 that \<open>memset\<close> leaves in the field: no enumerator.\<close>

datatype ColUsageType = USAGE_PREDICATE | USAGE_SORT | USAGE_JOIN | USAGE_ZERO

fun usage_code :: "ColUsageType \<Rightarrow> uint32" where
  "usage_code USAGE_PREDICATE = 112"
| "usage_code USAGE_SORT = 115"
| "usage_code USAGE_JOIN = 106"
| "usage_code USAGE_ZERO = 0"

record ColStatsKey =
  key_relid :: Oid
  key_attnum :: int16
  key_usage :: ColUsageType

record ColStatsEntry =
  cs_key :: ColStatsKey
  exec_count :: int64
  cumulative_rent :: real
  last_seen :: TimestampTz

definition ADVISOR_HASH_SIZE :: nat where
  "ADVISOR_HASH_SIZE = 2048"

definition ADVISOR_HASH_MASK :: uint32 where
  "ADVISOR_HASH_MASK = of_nat ADVISOR_HASH_SIZE - 1"

record advisor_state =
  hash_slots :: "nat \<Rightarrow> ColStatsEntry"
  hash_used :: "nat \<Rightarrow> bool"

definition zero_cs :: ColStatsEntry where
  "zero_cs = \<lparr>cs_key = \<lparr>key_relid = 0, key_attnum = 0, key_usage = USAGE_ZERO\<rparr>,
              exec_count = 0, cumulative_rent = 0, last_seen = 0\<rparr>"

definition advisor_init :: advisor_state where
  "advisor_init = \<lparr>hash_slots = (\<lambda>_. zero_cs), hash_used = (\<lambda>_. False)\<rparr>"

definition USECS_PER_DAY :: int64 where
  "USECS_PER_DAY = 86400000000"

subsection \<open>Operations\<close>

definition advisor_hash_fn :: "Oid \<Rightarrow> int16 \<Rightarrow> ColUsageType \<Rightarrow> uint32" where
  "advisor_hash_fn relid attnum utype =
     (let h = relid;
          h = h * 31 + scast attnum;
          h = h * 31 + usage_code utype
      in h AND ADVISOR_HASH_MASK)"

text \<open>Slot \<open>i\<close> zeroed and marked used, then given its key.\<close>

definition claim_slot :: "nat \<Rightarrow> ColStatsKey \<Rightarrow> advisor_state \<Rightarrow> advisor_state" where
  "claim_slot i key st = st
     \<lparr>hash_used := (hash_used st)(i := True),
      hash_slots := (hash_slots st)(i := zero_cs\<lparr>cs_key := key\<rparr>)\<rparr>"

definition clear_slot :: "nat \<Rightarrow> advisor_state \<Rightarrow> advisor_state" where
  "clear_slot i st = st
     \<lparr>hash_used := (hash_used st)(i := False),
      hash_slots := (hash_slots st)(i := zero_cs)\<rparr>"

text \<open>
  The probe loops. The first argument is fuel; the outer option is \<^const>\<open>None\<close> only
  when it runs out, which the initial fuel excludes.
\<close>

fun find_or_create_loop ::
  "nat \<Rightarrow> ColStatsKey \<Rightarrow> uint32 \<Rightarrow> uint32 \<Rightarrow> advisor_state \<Rightarrow> (nat option \<times> advisor_state) option" where
  "find_or_create_loop 0 key idx start st = None"
| "find_or_create_loop (Suc fuel) key idx start st =
     (if \<not> hash_used st (unat idx) then Some (Some (unat idx), claim_slot (unat idx) key st)
      else if cs_key (hash_slots st (unat idx)) = key then Some (Some (unat idx), st)
      else
        let idx' = (idx + 1) AND ADVISOR_HASH_MASK in
        if idx' = start then Some (None, st)
        else find_or_create_loop fuel key idx' start st)"

definition advisor_hash_find_or_create ::
  "Oid \<Rightarrow> int16 \<Rightarrow> ColUsageType \<Rightarrow> advisor_state \<Rightarrow> (nat option \<times> advisor_state) option" where
  "advisor_hash_find_or_create relid attnum utype st =
     (let idx = advisor_hash_fn relid attnum utype in
      find_or_create_loop ADVISOR_HASH_SIZE
        \<lparr>key_relid = relid, key_attnum = attnum, key_usage = utype\<rparr> idx idx st)"

fun hash_remove_loop ::
  "nat \<Rightarrow> ColStatsKey \<Rightarrow> uint32 \<Rightarrow> uint32 \<Rightarrow> advisor_state \<Rightarrow> advisor_state option" where
  "hash_remove_loop 0 key idx start st = None"
| "hash_remove_loop (Suc fuel) key idx start st =
     (if \<not> hash_used st (unat idx) then Some st
      else if cs_key (hash_slots st (unat idx)) = key then Some (clear_slot (unat idx) st)
      else
        let idx' = (idx + 1) AND ADVISOR_HASH_MASK in
        if idx' = start then Some st
        else hash_remove_loop fuel key idx' start st)"

definition advisor_hash_remove ::
  "Oid \<Rightarrow> int16 \<Rightarrow> ColUsageType \<Rightarrow> advisor_state \<Rightarrow> advisor_state option" where
  "advisor_hash_remove relid attnum utype st =
     (let idx = advisor_hash_fn relid attnum utype in
      hash_remove_loop ADVISOR_HASH_SIZE
        \<lparr>key_relid = relid, key_attnum = attnum, key_usage = utype\<rparr> idx idx st)"

text \<open>The staleness test and the loop of \<^verbatim>\<open>advisor_hash_evict_stale\<close>.\<close>

definition is_stale :: "TimestampTz \<Rightarrow> int64 \<Rightarrow> ColStatsEntry \<Rightarrow> bool" where
  "is_stale now max_age cs \<longleftrightarrow>
     last_seen cs \<noteq> 0 \<and> sint max_age < sint (now - last_seen cs)"

definition evict_slot ::
  "TimestampTz \<Rightarrow> int64 \<Rightarrow> nat \<Rightarrow> advisor_state \<times> nat \<Rightarrow> advisor_state \<times> nat" where
  "evict_slot now max_age i = (\<lambda>(st, evicted).
     if \<not> hash_used st i then (st, evicted)
     else if is_stale now max_age (hash_slots st i) then (clear_slot i st, Suc evicted)
     else (st, evicted))"

text \<open>The new table and the number of evicted entries (logged at DEBUG1).\<close>

definition advisor_hash_evict_stale ::
  "TimestampTz \<Rightarrow> int32 \<Rightarrow> advisor_state \<Rightarrow> advisor_state \<times> nat" where
  "advisor_hash_evict_stale now window_days st =
     (let max_age = scast window_days * USECS_PER_DAY in
      fold (evict_slot now max_age) [0..<ADVISOR_HASH_SIZE] (st, 0))"

text \<open>
  What the drain loop does with one column: find or create its slot and, unless
  the table is full, count the execution, add the rent and note the time.
\<close>

definition bump_stats :: "real \<Rightarrow> TimestampTz \<Rightarrow> ColStatsEntry \<Rightarrow> ColStatsEntry" where
  "bump_stats cost time cs = cs
     \<lparr>exec_count := exec_count cs + 1,
      cumulative_rent := rnd (cumulative_rent cs + cost),
      last_seen := time\<rparr>"

definition accumulate_column ::
  "real \<Rightarrow> TimestampTz \<Rightarrow> ColUsageType \<Rightarrow> Oid \<times> int16 \<Rightarrow> advisor_state \<Rightarrow> advisor_state" where
  "accumulate_column cost time utype col st =
     (case advisor_hash_find_or_create (fst col) (snd col) utype st of
        Some (Some i, st') \<Rightarrow>
          st'\<lparr>hash_slots := (hash_slots st')(i := bump_stats cost time (hash_slots st' i))\<rparr>
      | Some (None, st') \<Rightarrow> st'
      | None \<Rightarrow> st)"

subsection \<open>The probe sequence\<close>

text \<open>
  Both loops visit the 2048 slots once each, starting at the key's hash. The
  first slot that is free or holds the key is \<open>probe\<close>.
\<close>

definition slot_at :: "nat \<Rightarrow> nat \<Rightarrow> nat" where
  "slot_at s k = (s + k) mod ADVISOR_HASH_SIZE"

definition key_hash :: "ColStatsKey \<Rightarrow> nat" where
  "key_hash key = unat (advisor_hash_fn (key_relid key) (key_attnum key) (key_usage key))"

definition probe_stop :: "advisor_state \<Rightarrow> ColStatsKey \<Rightarrow> nat \<Rightarrow> bool" where
  "probe_stop st key i \<longleftrightarrow> \<not> hash_used st i \<or> cs_key (hash_slots st i) = key"

definition probe :: "advisor_state \<Rightarrow> ColStatsKey \<Rightarrow> nat option" where
  "probe st key =
     List.find (probe_stop st key) (map (slot_at (key_hash key)) [0..<ADVISOR_HASH_SIZE])"

lemma hash_mask_2047: "ADVISOR_HASH_MASK = 2047"
  by (simp add: ADVISOR_HASH_MASK_def ADVISOR_HASH_SIZE_def)

lemma advisor_hash_fn_bound: "unat (advisor_hash_fn relid attnum utype) < ADVISOR_HASH_SIZE"
  by (simp add: advisor_hash_fn_def hash_mask_2047 ADVISOR_HASH_SIZE_def unat_and_2047)

lemma key_hash_bound [simp]: "key_hash key < ADVISOR_HASH_SIZE"
  by (simp add: key_hash_def advisor_hash_fn_bound)

lemma slot_at_bound [simp]: "slot_at s k < ADVISOR_HASH_SIZE"
  by (simp add: slot_at_def ADVISOR_HASH_SIZE_def)

lemma slot_at_inj:
  assumes "slot_at s j = slot_at s k" and "j < ADVISOR_HASH_SIZE" and "k < ADVISOR_HASH_SIZE"
  shows "j = k"
  using assms mod_neq_window [of "s + j" "s + k" ADVISOR_HASH_SIZE]
  by (fastforce simp: slot_at_def)

lemma slot_at_surj:
  assumes "i < ADVISOR_HASH_SIZE" and "s < ADVISOR_HASH_SIZE"
  obtains d where "d < ADVISOR_HASH_SIZE" and "i = slot_at s d"
proof
  let ?d = "(i + ADVISOR_HASH_SIZE - s) mod ADVISOR_HASH_SIZE"
  show "?d < ADVISOR_HASH_SIZE" by (simp add: ADVISOR_HASH_SIZE_def)
  have "slot_at s ?d = (s + (i + ADVISOR_HASH_SIZE - s)) mod ADVISOR_HASH_SIZE"
    by (simp add: slot_at_def mod_add_right_eq)
  then show "i = slot_at s ?d" using assms by simp
qed

text \<open>One turn of a probe loop: the masked increment, and when it comes round.\<close>

lemma probe_increment:
  assumes "unat idx = slot_at (unat start) j" and "j < ADVISOR_HASH_SIZE"
    and "unat start < ADVISOR_HASH_SIZE"
  shows "unat ((idx + 1) AND ADVISOR_HASH_MASK) = slot_at (unat start) (Suc j)"
    and "(idx + 1) AND ADVISOR_HASH_MASK = start \<longleftrightarrow> Suc j = ADVISOR_HASH_SIZE"
proof -
  have "unat idx < 2048" using assms(1) slot_at_bound [of "unat start" j] by (simp add: ADVISOR_HASH_SIZE_def)
  then have "unat (idx + 1) = Suc (unat idx)" by (simp add: unat_word_ariths)
  then show step: "unat ((idx + 1) AND ADVISOR_HASH_MASK) = slot_at (unat start) (Suc j)"
    unfolding hash_mask_2047 unat_and_2047 assms(1)
    by (simp add: slot_at_def ADVISOR_HASH_SIZE_def mod_Suc_eq)
  have "slot_at (unat start) (Suc j) = unat start \<longleftrightarrow> Suc j = ADVISOR_HASH_SIZE"
    using mod_full_window [OF assms(2), of "unat start"] assms(3) by (simp add: slot_at_def)
  with step show "(idx + 1) AND ADVISOR_HASH_MASK = start \<longleftrightarrow> Suc j = ADVISOR_HASH_SIZE"
    by (simp add: word_unat_eq_iff)
qed

lemma key_collapse [simp]:
  "\<lparr>key_relid = key_relid key, key_attnum = key_attnum key, key_usage = key_usage key\<rparr> = key"
  by (cases key) simp

definition found :: "advisor_state \<Rightarrow> ColStatsKey \<Rightarrow> nat option \<Rightarrow> nat option \<times> advisor_state" where
  "found st key r =
     (case r of None \<Rightarrow> (None, st)
      | Some i \<Rightarrow> (Some i, if hash_used st i then st else claim_slot i key st))"

definition removed :: "advisor_state \<Rightarrow> nat option \<Rightarrow> advisor_state" where
  "removed st r =
     (case r of None \<Rightarrow> st | Some i \<Rightarrow> if hash_used st i then clear_slot i st else st)"

lemma find_or_create_loop_probe:
  assumes "unat idx = slot_at (unat start) j" and "unat start < ADVISOR_HASH_SIZE"
    and "fuel = ADVISOR_HASH_SIZE - j" and "j < ADVISOR_HASH_SIZE"
  shows "find_or_create_loop fuel key idx start st =
    Some (found st key
      (List.find (probe_stop st key) (map (slot_at (unat start)) [j..<ADVISOR_HASH_SIZE])))"
  using assms
proof (induction fuel arbitrary: idx j)
  case (Suc fuel)
  note inc = probe_increment [OF Suc.prems(1,4,2)]
  have seq: "[j..<ADVISOR_HASH_SIZE] = j # [Suc j..<ADVISOR_HASH_SIZE]"
    using Suc.prems(4) by (simp add: upt_conv_Cons)
  show ?case
  proof (cases "probe_stop st key (unat idx)")
    case True
    with Suc.prems(1) show ?thesis
      by (auto simp: seq found_def probe_stop_def)
  next
    case stop: False
    show ?thesis
    proof (cases "Suc j = ADVISOR_HASH_SIZE")
      case True
      with stop Suc.prems(1) inc(2) show ?thesis
        by (simp add: seq found_def probe_stop_def Let_def)
    next
      case False
      with Suc.prems have "find_or_create_loop fuel key ((idx + 1) AND ADVISOR_HASH_MASK) start st =
          Some (found st key (List.find (probe_stop st key)
            (map (slot_at (unat start)) [Suc j..<ADVISOR_HASH_SIZE])))"
        by (intro Suc.IH inc(1)) simp_all
      moreover have "hash_used st (unat idx)" "cs_key (hash_slots st (unat idx)) \<noteq> key"
        using stop by (simp_all add: probe_stop_def)
      ultimately show ?thesis
        using stop False Suc.prems(1) inc(2) by (simp add: seq Let_def)
    qed
  qed
qed simp

lemma hash_remove_loop_probe:
  assumes "unat idx = slot_at (unat start) j" and "unat start < ADVISOR_HASH_SIZE"
    and "fuel = ADVISOR_HASH_SIZE - j" and "j < ADVISOR_HASH_SIZE"
  shows "hash_remove_loop fuel key idx start st =
    Some (removed st
      (List.find (probe_stop st key) (map (slot_at (unat start)) [j..<ADVISOR_HASH_SIZE])))"
  using assms
proof (induction fuel arbitrary: idx j)
  case (Suc fuel)
  note inc = probe_increment [OF Suc.prems(1,4,2)]
  have seq: "[j..<ADVISOR_HASH_SIZE] = j # [Suc j..<ADVISOR_HASH_SIZE]"
    using Suc.prems(4) by (simp add: upt_conv_Cons)
  show ?case
  proof (cases "probe_stop st key (unat idx)")
    case True
    with Suc.prems(1) show ?thesis
      by (auto simp: seq removed_def probe_stop_def)
  next
    case stop: False
    show ?thesis
    proof (cases "Suc j = ADVISOR_HASH_SIZE")
      case True
      with stop Suc.prems(1) inc(2) show ?thesis
        by (simp add: seq removed_def probe_stop_def Let_def)
    next
      case False
      with Suc.prems have "hash_remove_loop fuel key ((idx + 1) AND ADVISOR_HASH_MASK) start st =
          Some (removed st (List.find (probe_stop st key)
            (map (slot_at (unat start)) [Suc j..<ADVISOR_HASH_SIZE])))"
        by (intro Suc.IH inc(1)) simp_all
      moreover have "hash_used st (unat idx)" "cs_key (hash_slots st (unat idx)) \<noteq> key"
        using stop by (simp_all add: probe_stop_def)
      ultimately show ?thesis
        using stop False Suc.prems(1) inc(2) by (simp add: seq Let_def)
    qed
  qed
qed simp

text \<open>Both operations return, whatever the table holds.\<close>

lemma slot_at_0: "s < ADVISOR_HASH_SIZE \<Longrightarrow> slot_at s 0 = s"
  by (simp add: slot_at_def)

lemma find_or_create_probe:
  "advisor_hash_find_or_create (key_relid key) (key_attnum key) (key_usage key) st =
     Some (found st key (probe st key))"
  unfolding advisor_hash_find_or_create_def Let_def probe_def key_hash_def
  by (subst find_or_create_loop_probe [where j = 0])
    (simp_all add: slot_at_0 advisor_hash_fn_bound, simp_all add: ADVISOR_HASH_SIZE_def)

lemma hash_remove_probe:
  "advisor_hash_remove (key_relid key) (key_attnum key) (key_usage key) st =
     Some (removed st (probe st key))"
  unfolding advisor_hash_remove_def Let_def probe_def key_hash_def
  by (subst hash_remove_loop_probe [where j = 0])
    (simp_all add: slot_at_0 advisor_hash_fn_bound, simp_all add: ADVISOR_HASH_SIZE_def)

subsection \<open>The interface: a keyed table of statistics\<close>

text \<open>
  What the drain relies on: an update creates a fresh entry or steps the
  existing one and leaves every other key alone; a full table ignores new keys.
\<close>

locale keyed_stats =
  fixes wf :: "'h \<Rightarrow> bool"
    and look :: "'h \<Rightarrow> 'k \<Rightarrow> 'v option"
    and cap :: nat
    and upd :: "'a \<Rightarrow> 'k \<Rightarrow> 'h \<Rightarrow> 'h"
    and step :: "'a \<Rightarrow> 'v \<Rightarrow> 'v"
    and fresh :: "'k \<Rightarrow> 'v"
  assumes wf_upd: "wf h \<Longrightarrow> wf (upd a k h)"
    and finite_look: "wf h \<Longrightarrow> finite (dom (look h))"
    and look_upd: "wf h \<Longrightarrow> k \<in> dom (look h) \<or> card (dom (look h)) < cap \<Longrightarrow>
      look (upd a k h) = (look h)(k \<mapsto> step a (case look h k of None \<Rightarrow> fresh k | Some v \<Rightarrow> v))"
    and upd_full: "wf h \<Longrightarrow> k \<notin> dom (look h) \<Longrightarrow> cap \<le> card (dom (look h)) \<Longrightarrow> upd a k h = h"
begin

lemma wf_upd_all: "wf h \<Longrightarrow> wf (fold (\<lambda>(a, k). upd a k) ops h)"
  by (induction ops arbitrary: h) (auto simp: wf_upd)

lemma look_upd_all:
  assumes "wf h" and "card (dom (look h) \<union> snd ` set ops) \<le> cap"
  shows "look (fold (\<lambda>(a, k). upd a k) ops h) k =
    (if k \<in> dom (look h) \<union> snd ` set ops
     then Some (fold step (map fst (filter (\<lambda>op. snd op = k) ops))
            (case look h k of None \<Rightarrow> fresh k | Some v \<Rightarrow> v))
     else None)"
  using assms
proof (induction ops arbitrary: h)
  case Nil
  then show ?case by (cases "look h k") auto
next
  case (Cons op ops)
  obtain a c where op: "op = (a, c)" by (cases op)
  note wf = Cons.prems(1)
  have fin: "finite (dom (look h) \<union> snd ` set (op # ops))"
    using finite_look [OF wf] by simp
  have room: "c \<in> dom (look h) \<or> card (dom (look h)) < cap"
  proof (rule disjCI)
    assume "\<not> card (dom (look h)) < cap"
    with Cons.prems(2) have "card (dom (look h) \<union> snd ` set (op # ops)) \<le> card (dom (look h))"
      by simp
    with fin have "dom (look h) = dom (look h) \<union> snd ` set (op # ops)"
      by (intro card_seteq) auto
    then show "c \<in> dom (look h)" using op by auto
  qed
  note upd = look_upd [OF wf room, of a]
  have dom: "dom (look (upd a c h)) \<union> snd ` set ops = dom (look h) \<union> snd ` set (op # ops)"
    by (auto simp: upd op)
  have "look (fold (\<lambda>(a, k). upd a k) ops (upd a c h)) k =
    (if k \<in> dom (look (upd a c h)) \<union> snd ` set ops
     then Some (fold step (map fst (filter (\<lambda>op. snd op = k) ops))
            (case look (upd a c h) k of None \<Rightarrow> fresh k | Some v \<Rightarrow> v))
     else None)"
    using Cons.prems(2) wf_upd [OF wf] by (intro Cons.IH) (simp_all only: dom)
  then show ?case
    unfolding dom by (auto simp: op upd)
qed

text \<open>Without a condition on the room: an update of a new key beyond the capacity is dropped.\<close>

lemma look_upd_bounded:
  assumes "wf h"
  shows "look (upd a k h) = (if k \<in> dom (look h) \<or> card (dom (look h)) < cap
    then (look h)(k \<mapsto> step a (case look h k of None \<Rightarrow> fresh k | Some v \<Rightarrow> v)) else look h)"
proof (cases "k \<in> dom (look h) \<or> card (dom (look h)) < cap")
  case True
  with look_upd [OF assms] show ?thesis by (simp only: if_True)
next
  case False
  then have "upd a k h = h" by (intro upd_full [OF assms]) simp_all
  with False show ?thesis by (simp only: if_False)
qed

lemma look_upd_all_bounded:
  "wf h \<Longrightarrow> look (fold (\<lambda>(a, k). upd a k) ops h) = fold (\<lambda>(a, k) m. if k \<in> dom m \<or> card (dom m) < cap
     then m(k \<mapsto> step a (case m k of None \<Rightarrow> fresh k | Some v \<Rightarrow> v)) else m) ops (look h)"
  by (induction ops arbitrary: h) (auto simp: wf_upd look_upd_bounded)

end

subsection \<open>Linear probing implements it\<close>

definition chained :: "advisor_state \<Rightarrow> bool" where
  "chained st \<longleftrightarrow>
     (\<forall>d<ADVISOR_HASH_SIZE. \<forall>key. hash_used st (slot_at (key_hash key) d) \<and>
        cs_key (hash_slots st (slot_at (key_hash key) d)) = key \<longrightarrow>
        (\<forall>k<d. hash_used st (slot_at (key_hash key) k)))"

definition distinct_keys :: "advisor_state \<Rightarrow> bool" where
  "distinct_keys st \<longleftrightarrow>
     (\<forall>i<ADVISOR_HASH_SIZE. \<forall>j<ADVISOR_HASH_SIZE. hash_used st i \<and> hash_used st j \<and>
        cs_key (hash_slots st i) = cs_key (hash_slots st j) \<longrightarrow> i = j)"

definition wf_table :: "advisor_state \<Rightarrow> bool" where
  "wf_table st \<longleftrightarrow> chained st \<and> distinct_keys st"

definition lookup :: "advisor_state \<Rightarrow> ColStatsKey \<Rightarrow> ColStatsEntry option" where
  "lookup st key =
     (case probe st key of
        Some i \<Rightarrow> if hash_used st i then Some (hash_slots st i) else None
      | None \<Rightarrow> None)"

definition put_slot :: "nat \<Rightarrow> ColStatsEntry \<Rightarrow> advisor_state \<Rightarrow> advisor_state" where
  "put_slot i cs st = st
     \<lparr>hash_used := (hash_used st)(i := True), hash_slots := (hash_slots st)(i := cs)\<rparr>"

lemma probe_Some:
  assumes "probe st key = Some i"
  obtains d where "d < ADVISOR_HASH_SIZE" and "i = slot_at (key_hash key) d"
    and "probe_stop st key i"
    and "\<forall>k<d. \<not> probe_stop st key (slot_at (key_hash key) k)"
proof -
  from assms obtain d where "d < ADVISOR_HASH_SIZE" "slot_at (key_hash key) d = i"
      "probe_stop st key i" "\<forall>k<d. \<not> probe_stop st key (slot_at (key_hash key) k)"
    by (auto simp: probe_def find_Some_iff)
  with that show thesis by blast
qed

lemma probe_Some_bound: "probe st key = Some i \<Longrightarrow> i < ADVISOR_HASH_SIZE"
  by (auto elim: probe_Some)

lemma probe_None:
  "probe st key = None \<longleftrightarrow>
     (\<forall>i<ADVISOR_HASH_SIZE. hash_used st i \<and> cs_key (hash_slots st i) \<noteq> key)"
proof -
  have "probe st key = None \<longleftrightarrow>
      (\<forall>d<ADVISOR_HASH_SIZE. \<not> probe_stop st key (slot_at (key_hash key) d))"
    by (auto simp: probe_def find_None_iff)
  also have "\<dots> \<longleftrightarrow> (\<forall>i<ADVISOR_HASH_SIZE. \<not> probe_stop st key i)"
    by (metis key_hash_bound slot_at_bound slot_at_surj)
  finally show ?thesis by (auto simp: probe_stop_def)
qed

text \<open>In a chained table a stored key is found where it is.\<close>

lemma probe_stored:
  assumes wf: "wf_table st" and i: "i < ADVISOR_HASH_SIZE" "hash_used st i" "cs_key (hash_slots st i) = key"
  shows "probe st key = Some i"
proof (cases "probe st key")
  case None
  with i show ?thesis by (auto simp: probe_None)
next
  case (Some j)
  obtain d where d: "d < ADVISOR_HASH_SIZE" "j = slot_at (key_hash key) d" "probe_stop st key j"
      "\<forall>k<d. \<not> probe_stop st key (slot_at (key_hash key) k)"
    by (rule probe_Some [OF Some])
  obtain e where e: "e < ADVISOR_HASH_SIZE" "i = slot_at (key_hash key) e"
    using slot_at_surj [OF i(1) key_hash_bound] .
  have "hash_used st j"
  proof (cases "d < e")
    case True
    with wf e i show ?thesis by (auto simp: wf_table_def chained_def d(2))
  next
    case False
    moreover have "\<not> e < d" using d(4) i e by (auto simp: probe_stop_def)
    ultimately show ?thesis using i e d by simp
  qed
  with d(3) have "cs_key (hash_slots st j) = key" by (simp add: probe_stop_def)
  with wf i Some \<open>hash_used st j\<close> probe_Some_bound [OF Some] have "i = j"
    by (auto simp: wf_table_def distinct_keys_def)
  with Some show ?thesis by simp
qed

lemma lookup_iff:
  assumes "wf_table st"
  shows "lookup st key = Some cs \<longleftrightarrow>
    (\<exists>i<ADVISOR_HASH_SIZE. hash_used st i \<and> cs_key (hash_slots st i) = key \<and> hash_slots st i = cs)"
proof
  assume "lookup st key = Some cs"
  then obtain i where i: "probe st key = Some i" "hash_used st i" "hash_slots st i = cs"
    by (auto simp: lookup_def split: option.splits if_splits)
  moreover from i(1) have "i < ADVISOR_HASH_SIZE" "probe_stop st key i"
    by (auto elim: probe_Some)
  ultimately show "\<exists>i<ADVISOR_HASH_SIZE. hash_used st i \<and> cs_key (hash_slots st i) = key \<and> hash_slots st i = cs"
    by (auto simp: probe_stop_def)
next
  assume "\<exists>i<ADVISOR_HASH_SIZE. hash_used st i \<and> cs_key (hash_slots st i) = key \<and> hash_slots st i = cs"
  then show "lookup st key = Some cs"
    using probe_stored [OF assms] by (auto simp: lookup_def)
qed

text \<open>Writing the probed slot updates the map at its key.\<close>

lemma wf_put_slot:
  assumes wf: "wf_table st" and p: "probe st key = Some i" and cs: "cs_key cs = key"
  shows "wf_table (put_slot i cs st)" (is "wf_table ?st'")
proof -
  obtain d where d: "d < ADVISOR_HASH_SIZE" "i = slot_at (key_hash key) d" "probe_stop st key i"
      "\<forall>k<d. \<not> probe_stop st key (slot_at (key_hash key) k)"
    by (rule probe_Some [OF p])
  have grow: "hash_used ?st' j" if "hash_used st j" for j
    using that by (simp add: put_slot_def)
  have "chained ?st'"
    unfolding chained_def
  proof (intro allI impI)
    fix e key' k
    assume e: "e < ADVISOR_HASH_SIZE" and k: "k < e"
      and u: "hash_used ?st' (slot_at (key_hash key') e) \<and>
              cs_key (hash_slots ?st' (slot_at (key_hash key') e)) = key'"
    show "hash_used ?st' (slot_at (key_hash key') k)"
    proof (cases "slot_at (key_hash key') e = i")
      case True
      with u cs have "key' = key" by (simp add: put_slot_def)
      with True d(1,2) e have "e = d" by (intro slot_at_inj [of "key_hash key" e d]) simp_all
      with k d(4) have "\<not> probe_stop st key (slot_at (key_hash key) k)" by blast
      then show ?thesis unfolding \<open>key' = key\<close> probe_stop_def by (intro grow) simp
    next
      case False
      with u have "hash_used st (slot_at (key_hash key') e)"
          "cs_key (hash_slots st (slot_at (key_hash key') e)) = key'"
        by (simp_all add: put_slot_def)
      with wf e k show ?thesis unfolding wf_table_def chained_def by (intro grow) blast
    qed
  qed
  moreover have "distinct_keys ?st'"
  proof -
    have only: "j = i" if "j < ADVISOR_HASH_SIZE" "hash_used st j" "cs_key (hash_slots st j) = key" for j
      using probe_stored [OF wf that] p by simp
    show ?thesis
      unfolding distinct_keys_def
    proof (intro allI impI)
      fix a b
      assume ab: "a < ADVISOR_HASH_SIZE" "b < ADVISOR_HASH_SIZE"
        and u: "hash_used ?st' a \<and> hash_used ?st' b \<and>
          cs_key (hash_slots ?st' a) = cs_key (hash_slots ?st' b)"
      consider "a = i" "b = i" | "a = i" "b \<noteq> i" | "a \<noteq> i" "b = i" | "a \<noteq> i" "b \<noteq> i" by blast
      then show "a = b"
      proof cases
        case 2
        with u cs have "hash_used st b" "cs_key (hash_slots st b) = key" by (simp_all add: put_slot_def)
        with 2 only [OF ab(2)] show ?thesis by simp
      next
        case 3
        with u cs have "hash_used st a" "cs_key (hash_slots st a) = key" by (simp_all add: put_slot_def)
        with 3 only [OF ab(1)] show ?thesis by simp
      next
        case 4
        with u have "hash_used st a \<and> hash_used st b \<and>
            cs_key (hash_slots st a) = cs_key (hash_slots st b)"
          by (simp add: put_slot_def)
        with wf ab show ?thesis unfolding wf_table_def distinct_keys_def by blast
      qed simp
    qed
  qed
  ultimately show ?thesis by (simp add: wf_table_def)
qed

lemma lookup_put_slot:
  assumes wf: "wf_table st" and p: "probe st key = Some i" and cs: "cs_key cs = key"
  shows "lookup (put_slot i cs st) = (lookup st)(key \<mapsto> cs)"
proof
  fix key'
  note wf' = wf_put_slot [OF wf p cs]
  have i: "i < ADVISOR_HASH_SIZE" "probe_stop st key i"
    using p by (auto elim: probe_Some)
  show "lookup (put_slot i cs st) key' = ((lookup st)(key \<mapsto> cs)) key'"
  proof (cases "key' = key")
    case True
    have "lookup (put_slot i cs st) key = Some cs"
      unfolding lookup_iff [OF wf'] using i cs by (auto simp: put_slot_def)
    with True show ?thesis by simp
  next
    case False
    have "lookup (put_slot i cs st) key' = Some c \<longleftrightarrow> lookup st key' = Some c" for c
      unfolding lookup_iff [OF wf'] lookup_iff [OF wf]
      using i cs False by (auto simp: put_slot_def probe_stop_def)
    then have "lookup (put_slot i cs st) key' = lookup st key'"
      by (metis option.exhaust)
    with False show ?thesis by simp
  qed
qed

definition fresh_stats :: "ColStatsKey \<Rightarrow> ColStatsEntry" where
  "fresh_stats key = zero_cs\<lparr>cs_key := key\<rparr>"

definition accumulate_key :: "real \<times> TimestampTz \<Rightarrow> ColStatsKey \<Rightarrow> advisor_state \<Rightarrow> advisor_state" where
  "accumulate_key ct key =
     accumulate_column (fst ct) (snd ct) (key_usage key) (key_relid key, key_attnum key)"

lemma accumulate_key_probe:
  "accumulate_key ct key st =
     (case probe st key of
        None \<Rightarrow> st
      | Some i \<Rightarrow> put_slot i (bump_stats (fst ct) (snd ct)
                    (if hash_used st i then hash_slots st i else fresh_stats key)) st)"
  by (auto simp: accumulate_key_def accumulate_column_def find_or_create_probe found_def
      put_slot_def claim_slot_def fresh_stats_def fun_upd_idem split: option.splits)

lemma cs_key_bump [simp]: "cs_key (bump_stats c t cs) = cs_key cs"
  by (simp add: bump_stats_def)

lemma cs_key_fresh [simp]: "cs_key (fresh_stats key) = key"
  by (simp add: fresh_stats_def)

lemma probe_hit_key:
  "probe st key = Some i \<Longrightarrow> hash_used st i \<Longrightarrow> cs_key (hash_slots st i) = key"
  by (auto simp: probe_stop_def elim!: probe_Some)

text \<open>A table whose 2048 slots are in use holds 2048 distinct keys.\<close>

lemma dom_lookup:
  assumes "wf_table st"
  shows "dom (lookup st) =
    (\<lambda>i. cs_key (hash_slots st i)) ` {i. i < ADVISOR_HASH_SIZE \<and> hash_used st i}"
  using lookup_iff [OF assms] by (auto simp: dom_def)

lemma card_dom_lookup:
  assumes "wf_table st"
  shows "card (dom (lookup st)) = card {i. i < ADVISOR_HASH_SIZE \<and> hash_used st i}"
  unfolding dom_lookup [OF assms]
  using assms by (intro card_image) (auto simp: wf_table_def distinct_keys_def inj_on_def)

lemma probe_None_full:
  assumes wf: "wf_table st"
  shows "probe st key = None \<longleftrightarrow>
    key \<notin> dom (lookup st) \<and> ADVISOR_HASH_SIZE \<le> card (dom (lookup st))"
proof -
  have "(\<forall>i<ADVISOR_HASH_SIZE. hash_used st i) \<longleftrightarrow>
      ADVISOR_HASH_SIZE \<le> card {i. i < ADVISOR_HASH_SIZE \<and> hash_used st i}" (is "?all \<longleftrightarrow> ?card")
  proof
    assume ?all
    then have "{i. i < ADVISOR_HASH_SIZE \<and> hash_used st i} = {..<ADVISOR_HASH_SIZE}" by auto
    then show ?card by simp
  next
    assume ?card
    then have "{i. i < ADVISOR_HASH_SIZE \<and> hash_used st i} = {..<ADVISOR_HASH_SIZE}"
      by (intro card_seteq) auto
    then show ?all by auto
  qed
  moreover have "key \<notin> dom (lookup st) \<longleftrightarrow>
      (\<forall>i<ADVISOR_HASH_SIZE. hash_used st i \<longrightarrow> cs_key (hash_slots st i) \<noteq> key)"
    by (auto simp: dom_lookup [OF wf])
  ultimately show ?thesis
    unfolding probe_None card_dom_lookup [OF wf] by blast
qed

interpretation table: keyed_stats wf_table lookup ADVISOR_HASH_SIZE accumulate_key
  "\<lambda>ct. bump_stats (fst ct) (snd ct)" fresh_stats
proof unfold_locales
  fix st :: advisor_state and ct key
  assume wf: "wf_table st"
  show "wf_table (accumulate_key ct key st)"
    using wf by (auto simp: accumulate_key_probe wf_put_slot probe_hit_key split: option.splits)
  show "finite (dom (lookup st))"
    unfolding dom_lookup [OF wf] by simp
  show "accumulate_key ct key st = st"
    if "key \<notin> dom (lookup st)" "ADVISOR_HASH_SIZE \<le> card (dom (lookup st))"
    using that probe_None_full [OF wf, of key] by (simp add: accumulate_key_probe)
  show "lookup (accumulate_key ct key st) = (lookup st)(key \<mapsto> bump_stats (fst ct) (snd ct)
      (case lookup st key of None \<Rightarrow> fresh_stats key | Some cs \<Rightarrow> cs))"
    if room: "key \<in> dom (lookup st) \<or> card (dom (lookup st)) < ADVISOR_HASH_SIZE"
  proof -
    from room probe_None_full [OF wf, of key] obtain i where i: "probe st key = Some i"
      by (cases "probe st key") auto
    then show ?thesis
      using lookup_put_slot [OF wf i] probe_hit_key [OF i]
      by (simp add: accumulate_key_probe lookup_def)
  qed
qed

text \<open>A recorded use, on the table as a map: it is dropped if its column is new and the table full.\<close>

definition record_use ::
  "real \<times> TimestampTz \<Rightarrow> ColStatsKey \<Rightarrow> (ColStatsKey \<rightharpoonup> ColStatsEntry) \<Rightarrow> (ColStatsKey \<rightharpoonup> ColStatsEntry)" where
  "record_use ct key m =
     (if key \<in> dom m \<or> card (dom m) < ADVISOR_HASH_SIZE
      then m(key \<mapsto> bump_stats (fst ct) (snd ct) (case m key of None \<Rightarrow> fresh_stats key | Some cs \<Rightarrow> cs))
      else m)"

lemma lookup_records:
  "wf_table st \<Longrightarrow> lookup (fold (\<lambda>(a, k). accumulate_key a k) ops st) = fold (\<lambda>(a, k). record_use a k) ops (lookup st)"
  using table.look_upd_all_bounded [of st ops] by (simp add: record_use_def [abs_def])

subsection \<open>Eviction\<close>

definition evicts :: "TimestampTz \<Rightarrow> int64 \<Rightarrow> advisor_state \<Rightarrow> nat \<Rightarrow> bool" where
  "evicts now max_age st i \<longleftrightarrow> hash_used st i \<and> is_stale now max_age (hash_slots st i)"

lemma evict_slot_apply:
  "evict_slot now max_age i (st, c) =
     (if evicts now max_age st i then (clear_slot i st, Suc c) else (st, c))"
  by (simp add: evict_slot_def evicts_def)

definition evict_upto :: "TimestampTz \<Rightarrow> int64 \<Rightarrow> nat \<Rightarrow> advisor_state \<Rightarrow> advisor_state" where
  "evict_upto now max_age n st = st
     \<lparr>hash_used := (\<lambda>i. hash_used st i \<and> \<not> (i < n \<and> evicts now max_age st i)),
      hash_slots := (\<lambda>i. if i < n \<and> evicts now max_age st i then zero_cs else hash_slots st i)\<rparr>"

lemma evict_upto_Suc:
  "evict_upto now max_age (Suc n) st =
     (if evicts now max_age st n then clear_slot n (evict_upto now max_age n st)
      else evict_upto now max_age n st)"
  by (rule advisor_state.equality)
    (auto simp: evict_upto_def clear_slot_def fun_eq_iff less_Suc_eq)

lemma evict_fold:
  "fold (evict_slot now max_age) [0..<n] (st, 0) =
     (evict_upto now max_age n st, card {i. i < n \<and> evicts now max_age st i})"
proof (induction n)
  case 0
  then show ?case by (simp add: evict_upto_def)
next
  case (Suc n)
  have split: "{i. i < Suc n \<and> evicts now max_age st i} =
      (if evicts now max_age st n then insert n {i. i < n \<and> evicts now max_age st i}
       else {i. i < n \<and> evicts now max_age st i})"
    by (auto simp: less_Suc_eq)
  have "card {i. i < Suc n \<and> evicts now max_age st i} =
      (if evicts now max_age st n then Suc (card {i. i < n \<and> evicts now max_age st i})
       else card {i. i < n \<and> evicts now max_age st i})"
    unfolding split by simp
  moreover have "evicts now max_age (evict_upto now max_age n st) n = evicts now max_age st n"
    by (simp add: evicts_def evict_upto_def)
  ultimately show ?case
    by (simp add: Suc.IH evict_slot_apply evict_upto_Suc)
qed

lemma evict_stale_spec:
  "advisor_hash_evict_stale now days st =
     (let max_age = scast days * USECS_PER_DAY;
          gone = (\<lambda>i. i < ADVISOR_HASH_SIZE \<and> evicts now max_age st i)
      in (st\<lparr>hash_used := (\<lambda>i. hash_used st i \<and> \<not> gone i),
             hash_slots := (\<lambda>i. if gone i then zero_cs else hash_slots st i)\<rparr>,
          card {i. gone i}))"
  by (simp add: advisor_hash_evict_stale_def evict_fold evict_upto_def Let_def)

subsection \<open>Properties\<close>

text \<open>A hit or a free slot at the hash position, or one further on.\<close>

lemma probe_at:
  assumes "d < ADVISOR_HASH_SIZE" and "probe_stop st key (slot_at (key_hash key) d)"
    and "\<forall>k<d. \<not> probe_stop st key (slot_at (key_hash key) k)"
  shows "probe st key = Some (slot_at (key_hash key) d)"
  using assms by (auto simp: probe_def find_Some_iff intro!: exI [of _ d])

lemma wf_advisor_init: "wf_table advisor_init"
  by (simp add: wf_table_def chained_def distinct_keys_def advisor_init_def)

lemma lookup_init: "lookup advisor_init = Map.empty"
proof
  fix key
  show "lookup advisor_init key = None"
    using lookup_iff [OF wf_advisor_init, of key] by (cases "lookup advisor_init key") (auto simp: advisor_init_def)
qed

text \<open>
  C29: the probe loops terminate: whatever the table holds, chained or not, both
  the insertion and the removal return within 2048 turns.
\<close>

theorem probe_loops_return:
  "(\<exists>r. advisor_hash_find_or_create relid attnum utype st = Some r) \<and>
   (\<exists>st'. advisor_hash_remove relid attnum utype st = Some st')"
  using find_or_create_probe [of "\<lparr>key_relid = relid, key_attnum = attnum, key_usage = utype\<rparr>" st]
    hash_remove_probe [of "\<lparr>key_relid = relid, key_attnum = attnum, key_usage = utype\<rparr>" st]
  by simp

text \<open>
  C10: on a well-formed table \<^verbatim>\<open>advisor_hash_find_or_create\<close> is a map lookup with
  default: it returns the slot of the key, creating a zeroed entry when the key
  is new, changes no other key, keeps the table well formed, and returns the
  null pointer exactly when the key is new and all 2048 slots are taken.
\<close>

theorem find_or_create_correct:
  assumes wf: "wf_table st" and key: "key = \<lparr>key_relid = relid, key_attnum = attnum, key_usage = utype\<rparr>"
  shows "\<exists>r st'. advisor_hash_find_or_create relid attnum utype st = Some (r, st') \<and> wf_table st' \<and>
    (case r of
       Some i \<Rightarrow> i < ADVISOR_HASH_SIZE \<and> hash_used st' i \<and>
         hash_slots st' i = (case lookup st key of None \<Rightarrow> fresh_stats key | Some cs \<Rightarrow> cs) \<and>
         lookup st' = (lookup st)(key \<mapsto> hash_slots st' i)
     | None \<Rightarrow> st' = st \<and> key \<notin> dom (lookup st) \<and> card (dom (lookup st)) = ADVISOR_HASH_SIZE)"
proof (cases "probe st key")
  case None
  have "card (dom (lookup st)) \<le> ADVISOR_HASH_SIZE"
    unfolding card_dom_lookup [OF wf]
    using card_mono [of "{..<ADVISOR_HASH_SIZE}" "{i. i < ADVISOR_HASH_SIZE \<and> hash_used st i}"] by auto
  with None wf probe_None_full [OF wf, of key] find_or_create_probe [of key st] key show ?thesis
    by (simp add: found_def)
next
  case (Some i)
  define cs where "cs = (if hash_used st i then hash_slots st i else fresh_stats key)"
  have cs_key: "cs_key cs = key" using probe_hit_key [OF Some] by (simp add: cs_def)
  have put: "snd (found st key (Some i)) = put_slot i cs st"
    by (simp add: found_def put_slot_def claim_slot_def cs_def fresh_stats_def fun_upd_idem)
  have "advisor_hash_find_or_create relid attnum utype st = Some (Some i, put_slot i cs st)"
    using find_or_create_probe [of key st] key Some put by (simp add: found_def)
  moreover have "hash_slots (put_slot i cs st) i = cs" "hash_used (put_slot i cs st) i"
    by (simp_all add: put_slot_def)
  moreover have "cs = (case lookup st key of None \<Rightarrow> fresh_stats key | Some cs \<Rightarrow> cs)"
    using Some by (simp add: lookup_def cs_def)
  ultimately show ?thesis
    using wf_put_slot [OF wf Some cs_key] lookup_put_slot [OF wf Some cs_key] probe_Some_bound [OF Some]
    by simp
qed

theorem find_or_create_correct_witness:
  "\<exists>i st'. advisor_hash_find_or_create 16384 2 USAGE_PREDICATE advisor_init = Some (Some i, st') \<and>
     wf_table st' \<and> exec_count (hash_slots st' i) = 0"
  using find_or_create_correct [OF wf_advisor_init refl, of 16384 2 USAGE_PREDICATE]
  by (auto simp: lookup_init fresh_stats_def zero_cs_def ADVISOR_HASH_SIZE_def split: option.splits)

text \<open>
  C28: eviction clears exactly the used slots whose last observation is set and
  older than the window, zeroes them, reports their number, and leaves every
  other slot unchanged.
\<close>

theorem evict_stale_exact:
  assumes "i < ADVISOR_HASH_SIZE"
  shows "let (st', n) = advisor_hash_evict_stale now days st;
             gone = (\<lambda>j. hash_used st j \<and> last_seen (hash_slots st j) \<noteq> 0 \<and>
                sint (scast days * USECS_PER_DAY :: int64) < sint (now - last_seen (hash_slots st j)))
         in hash_used st' i = (hash_used st i \<and> \<not> gone i) \<and>
            hash_slots st' i = (if gone i then zero_cs else hash_slots st i) \<and>
            n = card {j. j < ADVISOR_HASH_SIZE \<and> gone j}"
  using assms by (simp add: evict_stale_spec evicts_def is_stale_def Let_def)

theorem evict_stale_exact_witness:
  "snd (advisor_hash_evict_stale 0 3 advisor_init) = 0"
  using evict_stale_exact [of 0 0 3 advisor_init]
  by (simp add: Let_def case_prod_beta advisor_init_def ADVISOR_HASH_SIZE_def)

text \<open>Column 32 of one table and column 1 of the next one collide.\<close>

lemma key_hash_low: "key_hash \<lparr>key_relid = 16384, key_attnum = 32, key_usage = USAGE_PREDICATE\<rparr> = 1104"
  by (simp add: key_hash_def advisor_hash_fn_def hash_mask_2047)
lemma key_hash_high: "key_hash \<lparr>key_relid = 16385, key_attnum = 1, key_usage = USAGE_PREDICATE\<rparr> = 1104"
  by (simp add: key_hash_def advisor_hash_fn_def hash_mask_2047)

lemma probe_home:
  "probe_stop st key (key_hash key) \<Longrightarrow> probe st key = Some (key_hash key)"
  using probe_at [of 0 st key] slot_at_0 [OF key_hash_bound, of key] by (simp add: ADVISOR_HASH_SIZE_def)

lemma probe_next:
  "\<not> probe_stop st key (key_hash key) \<Longrightarrow> probe_stop st key (Suc (key_hash key) mod ADVISOR_HASH_SIZE) \<Longrightarrow>
     probe st key = Some (Suc (key_hash key) mod ADVISOR_HASH_SIZE)"
  using probe_at [of 1 st key] slot_at_0 [OF key_hash_bound, of key] by (simp add: slot_at_def ADVISOR_HASH_SIZE_def)

text \<open>
  C36: removal does not keep the table well formed. \<^verbatim>\<open>advisor_hash_remove\<close> clears
  its slot without moving later entries of the chain up, so a colliding column
  that is still tracked is no longer found: its next observation creates a
  second entry, and its statistics are split over the two.
\<close>

theorem removal_splits_statistics:
  "\<exists>st st' i j.
     advisor_hash_remove 16384 32 USAGE_PREDICATE
       (accumulate_column 10 1 USAGE_PREDICATE (16385, 1)
         (accumulate_column 10 1 USAGE_PREDICATE (16384, 32) advisor_init)) = Some st \<and>
     st' = accumulate_column 10 2 USAGE_PREDICATE (16385, 1) st \<and>
     i \<noteq> j \<and> hash_used st' i \<and> hash_used st' j \<and>
     cs_key (hash_slots st' i) = cs_key (hash_slots st' j) \<and>
     exec_count (hash_slots st' i) = 1 \<and> exec_count (hash_slots st' j) = 1"
proof -
  let ?k1 = "\<lparr>key_relid = 16384, key_attnum = 32, key_usage = USAGE_PREDICATE\<rparr>"
  let ?k2 = "\<lparr>key_relid = 16385, key_attnum = 1, key_usage = USAGE_PREDICATE\<rparr>"
  let ?cs = "\<lambda>k t. bump_stats 10 t (fresh_stats k)"
  note step = accumulate_key_probe [unfolded accumulate_key_def]
  note unf = put_slot_def clear_slot_def advisor_init_def probe_stop_def key_hash_low key_hash_high ADVISOR_HASH_SIZE_def
  define s1 where "s1 = put_slot 1104 (?cs ?k1 1) advisor_init"
  define s2 where "s2 = put_slot 1105 (?cs ?k2 1) s1"
  define s3 where "s3 = clear_slot 1104 s2"
  define s4 where "s4 = put_slot 1104 (?cs ?k2 2) s3"
  have "accumulate_column 10 1 USAGE_PREDICATE (16384, 32) advisor_init = s1"
    using step [of "(10, 1)" ?k1 advisor_init] probe_home [of advisor_init ?k1]
    by (simp add: s1_def unf)
  moreover have "accumulate_column 10 1 USAGE_PREDICATE (16385, 1) s1 = s2"
    using step [of "(10, 1)" ?k2 s1] probe_next [of s1 ?k2] by (simp add: s1_def s2_def unf)
  moreover have "advisor_hash_remove 16384 32 USAGE_PREDICATE s2 = Some s3"
    using hash_remove_probe [of ?k1 s2] probe_home [of s2 ?k1]
    by (simp add: s1_def s2_def s3_def unf removed_def)
  moreover have "accumulate_column 10 2 USAGE_PREDICATE (16385, 1) s3 = s4"
    using step [of "(10, 2)" ?k2 s3] probe_home [of s3 ?k2]
    by (simp add: s1_def s2_def s3_def s4_def unf)
  moreover have "hash_used s4 1104 \<and> hash_used s4 1105 \<and>
     cs_key (hash_slots s4 1104) = cs_key (hash_slots s4 1105) \<and>
     exec_count (hash_slots s4 1104) = 1 \<and> exec_count (hash_slots s4 1105) = 1"
    by (simp add: s1_def s2_def s3_def s4_def unf bump_stats_def fresh_stats_def zero_cs_def)
  ultimately show ?thesis
    by (intro exI [of _ s3] exI [of _ s4] exI [of _ 1104] exI [of _ 1105]) simp
qed
end
