(* ===== verification/Like.thy ===== *)
theory Like
  imports Prelude "HOL-Library.Sublist"
begin

section \<open>The LIKE operator (like.c, like_match.c)\<close>

text \<open>
  The pattern matcher behind \<open>relname LIKE 'autoindex_%'\<close>, by which the advisor
  counts and the lifecycle pass finds the indexes that AutoIndex made. The
  sources compile \<^verbatim>\<open>like_match.c\<close> several times with different macros; the
  instances for single-byte encodings, for UTF-8 and for case folding in the
  C locale are the values of \<open>like_mode\<close>. A string with its remaining length is a
  \<^typ>\<open>string\<close>. A nondeterministic collation is given by its comparison function
  (\<open>pg_strncoll\<close>), a deterministic one by \<^const>\<open>None\<close>.
\<close>

datatype like_result = LIKE_TRUE | LIKE_FALSE | LIKE_ABORT

datatype like_mode = SB | C_I | UTF8

definition char_code :: "char \<Rightarrow> nat" where
  "char_code c = of_char c"

text \<open>\<open>(*(p) & 0xC0) == 0x80\<close>.\<close>

definition utf8_continuation :: "char \<Rightarrow> bool" where
  "utf8_continuation c \<longleftrightarrow> 128 \<le> char_code c \<and> char_code c < 192"

definition pg_ascii_tolower :: "char \<Rightarrow> char" where
  "pg_ascii_tolower c =
     (if 65 \<le> char_code c \<and> char_code c \<le> 90 then char_of (char_code c + 32) else c)"

fun GETCHAR :: "like_mode \<Rightarrow> char \<Rightarrow> char" where
  "GETCHAR C_I c = pg_ascii_tolower c"
| "GETCHAR _ c = c"

fun NextChar :: "like_mode \<Rightarrow> string \<Rightarrow> string" where
  "NextChar UTF8 t = dropWhile utf8_continuation (tl t)"
| "NextChar _ t = tl t"

lemma NextChar_shorter: "t \<noteq> [] \<Longrightarrow> length (NextChar m t) < length t"
  by (cases m) (auto simp: neq_Nil_conv less_Suc_eq_le length_dropWhile_le)

definition escape_error :: pg_error where
  "escape_error = PgError ''LIKE pattern must not end with escape character''"

text \<open>Skipping the wildcards behind a \<open>%\<close>: \<^const>\<open>None\<close> when the text is too short.\<close>

fun skip_wildcards :: "like_mode \<Rightarrow> string \<Rightarrow> string \<Rightarrow> (string \<times> string) option" where
  "skip_wildcards m t [] = Some (t, [])"
| "skip_wildcards m t (c # p) =
     (if c = CHR ''%'' then skip_wildcards m t p
      else if c = CHR ''_'' then
        (if t = [] then None else skip_wildcards m (NextChar m t) p)
      else Some (t, c # p))"

text \<open>
  For a nondeterministic collation: the unescaped wildcard-free start of the
  pattern, and the rest of it.
\<close>

fun next_subpattern :: "string \<Rightarrow> (string \<times> string) result" where
  "next_subpattern [] = Inr ([], [])"
| "next_subpattern (c # p) =
     (if c = CHR 0x5C then
        (case p of
           [] \<Rightarrow> Inl escape_error
         | d # p' \<Rightarrow>
             bind_res (next_subpattern p')
               (\<lambda>(s, r). Inr (if d = CHR 0x5C then s else d # s, r)))
      else if c = CHR ''_'' \<or> c = CHR ''%'' then Inr ([], c # p)
      else bind_res (next_subpattern p) (\<lambda>(s, r). Inr (c # s, r)))"

text \<open>The first byte the rest of the pattern must match.\<close>

definition first_pattern :: "like_mode \<Rightarrow> string \<Rightarrow> char result" where
  "first_pattern m p =
     (if hd p = CHR 0x5C then
        (if length p < 2 then Inl escape_error else Inr (GETCHAR m (p ! 1)))
      else Inr (GETCHAR m (hd p)))"

lemma skip_wildcards_shorter:
  "skip_wildcards m t p = Some (t', p') \<Longrightarrow> length t' \<le> length t \<and> length p' \<le> length p"
proof (induction m t p rule: skip_wildcards.induct)
  case (2 m t c p)
  then show ?case using NextChar_shorter [of t m] by (auto split: if_splits)
qed simp

lemma next_subpattern_shorter: "next_subpattern p = Inr (s, r) \<Longrightarrow> length r \<le> length p"
proof (induction p arbitrary: s r rule: next_subpattern.induct)
  case (2 c p)
  consider (esc) "c = CHR 0x5C" | (wild) "c \<noteq> CHR 0x5C" "c = CHR ''_'' \<or> c = CHR ''%''"
    | (lit) "c \<noteq> CHR 0x5C" "c \<noteq> CHR ''_''" "c \<noteq> CHR ''%''" by blast
  then show ?case
  proof cases
    case esc
    with "2.prems" obtain d p' s' where p: "p = d # p'" "next_subpattern p' = Inr (s', r)"
      by (auto simp: bind_res_Inr split: list.splits)
    with "2.IH"(1) [OF esc p] show ?thesis by simp
  next
    case wild
    with "2.prems" show ?thesis by simp
  next
    case lit
    with "2.prems" obtain s' where "next_subpattern p = Inr (s', r)"
      by (auto simp: bind_res_Inr)
    with "2.IH"(2) lit show ?thesis by fastforce
  qed
qed simp

lemma NextChar_Cons: "length (NextChar m (x # t)) \<le> length t"
  using NextChar_shorter [of "x # t" m] by simp

text \<open>At the end of the text: the rest of the pattern must be able to match nothing.\<close>

definition match_end :: "string \<Rightarrow> like_result" where
  "match_end p = (if dropWhile (\<lambda>c. c = CHR ''%'') p = [] then LIKE_TRUE else LIKE_ABORT)"

text \<open>
  \<^verbatim>\<open>MatchText\<close>: the fast path and the stack check are in \<open>MatchText\<close>, the byte loop
  is \<open>match_loop\<close>, the search behind a \<open>%\<close> is \<open>percent_scan\<close>, and the search for a
  matching piece of text under a nondeterministic collation is \<open>collation_scan\<close>.
\<close>

function (sequential)
  MatchText :: "like_mode \<Rightarrow> (string \<Rightarrow> string \<Rightarrow> int) option \<Rightarrow> string \<Rightarrow> string \<Rightarrow> like_result result"
and match_loop :: "like_mode \<Rightarrow> (string \<Rightarrow> string \<Rightarrow> int) option \<Rightarrow> string \<Rightarrow> string \<Rightarrow> like_result result"
and percent_scan ::
  "like_mode \<Rightarrow> (string \<Rightarrow> string \<Rightarrow> int) option \<Rightarrow> char \<Rightarrow> string \<Rightarrow> string \<Rightarrow> like_result result"
and collation_scan ::
  "like_mode \<Rightarrow> (string \<Rightarrow> string \<Rightarrow> int) \<Rightarrow> string \<Rightarrow> string \<Rightarrow> string \<Rightarrow> string \<Rightarrow> like_result result"
where
  "MatchText m loc t p = (if p = ''%'' then Inr LIKE_TRUE else match_loop m loc t p)"
| "match_loop m loc (x # t) (c # p) =
     (if c = CHR 0x5C then
        (case p of
           [] \<Rightarrow> Inl escape_error
         | d # p' \<Rightarrow>
             if GETCHAR m d \<noteq> GETCHAR m x then Inr LIKE_FALSE
             else match_loop m loc t p')
      else if c = CHR ''%'' then
        (case skip_wildcards m (x # t) p of
           None \<Rightarrow> Inr LIKE_ABORT
         | Some (t', p') \<Rightarrow>
             if p' = [] then Inr LIKE_TRUE
             else
               (case first_pattern m p' of
                  Inl err \<Rightarrow> Inl err
                | Inr firstpat \<Rightarrow> percent_scan m loc firstpat t' p'))
      else if c = CHR ''_'' then match_loop m loc (NextChar m (x # t)) p
      else
        (case loc of
           Some coll \<Rightarrow>
             (case next_subpattern (c # p) of
                Inl err \<Rightarrow> Inl err
              | Inr (subpat, p1) \<Rightarrow>
                  if p1 = [] then
                    Inr (if coll subpat (x # t) = 0 then LIKE_TRUE else LIKE_FALSE)
                  else collation_scan m coll subpat (x # t) (x # t) p1)
         | None \<Rightarrow>
             if GETCHAR m c \<noteq> GETCHAR m x then Inr LIKE_FALSE else match_loop m loc t p))"
| "match_loop m loc (x # t) [] = Inr LIKE_FALSE"
| "match_loop m loc [] p = Inr (match_end p)"
| "percent_scan m loc firstpat [] p = Inr LIKE_ABORT"
| "percent_scan m loc firstpat (x # t) p =
     (if GETCHAR m x = firstpat \<or> loc \<noteq> None then
        (case MatchText m loc (x # t) p of
           Inl err \<Rightarrow> Inl err
         | Inr matched \<Rightarrow>
             if matched \<noteq> LIKE_FALSE then Inr matched
             else percent_scan m loc firstpat (NextChar m (x # t)) p)
      else percent_scan m loc firstpat (NextChar m (x # t)) p)"
| "collation_scan m coll subpat t t1 p1 =
     (let rest = (if t1 = [] then Inr LIKE_FALSE
                  else collation_scan m coll subpat t (NextChar m t1) p1)
      in if coll subpat (take (length t - length t1) t) = 0 then
           (case MatchText m (Some coll) t1 p1 of
              Inl err \<Rightarrow> Inl err
            | Inr matched \<Rightarrow> if matched = LIKE_TRUE then Inr matched else rest)
         else rest)"
  by pat_completeness auto

termination
  apply (relation "measure (\<lambda>call. case call of
        Inl (Inl (m, loc, t, p)) \<Rightarrow> 4 * (length t + length p) + 1
      | Inl (Inr (m, loc, t, p)) \<Rightarrow> 4 * (length t + length p)
      | Inr (Inl (m, loc, f, t, p)) \<Rightarrow> 4 * (length t + length p) + 2
      | Inr (Inr (m, coll, s, t, t1, p)) \<Rightarrow> 4 * (length t1 + length p) + 2)")
               apply simp_all
  subgoal for m x t c p x2 t' p' by (auto dest!: skip_wildcards_shorter)
  subgoal for m x t using NextChar_Cons [of m x t] by simp
  subgoal for loc c p coll r s p1 using next_subpattern_shorter [of p "tl s" p1] by auto
  subgoal for m loc f x t using NextChar_Cons [of m x t] by simp
  subgoal for m f x t using NextChar_Cons [of m x t] by simp
  subgoal by (rule NextChar_shorter)
  done

text \<open>The operator on a \<open>name\<close> column, whose collation is deterministic.\<close>

definition namelike :: "like_mode \<Rightarrow> string \<Rightarrow> string \<Rightarrow> bool result" where
  "namelike m str pat = bind_res (MatchText m None str pat) (\<lambda>r. Inr (r = LIKE_TRUE))"

text \<open>The pattern of the advisor's and the lifecycle pass's queries.\<close>

definition autoindex_pattern :: string where
  "autoindex_pattern = ''autoindex_%''"

subsection \<open>What a pattern means\<close>

datatype pitem = Lit char | AnyChar | AnyString

fun parse_pattern :: "string \<Rightarrow> pitem list option" where
  "parse_pattern [] = Some []"
| "parse_pattern (c # p) =
     (if c = CHR 0x5C then
        (case p of [] \<Rightarrow> None | d # p' \<Rightarrow> map_option ((#) (Lit d)) (parse_pattern p'))
      else map_option ((#) (if c = CHR ''%'' then AnyString
                            else if c = CHR ''_'' then AnyChar else Lit c)) (parse_pattern p))"

primrec likes :: "(char \<Rightarrow> char) \<Rightarrow> pitem list \<Rightarrow> string \<Rightarrow> bool" where
  "likes f [] t \<longleftrightarrow> t = []"
| "likes f (i # ps) t \<longleftrightarrow>
     (case i of
        Lit d \<Rightarrow> (case t of [] \<Rightarrow> False | x # t' \<Rightarrow> f x = f d \<and> likes f ps t')
      | AnyChar \<Rightarrow> (case t of [] \<Rightarrow> False | x # t' \<Rightarrow> likes f ps t')
      | AnyString \<Rightarrow> list_ex (likes f ps) (suffixes t))"

text \<open>Texts in which a character is a byte.\<close>

definition byte_text :: "like_mode \<Rightarrow> string \<Rightarrow> bool" where
  "byte_text m t \<longleftrightarrow> m = UTF8 \<longrightarrow> (\<forall>c \<in> set t. \<not> utf8_continuation c)"

lemma likes_AnyString: "likes f (AnyString # ps) t \<longleftrightarrow> (\<exists>u. suffix u t \<and> likes f ps u)"
  by (auto simp: list_ex_iff)

declare likes.simps(2) [simp del]

lemma likes_simps [simp]:
  "likes f (Lit d # ps) [] = False" "likes f (AnyChar # ps) [] = False"
  "likes f (Lit d # ps) (x # t) \<longleftrightarrow> f x = f d \<and> likes f ps t"
  "likes f (AnyChar # ps) (x # t) \<longleftrightarrow> likes f ps t"
  by (simp_all add: likes.simps)

lemma likes_AnyString_suffix:
  "suffix u t \<Longrightarrow> likes f (AnyString # ps) u \<Longrightarrow> likes f (AnyString # ps) t"
  by (auto simp: likes_AnyString intro: suffix_order.trans)

lemma likes_AnyString_twice: "likes f (AnyString # AnyString # ps) t \<longleftrightarrow> likes f (AnyString # ps) t"
  by (auto simp: likes_AnyString intro: suffix_order.trans)

lemma likes_AnyString_AnyChar:
  assumes "t \<noteq> []"
  shows "likes f (AnyString # AnyChar # ps) t \<longleftrightarrow> likes f (AnyString # ps) (tl t)"
proof
  assume "likes f (AnyString # AnyChar # ps) t"
  then obtain y u where "suffix (y # u) t" "likes f ps u"
    by (auto simp: likes_AnyString) (metis likes_simps(2,4) list.exhaust)
  with assms show "likes f (AnyString # ps) (tl t)"
    by (cases t) (auto simp: likes_AnyString suffix_Cons dest: suffix_ConsD)
next
  assume "likes f (AnyString # ps) (tl t)"
  then obtain u pre where u: "tl t = pre @ u" "likes f ps u" by (auto simp: likes_AnyString suffix_def)
  define y where "y = last (hd t # pre)"
  have "t = butlast (hd t # pre) @ y # u"
    using assms u(1) by (cases t) (auto simp: y_def simp flip: append_butlast_last_id [of "hd t # pre"])
  then have "suffix (y # u) t" by (metis suffixI)
  with u(2) show "likes f (AnyString # AnyChar # ps) t"
    using likes_simps(4) by (auto simp: likes_AnyString simp del: likes_simps)
qed

lemma NextChar_byte: "byte_text m t \<Longrightarrow> NextChar m t = tl t"
  by (cases m; cases t) (auto simp: byte_text_def dropWhile_eq_self_iff)

lemma byte_text_tl: "byte_text m t \<Longrightarrow> byte_text m (tl t)"
  by (cases t) (auto simp: byte_text_def)

lemma byte_text_Cons: "byte_text m (x # t) \<Longrightarrow> byte_text m t"
  by (auto simp: byte_text_def)

subsection \<open>MatchText decides the meaning\<close>

text \<open>What each of the three answers says about text and pattern.\<close>

fun verdict :: "(char \<Rightarrow> char) \<Rightarrow> like_result \<Rightarrow> pitem list \<Rightarrow> string \<Rightarrow> bool" where
  "verdict f LIKE_TRUE ps t \<longleftrightarrow> likes f ps t"
| "verdict f LIKE_FALSE ps t \<longleftrightarrow> \<not> likes f ps t"
| "verdict f LIKE_ABORT ps t \<longleftrightarrow> (\<forall>u. suffix u t \<longrightarrow> \<not> likes f ps u)"

lemma likes_first:
  "likes f (Lit d # ps) u \<longleftrightarrow> (\<exists>y v. u = y # v \<and> f y = f d \<and> likes f ps v)"
  "likes f (AnyChar # ps) u \<longleftrightarrow> (\<exists>y v. u = y # v \<and> likes f ps v)"
  by (cases u; simp)+

lemma suffix_tails: "suffix (y # v) (x # t) \<Longrightarrow> suffix v t"
  by (auto simp: suffix_Cons dest: suffix_ConsD)

lemma verdict_Lit:
  assumes "f x = f d" and "verdict f r ps t"
  shows "verdict f r (Lit d # ps) (x # t)"
proof (cases r)
  case LIKE_ABORT
  with assms show ?thesis by (auto simp: likes_first dest: suffix_tails)
qed (use assms in simp_all)

lemma verdict_AnyChar:
  assumes "verdict f r ps t"
  shows "verdict f r (AnyChar # ps) (x # t)"
proof (cases r)
  case LIKE_ABORT
  with assms show ?thesis by (auto simp: likes_first dest: suffix_tails)
qed (use assms in simp_all)

lemma verdict_AnyString_abort:
  "(\<And>u. suffix u t \<Longrightarrow> \<not> likes f ps u) \<Longrightarrow> verdict f LIKE_ABORT (AnyString # ps) t"
  by (auto simp: likes_AnyString intro: suffix_order.trans)

lemma parse_pattern_Cons:
  assumes "parse_pattern (c # p) = Some ps"
  obtains (escaped) d p' ps' where "c = CHR 0x5C" "p = d # p'" "parse_pattern p' = Some ps'" "ps = Lit d # ps'"
  | (any_string) ps' where "c = CHR ''%''" "parse_pattern p = Some ps'" "ps = AnyString # ps'"
  | (any_char) ps' where "c = CHR ''_''" "parse_pattern p = Some ps'" "ps = AnyChar # ps'"
  | (literal) ps' where "c \<noteq> CHR 0x5C" "c \<noteq> CHR ''%''" "c \<noteq> CHR ''_''"
      "parse_pattern p = Some ps'" "ps = Lit c # ps'"
proof (cases "c = CHR 0x5C")
  case True
  with assms that(1) show thesis by (cases p) auto
next
  case False
  with assms that(2-) show thesis by (cases "c = CHR ''%''"; cases "c = CHR ''_''") auto
qed

lemma likes_empty_text:
  "parse_pattern p = Some ps \<Longrightarrow> likes f ps [] \<longleftrightarrow> dropWhile (\<lambda>c. c = CHR ''%'') p = []"
proof (induction p arbitrary: ps)
  case (Cons c p)
  from Cons.prems show ?case
  proof (cases rule: parse_pattern_Cons)
    case (any_string ps')
    with Cons.IH show ?thesis by (simp add: likes_AnyString)
  qed simp_all
qed simp

lemma skip_wildcards_abort:
  "skip_wildcards m t p = None \<Longrightarrow> byte_text m t \<Longrightarrow> parse_pattern p = Some ps \<Longrightarrow>
     \<not> likes f (AnyString # ps) t"
proof (induction m t p arbitrary: ps rule: skip_wildcards.induct)
  case (2 m t c p)
  consider "c = CHR ''%''" | "c = CHR ''_''" "t = []" | "c = CHR ''_''" "t \<noteq> []"
    using "2.prems"(1) by (auto split: if_splits)
  then show ?case
  proof cases
    case 1
    with "2.prems"(3) obtain ps' where "parse_pattern p = Some ps'" "ps = AnyString # ps'"
      by (auto elim: parse_pattern_Cons)
    with 1 "2.IH"(1) "2.prems" show ?thesis by (simp add: likes_AnyString_twice)
  next
    case 2
    with "2.prems"(3) obtain ps' where "ps = AnyChar # ps'" by (auto elim: parse_pattern_Cons)
    with 2 show ?thesis by (simp add: likes_AnyString)
  next
    case 3
    with "2.prems"(3) obtain ps' where "parse_pattern p = Some ps'" "ps = AnyChar # ps'"
      by (auto elim: parse_pattern_Cons)
    with 3 "2.IH"(2) "2.prems" show ?thesis
      by (simp add: likes_AnyString_AnyChar NextChar_byte byte_text_tl)
  qed
qed simp

lemma skip_wildcards_some:
  "skip_wildcards m t p = Some (t', p') \<Longrightarrow> byte_text m t \<Longrightarrow> parse_pattern p = Some ps \<Longrightarrow>
     \<exists>ps'. parse_pattern p' = Some ps' \<and> byte_text m t' \<and>
       (p' = [] \<or> hd p' \<noteq> CHR ''%'' \<and> hd p' \<noteq> CHR ''_'') \<and>
       (likes f (AnyString # ps) t \<longleftrightarrow> likes f (AnyString # ps') t')"
proof (induction m t p arbitrary: ps rule: skip_wildcards.induct)
  case (2 m t c p)
  consider "c = CHR ''%''" | "c = CHR ''_''" "t \<noteq> []" | "c \<noteq> CHR ''_''" "c \<noteq> CHR ''%''"
    using "2.prems"(1) by (auto split: if_splits)
  then show ?case
  proof cases
    case 1
    with "2.prems"(3) obtain ps' where "parse_pattern p = Some ps'" "ps = AnyString # ps'"
      by (auto elim: parse_pattern_Cons)
    with 1 "2.IH"(1) "2.prems" show ?thesis by (simp add: likes_AnyString_twice)
  next
    case 2
    with "2.prems"(3) obtain ps' where "parse_pattern p = Some ps'" "ps = AnyChar # ps'"
      by (auto elim: parse_pattern_Cons)
    with 2 "2.IH"(2) "2.prems" show ?thesis
      by (simp add: likes_AnyString_AnyChar NextChar_byte byte_text_tl)
  next
    case 3
    with "2.prems" have "t' = t" "p' = c # p" by simp_all
    with 3 "2.prems" show ?thesis by (simp del: parse_pattern.simps)
  qed
qed simp

definition decides :: "like_mode \<Rightarrow> string \<Rightarrow> string \<Rightarrow> like_result result \<Rightarrow> bool" where
  "decides m t p res \<longleftrightarrow>
     (byte_text m t \<longrightarrow> (\<forall>ps. parse_pattern p = Some ps \<longrightarrow> (\<exists>r. res = Inr r \<and> verdict (GETCHAR m) r ps t)))"

lemma decides_MatchText: "decides m t p (match_loop m None t p) \<Longrightarrow> decides m t p (MatchText m None t p)"
  by (auto simp: decides_def likes_AnyString)

lemma first_pattern_literal:
  assumes "parse_pattern p = Some ps" and "p \<noteq> []" and "hd p \<noteq> CHR ''%''" and "hd p \<noteq> CHR ''_''"
  shows "\<exists>d ps'. ps = Lit d # ps' \<and> first_pattern m p = Inr (GETCHAR m d)"
proof -
  obtain c p' where p: "p = c # p'" using assms(2) by (cases p) auto
  from assms(1) show ?thesis unfolding p
    by (cases rule: parse_pattern_Cons) (use assms p in \<open>auto simp: first_pattern_def\<close>)
qed

lemma percent_scan_decides:
  assumes match: "\<And>t. decides m t p (MatchText m None t p)"
    and p: "parse_pattern p = Some (Lit d # ps)" and "byte_text m t"
  shows "\<exists>r. percent_scan m None (GETCHAR m d) t p = Inr r \<and>
             verdict (GETCHAR m) r (AnyString # Lit d # ps) t"
  using assms(3)
proof (induction t)
  case Nil
  show ?case by (simp add: likes_AnyString)
next
  case (Cons x t)
  let ?f = "GETCHAR m" and ?ps = "Lit d # ps"
  from Cons obtain r where r: "percent_scan m None (?f d) t p = Inr r"
    "verdict ?f r (AnyString # ?ps) t" by (auto dest: byte_text_Cons)
  have next_t: "NextChar m (x # t) = t" using NextChar_byte [OF Cons.prems] by simp
  have later: "verdict ?f r (AnyString # ?ps) (x # t)" if "\<not> likes ?f ?ps (x # t)"
    using that r(2) by (cases r) (auto simp: likes_AnyString suffix_Cons simp del: likes_simps)
  from match [of "x # t"] Cons.prems p obtain r' where
    r': "MatchText m None (x # t) p = Inr r'" "verdict ?f r' ?ps (x # t)"
    by (auto simp: decides_def)
  show ?case
  proof (cases "?f x = ?f d")
    case True
    with r r' next_t later show ?thesis
      by (cases r') (auto simp: likes_AnyString simp del: likes_simps intro: suffix_order.trans)
  next
    case False
    with r next_t later show ?thesis by simp
  qed
qed

text \<open>The \<open>%\<close> branch of the loop, given that shorter patterns are decided.\<close>

lemma match_percent_decides:
  assumes IH: "\<And>q t. length q \<le> length p \<Longrightarrow> decides m t q (match_loop m None t q)"
    and byte: "byte_text m t" and t: "t = x # t'" and ps: "parse_pattern p = Some ps"
  shows "\<exists>r. match_loop m None t (CHR ''%'' # p) = Inr r \<and> verdict (GETCHAR m) r (AnyString # ps) t"
proof (cases "skip_wildcards m t p")
  case None
  with skip_wildcards_abort [OF None byte ps] t show ?thesis
    by (auto dest: likes_AnyString_suffix)
next
  case (Some tp)
  obtain t1 p1 where tp: "tp = (t1, p1)" by (cases tp)
  from skip_wildcards_some [OF Some [unfolded tp] byte ps, of "GETCHAR m"] obtain ps1 where
    ps1: "parse_pattern p1 = Some ps1" "byte_text m t1"
      "p1 = [] \<or> hd p1 \<noteq> CHR ''%'' \<and> hd p1 \<noteq> CHR ''_''"
      "likes (GETCHAR m) (AnyString # ps) t \<longleftrightarrow> likes (GETCHAR m) (AnyString # ps1) t1"
    by blast
  show ?thesis
  proof (cases "p1 = []")
    case True
    with ps1 Some tp t show ?thesis by (auto simp: likes_AnyString)
  next
    case False
    with ps1(3) first_pattern_literal [OF ps1(1) False, of m] obtain d ps2 where
      d: "ps1 = Lit d # ps2" "first_pattern m p1 = Inr (GETCHAR m d)" by blast
    have "length p1 \<le> length p" using skip_wildcards_shorter [OF Some [unfolded tp]] by simp
    from percent_scan_decides [OF decides_MatchText [OF IH [OF this]] ps1(1) [unfolded d(1)] ps1(2)]
    obtain r where r: "percent_scan m None (GETCHAR m d) t1 p1 = Inr r"
      "verdict (GETCHAR m) r (AnyString # ps1) t1" by (auto simp: d(1))
    have "verdict (GETCHAR m) r (AnyString # ps) t"
      using r(2) ps1(4) by (cases r) (auto dest: likes_AnyString_suffix)
    with r d False Some tp t show ?thesis by simp
  qed
qed

lemma match_loop_decides: "decides m t p (match_loop m None t p)"
proof (induction p arbitrary: t rule: length_induct)
  case (1 p)
  note IH = "1.IH" [rule_format]
  consider "t = []" | x t' where "t = x # t'" "p = []" | x t' c p' where "t = x # t'" "p = c # p'"
    by (meson list.exhaust)
  then show ?case
  proof cases
    case 1
    then show ?thesis using likes_empty_text by (auto simp: decides_def match_end_def)
  next
    case 2
    then show ?thesis by (simp add: decides_def)
  next
    case (3 x t' c p')
    have "\<exists>r. match_loop m None t p = Inr r \<and> verdict (GETCHAR m) r ps t"
      if byte: "byte_text m t" and ps: "parse_pattern p = Some ps" for ps
      using ps [unfolded 3]
    proof (cases rule: parse_pattern_Cons)
      case (escaped d p'' ps')
      with IH [of p'' t'] byte 3 show ?thesis
        by (auto simp: decides_def dest: byte_text_Cons intro: verdict_Lit [OF sym])
    next
      case (any_string ps')
      with match_percent_decides [OF _ byte 3(1) any_string(2)] IH 3 show ?thesis by simp
    next
      case (any_char ps')
      with IH [of p' t'] byte 3 NextChar_byte [OF byte] show ?thesis
        by (auto simp: decides_def dest: byte_text_Cons intro: verdict_AnyChar)
    next
      case (literal ps')
      with IH [of p' t'] byte 3 show ?thesis
        by (auto simp: decides_def dest: byte_text_Cons intro: verdict_Lit [OF sym])
    qed
    then show ?thesis by (simp add: decides_def)
  qed
qed

lemma namelike_decides_any:
  assumes "parse_pattern pat = Some ps" and "byte_text m str"
  shows "namelike m str pat = Inr (likes (GETCHAR m) ps str)"
proof -
  from decides_MatchText [OF match_loop_decides [of m str pat]] assms obtain r where
    "MatchText m None str pat = Inr r" "verdict (GETCHAR m) r ps str"
    by (auto simp: decides_def simp del: MatchText.simps)
  then show ?thesis
    by (cases r) (auto simp: namelike_def simp del: MatchText.simps match_loop.simps)
qed

subsection \<open>Properties\<close>

text \<open>
  C30: on a pattern that does not end in a lone escape, \<^verbatim>\<open>namelike\<close> decides the
  declared meaning of the pattern (a literal, any one character, any string),
  for the single-byte matchers and, on texts without multi-byte characters, for
  the UTF-8 matcher.
\<close>

theorem namelike_decides:
  assumes "parse_pattern pat = Some ps" and "byte_text m str"
  shows "namelike m str pat = Inr (likes (GETCHAR m) ps str)"
  using assms by (rule namelike_decides_any)

lemma parse_autoindex_pattern:
  "parse_pattern autoindex_pattern = Some (map Lit ''autoindex'' @ [AnyChar, AnyString])"
  by (simp add: autoindex_pattern_def)

theorem namelike_decides_witness:
  "namelike UTF8 ''autoindexes'' autoindex_pattern = Inr True \<and>
   namelike SB ''autoindex'' autoindex_pattern = Inr False"
  using namelike_decides [OF parse_autoindex_pattern, of UTF8 "''autoindexes''"]
    namelike_decides [OF parse_autoindex_pattern, of SB "''autoindex''"]
  by (simp add: byte_text_def utf8_continuation_def char_code_def likes.simps)

text \<open>The characters before the first wildcard must be there as they stand.\<close>

definition plain_pattern :: "string \<Rightarrow> bool" where
  "plain_pattern lits \<longleftrightarrow> (\<forall>c \<in> set lits. c \<noteq> CHR 0x5C \<and> c \<noteq> CHR ''%'' \<and> c \<noteq> CHR ''_'')"

lemma match_literal:
  assumes "m \<noteq> C_I" and "plain_pattern [c]"
  shows "match_loop m None [] (c # p) = Inr LIKE_ABORT"
    and "match_loop m None (x # t) (c # p) = (if c = x then match_loop m None t p else Inr LIKE_FALSE)"
  using assms by (cases m; simp add: plain_pattern_def match_end_def)+

lemma match_prefix:
  assumes "m \<noteq> C_I" and "plain_pattern lits"
  shows "match_loop m None (lits @ u) (lits @ p) = match_loop m None u p"
  using assms(2)
proof (induction lits)
  case (Cons c lits)
  then have "plain_pattern [c]" "plain_pattern lits" by (simp_all add: plain_pattern_def)
  with Cons.IH show ?case by (simp add: match_literal [OF assms(1)] del: match_loop.simps)
qed simp

lemma match_no_prefix:
  assumes "m \<noteq> C_I" and "plain_pattern lits" and "\<not> prefix lits t"
  shows "\<exists>r. match_loop m None t (lits @ p) = Inr r \<and> r \<noteq> LIKE_TRUE"
  using assms(2,3)
proof (induction lits arbitrary: t)
  case (Cons c lits)
  then have c: "plain_pattern [c]" "plain_pattern lits" by (simp_all add: plain_pattern_def)
  show ?case
  proof (cases t)
    case Nil
    with c show ?thesis by (simp add: match_literal [OF assms(1)] del: match_loop.simps)
  next
    case (Cons x t')
    with Cons.IH [of t'] Cons.prems c show ?thesis
      by (simp add: match_literal [OF assms(1)] del: match_loop.simps)
  qed
qed simp

lemma match_any: "\<exists>r. match_loop m None u ''_%'' = Inr r \<and> (r = LIKE_TRUE \<longleftrightarrow> u \<noteq> [])"
proof (cases u)
  case (Cons x v)
  then show ?thesis by (cases "NextChar m u") (simp_all add: match_end_def del: NextChar.simps)
qed (simp add: match_end_def)

lemma namelike_autoindex:
  assumes "m \<noteq> C_I"
  shows "namelike m relname autoindex_pattern = Inr (\<exists>c rest. relname = ''autoindex'' @ c # rest)"
proof -
  have p: "autoindex_pattern = ''autoindex'' @ ''_%''" by (simp add: autoindex_pattern_def)
  have n: "MatchText m None relname autoindex_pattern = match_loop m None relname autoindex_pattern"
    by (simp add: autoindex_pattern_def del: match_loop.simps)
  have lits: "plain_pattern ''autoindex''" by (simp add: plain_pattern_def)
  show ?thesis
  proof (cases "prefix ''autoindex'' relname")
    case True
    then obtain u where u: "relname = ''autoindex'' @ u" by (rule prefixE)
    obtain r where r: "match_loop m None u ''_%'' = Inr r" "r = LIKE_TRUE \<longleftrightarrow> u \<noteq> []" using match_any by blast
    have "match_loop m None relname autoindex_pattern = Inr r"
      unfolding p u match_prefix [OF assms lits] by (rule r(1))
    with n have "namelike m relname autoindex_pattern = Inr (r = LIKE_TRUE)" by (simp only: namelike_def bind_res.simps)
    moreover have "(\<exists>c rest. relname = ''autoindex'' @ c # rest) \<longleftrightarrow> u \<noteq> []" by (simp add: u neq_Nil_conv)
    ultimately show ?thesis using r(2) by simp
  next
    case False
    then have no: "(\<exists>c rest. relname = ''autoindex'' @ c # rest) = False" by (auto simp: prefix_def)
    obtain r where "match_loop m None relname autoindex_pattern = Inr r" "r \<noteq> LIKE_TRUE"
      using match_no_prefix [OF assms lits False] unfolding p by blast
    with n show ?thesis unfolding no by (simp only: namelike_def bind_res.simps)
  qed
qed

text \<open>
  C31: the underscore of \<open>LIKE 'autoindex_%'\<close> is a wildcard: the pattern selects
  every relation whose name is \<open>autoindex\<close> followed by at least one more
  character, whatever it is, so a user's \<open>autoindexes\<close> is taken for an index
  that AutoIndex made.
\<close>

theorem autoindex_pattern_is_prefix:
  "namelike SB relname autoindex_pattern = Inr (\<exists>c rest. relname = ''autoindex'' @ c # rest) \<and>
   namelike UTF8 relname autoindex_pattern = Inr (\<exists>c rest. relname = ''autoindex'' @ c # rest)"
  by (simp add: namelike_autoindex)

end
