(* ===== verification/Identifiers.thy ===== *)
theory Identifiers
  imports Keywords Like
begin

section \<open>Identifiers in SQL text (ruleutils.c, kwlookup.c, scansup.c, scan.l)\<close>

text \<open>
  AutoIndex builds its DDL commands as text. Here are the two sides of that text:
  \<^verbatim>\<open>quote_identifier\<close>, which the commands use for the table and the column, and
  the scanner rules that read identifiers back. The perfect hash behind the
  keyword lookup is generated code and a parameter.
\<close>

subsection \<open>Keyword lookup\<close>

text \<open>The keyword number, or -1.\<close>

definition ScanKeywordLookup :: "(string \<Rightarrow> int) \<Rightarrow> string \<Rightarrow> int" where
  "ScanKeywordLookup hash str =
     (if max_kw_len < length str then -1
      else
        let h = hash str in
        if h < 0 \<or> int (length ScanKeywords) \<le> h then -1
        else if map pg_ascii_tolower str = ScanKeywords ! nat h then h else -1)"

subsection \<open>quote_identifier\<close>

definition lower_letter :: "char \<Rightarrow> bool" where
  "lower_letter c \<longleftrightarrow> 97 \<le> char_code c \<and> char_code c \<le> 122"

definition upper_letter :: "char \<Rightarrow> bool" where
  "upper_letter c \<longleftrightarrow> 65 \<le> char_code c \<and> char_code c \<le> 90"

definition digit :: "char \<Rightarrow> bool" where
  "digit c \<longleftrightarrow> 48 \<le> char_code c \<and> char_code c \<le> 57"

text \<open>The result of the first loop over the identifier: is it safe as it stands?\<close>

definition safe_chars :: "string \<Rightarrow> bool" where
  "safe_chars ident \<longleftrightarrow>
     (case ident of [] \<Rightarrow> False | c # _ \<Rightarrow> lower_letter c \<or> c = CHR ''_'') \<and>
     list_all (\<lambda>ch. lower_letter ch \<or> digit ch \<or> ch = CHR ''_'') ident"

fun double_quotes :: "string \<Rightarrow> string" where
  "double_quotes [] = []"
| "double_quotes (ch # s) =
     (if ch = CHR 0x22 then CHR 0x22 # CHR 0x22 # double_quotes s else ch # double_quotes s)"

definition quote_identifier :: "(string \<Rightarrow> int) \<Rightarrow> bool \<Rightarrow> string \<Rightarrow> string" where
  "quote_identifier hash quote_all_identifiers ident =
     (let safe = safe_chars ident;
          safe = (if quote_all_identifiers then False else safe);
          safe = (if safe then
                    (let kwnum = ScanKeywordLookup hash ident in
                     if 0 \<le> kwnum \<and> ScanKeywordCategories ! nat kwnum \<noteq> UNRESERVED_KEYWORD
                     then False else safe)
                  else safe)
      in if safe then ident
         else CHR 0x22 # double_quotes ident @ [CHR 0x22])"

subsection \<open>Downcasing and truncation\<close>

definition NAMEDATALEN :: nat where
  "NAMEDATALEN = 64"

text \<open>
  \<open>pg_downcase_ident\<close>: ASCII letters always; other letters only under a
  single-byte locale, by the C library's \<open>isupper_l\<close> and \<open>tolower_l\<close>.
\<close>

type_synonym ctype = "((char \<Rightarrow> bool) \<times> (char \<Rightarrow> char)) option"

fun downcase_char :: "ctype \<Rightarrow> char \<Rightarrow> char" where
  "downcase_char None ch = pg_ascii_tolower ch"
| "downcase_char (Some (isupper_l, tolower_l)) ch =
     (if upper_letter ch then pg_ascii_tolower ch
      else if 128 \<le> char_code ch \<and> isupper_l ch then tolower_l ch
      else ch)"

definition pg_downcase_ident :: "ctype \<Rightarrow> string \<Rightarrow> string" where
  "pg_downcase_ident loc src = map (downcase_char loc) src"

definition cliplen :: "string \<Rightarrow> nat \<Rightarrow> nat" where
  "cliplen str limit = length (takeWhile (\<lambda>c. c \<noteq> CHR 0x00) (take (min (length str) limit) str))"

definition pg_utf_mblen :: "char \<Rightarrow> nat" where
  "pg_utf_mblen c =
     (let s = char_code c in
      if s < 128 then 1
      else if 192 \<le> s \<and> s < 224 then 2
      else if 224 \<le> s \<and> s < 240 then 3
      else if 240 \<le> s \<and> s < 248 then 4
      else 1)"

lemma pg_utf_mblen_pos: "0 < pg_utf_mblen c"
  by (simp add: pg_utf_mblen_def Let_def)

function utf8_cliplen :: "string \<Rightarrow> nat \<Rightarrow> nat \<Rightarrow> nat" where
  "utf8_cliplen [] limit clen = clen"
| "utf8_cliplen (c # mbstr) limit clen =
     (if c = CHR 0x00 then clen
      else
        let l = pg_utf_mblen c in
        if limit < clen + l then clen
        else if clen + l = limit then clen + l
        else utf8_cliplen (drop l (c # mbstr)) limit (clen + l))"
  by pat_completeness auto
termination
  by (relation "measure (\<lambda>(s, limit, clen). length s)") (simp_all add: pg_utf_mblen_pos)

fun pg_mbcliplen :: "like_mode \<Rightarrow> string \<Rightarrow> nat \<Rightarrow> nat" where
  "pg_mbcliplen UTF8 mbstr limit = utf8_cliplen mbstr limit 0"
| "pg_mbcliplen _ mbstr limit = cliplen mbstr limit"

definition truncate_identifier :: "like_mode \<Rightarrow> string \<Rightarrow> string" where
  "truncate_identifier enc ident =
     (if NAMEDATALEN \<le> length ident then take (pg_mbcliplen enc ident (NAMEDATALEN - 1)) ident
      else ident)"

definition downcase_identifier :: "like_mode \<Rightarrow> ctype \<Rightarrow> bool \<Rightarrow> string \<Rightarrow> string" where
  "downcase_identifier enc loc truncate ident =
     (let result = pg_downcase_ident loc ident in
      if NAMEDATALEN \<le> length ident \<and> truncate then truncate_identifier enc result else result)"

definition downcase_truncate_identifier :: "like_mode \<Rightarrow> ctype \<Rightarrow> string \<Rightarrow> string" where
  "downcase_truncate_identifier enc loc ident = downcase_identifier enc loc True ident"

definition scanner_isspace :: "char \<Rightarrow> bool" where
  "scanner_isspace ch \<longleftrightarrow> char_code ch \<in> {32, 9, 10, 13, 11, 12}"

subsection \<open>The scanner\<close>

text \<open>
  The rules of \<^verbatim>\<open>scan.l\<close> for white space, comments to the end of the line, quoted and
  plain identifiers and the punctuation that is always a token of its own. Text
  that starts with anything else (literals, numbers, operators, block comments)
  is handed on unscanned as \<open>OTHER\<close>. A keyword token carries its number.
\<close>

datatype token = IDENT string | KEYWORD nat | SELF char | OTHER string

record scanner =
  kw_hash :: "string \<Rightarrow> int"
  sc_enc :: like_mode
  sc_ctype :: ctype

definition ident_start :: "char \<Rightarrow> bool" where
  "ident_start c \<longleftrightarrow> upper_letter c \<or> lower_letter c \<or> 128 \<le> char_code c \<or> c = CHR ''_''"

definition ident_cont :: "char \<Rightarrow> bool" where
  "ident_cont c \<longleftrightarrow> ident_start c \<or> digit c \<or> c = CHR ''$''"

text \<open>Inside double quotes: the literal and the rest, \<^const>\<open>None\<close> at the end of the text.\<close>

fun scan_quoted :: "string \<Rightarrow> string \<Rightarrow> (string \<times> string) option" where
  "scan_quoted lit [] = None"
| "scan_quoted lit (c # s) =
     (if c = CHR 0x22 then
        (case s of
           d # s' \<Rightarrow> if d = CHR 0x22 then scan_quoted (lit @ [CHR 0x22]) s' else Some (lit, s)
         | [] \<Rightarrow> Some (lit, s))
      else scan_quoted (lit @ [c]) s)"

text \<open>A letter that together with the next characters starts a literal.\<close>

definition literal_start :: "string \<Rightarrow> string \<Rightarrow> bool" where
  "literal_start word rest \<longleftrightarrow>
     word \<in> {''b'', ''B'', ''x'', ''X'', ''n'', ''N'', ''e'', ''E''} \<and> take 1 rest = [CHR 0x27] \<or>
     word \<in> {''u'', ''U''} \<and> (take 2 rest = [CHR ''&'', CHR 0x22] \<or> take 2 rest = [CHR ''&'', CHR 0x27])"

definition scan_word :: "scanner \<Rightarrow> string \<Rightarrow> token \<times> string" where
  "scan_word sc text =
     (let yytext = takeWhile ident_cont text;
          rest = dropWhile ident_cont text
      in if literal_start yytext rest then (OTHER text, [])
         else
           let kwnum = ScanKeywordLookup (kw_hash sc) yytext in
           if 0 \<le> kwnum then (KEYWORD (nat kwnum), rest)
           else (IDENT (downcase_truncate_identifier (sc_enc sc) (sc_ctype sc) yytext), rest))"

definition scan_delimited :: "scanner \<Rightarrow> string \<Rightarrow> (token \<times> string) result" where
  "scan_delimited sc text =
     (case scan_quoted [] text of
        None \<Rightarrow> Inl (PgError ''unterminated quoted identifier'')
      | Some (lit, rest) \<Rightarrow>
          if lit = [] then Inl (PgError ''zero-length delimited identifier'')
          else Inr (IDENT (if NAMEDATALEN \<le> length lit then truncate_identifier (sc_enc sc) lit
                           else lit), rest))"

definition newline :: "char \<Rightarrow> bool" where
  "newline c \<longleftrightarrow> char_code c = 10 \<or> char_code c = 13"

function core_yylex :: "scanner \<Rightarrow> string \<Rightarrow> (token \<times> string) option result" where
  "core_yylex sc [] = Inr None"
| "core_yylex sc (c # s) =
     (if scanner_isspace c then core_yylex sc s
      else if c = CHR ''-'' \<and> take 1 s = ''-'' then
        core_yylex sc (dropWhile (\<lambda>c. \<not> newline c) s)
      else if c = CHR 0x22 then bind_res (scan_delimited sc s) (\<lambda>r. Inr (Some r))
      else if ident_start c then Inr (Some (scan_word sc (c # s)))
      else if c \<in> set '',()[];'' \<or>
              c = CHR ''.'' \<and> (case s of d # _ \<Rightarrow> \<not> digit d \<and> d \<noteq> CHR ''.'' | [] \<Rightarrow> True)
        then Inr (Some (SELF c, s))
      else Inr (Some (OTHER (c # s), [])))"
  by pat_completeness auto
termination
  by (relation "measure (\<lambda>(sc, s). length s)") (auto simp: less_Suc_eq_le length_dropWhile_le)

declare core_yylex.simps(2) [simp del]

lemma scan_quoted_shorter: "scan_quoted lit s = Some (l, r) \<Longrightarrow> length r < length s"
proof (induction lit s rule: scan_quoted.induct)
  case (2 lit c s)
  show ?case
  proof (cases "c = CHR 0x22")
    case quote: True
    show ?thesis
    proof (cases s)
      case (Cons d s')
      with 2 quote show ?thesis by (cases "d = CHR 0x22") auto
    qed (use 2 quote in auto)
  qed (use 2 in auto)
qed simp

lemma core_yylex_shorter: "core_yylex sc s = Inr (Some (tok, rest)) \<Longrightarrow> length rest < length s"
proof (induction sc s rule: core_yylex.induct)
  case (2 sc c s)
  note step = "2.prems" [unfolded core_yylex.simps(2)]
  consider (space) "scanner_isspace c"
    | (comment) "\<not> scanner_isspace c" "c = CHR ''-'' \<and> take 1 s = ''-''"
    | (token) "\<not> scanner_isspace c" "\<not> (c = CHR ''-'' \<and> take 1 s = ''-'')" by blast
  then show ?case
  proof cases
    case space
    with "2.IH"(1) step show ?thesis by simp
  next
    case comment
    with "2.IH"(2) step length_dropWhile_le [of "\<lambda>c. \<not> newline c" s] show ?thesis by simp
  next
    case token
    have "ident_start c \<Longrightarrow> length (dropWhile ident_cont (c # s)) < length (c # s)"
      by (simp add: ident_cont_def less_Suc_eq_le length_dropWhile_le)
    with token step scan_quoted_shorter [of "[]" s] show ?thesis
      by (auto simp: scan_delimited_def scan_word_def Let_def split: if_splits option.splits)
  qed
qed simp

function scan_tokens :: "scanner \<Rightarrow> string \<Rightarrow> token list result" where
  "scan_tokens sc s =
     (case core_yylex sc s of
        Inl err \<Rightarrow> Inl err
      | Inr None \<Rightarrow> Inr []
      | Inr (Some (tok, rest)) \<Rightarrow> bind_res (scan_tokens sc rest) (\<lambda>toks. Inr (tok # toks)))"
  by pat_completeness auto
termination
  by (relation "measure (\<lambda>(sc, s). length s)") (auto dest: core_yylex_shorter)

declare scan_tokens.simps [simp del]

subsection \<open>The two statement forms AutoIndex issues (gram.y)\<close>

fun kw_name :: "token \<Rightarrow> string option" where
  "kw_name (KEYWORD n) = Some (ScanKeywords ! n)"
| "kw_name _ = None"

fun ColId :: "token \<Rightarrow> string option" where
  "ColId (IDENT s) = Some s"
| "ColId (KEYWORD n) =
     (if ScanKeywordCategories ! n = UNRESERVED_KEYWORD \<or> ScanKeywordCategories ! n = COL_NAME_KEYWORD
      then Some (ScanKeywords ! n) else None)"
| "ColId _ = None"

fun ColLabel :: "token \<Rightarrow> string option" where
  "ColLabel (IDENT s) = Some s"
| "ColLabel (KEYWORD n) = Some (ScanKeywords ! n)"
| "ColLabel _ = None"

record IndexStmt =
  stmt_idxname :: string
  stmt_table :: string
  stmt_column :: string

text \<open>\<open>CREATE INDEX IF NOT EXISTS name ON relation ( column )\<close>.\<close>

definition parse_create_index :: "token list \<Rightarrow> IndexStmt option" where
  "parse_create_index toks =
     (if length toks = 11 \<and>
         map kw_name (take 5 toks) =
           [Some ''create'', Some ''index'', Some ''if'', Some ''not'', Some ''exists''] \<and>
         kw_name (toks ! 6) = Some ''on'' \<and> toks ! 8 = SELF CHR ''('' \<and> toks ! 10 = SELF CHR '')''
      then (case (ColId (toks ! 5), ColId (toks ! 7), ColId (toks ! 9)) of
              (Some n, Some r, Some c) \<Rightarrow> Some \<lparr>stmt_idxname = n, stmt_table = r, stmt_column = c\<rparr>
            | _ \<Rightarrow> None)
      else None)"

text \<open>\<open>DROP INDEX IF EXISTS schema.name\<close>.\<close>

definition parse_drop_index :: "token list \<Rightarrow> (string \<times> string) option" where
  "parse_drop_index toks =
     (if length toks = 7 \<and>
         map kw_name (take 4 toks) = [Some ''drop'', Some ''index'', Some ''if'', Some ''exists''] \<and>
         toks ! 5 = SELF CHR ''.''
      then (case (ColId (toks ! 4), ColLabel (toks ! 6)) of
              (Some s, Some n) \<Rightarrow> Some (s, n) | _ \<Rightarrow> None)
      else None)"

text \<open>The command texts of \<^verbatim>\<open>create_index_for_candidate\<close> and \<^verbatim>\<open>autoindex_run_lifecycle\<close>.\<close>

definition create_index_command :: "(string \<Rightarrow> int) \<Rightarrow> bool \<Rightarrow> string \<Rightarrow> string \<Rightarrow> string" where
  "create_index_command hash quote_all tblname colname =
     ''CREATE INDEX IF NOT EXISTS autoindex_'' @ tblname @ ''_'' @ colname @ '' ON '' @
     quote_identifier hash quote_all tblname @ '' ('' @ quote_identifier hash quote_all colname @ '')''"

definition drop_index_command :: "(string \<Rightarrow> int) \<Rightarrow> bool \<Rightarrow> string \<Rightarrow> string \<Rightarrow> string" where
  "drop_index_command hash quote_all nspname idxname =
     ''DROP INDEX IF EXISTS '' @ quote_identifier hash quote_all nspname @ ''.'' @
     quote_identifier hash quote_all idxname"

subsection \<open>Keyword lookup with a perfect hash\<close>

text \<open>What the generated hash function promises: it finds every keyword, in any case.\<close>

definition perfect_hash :: "(string \<Rightarrow> int) \<Rightarrow> bool" where
  "perfect_hash hash \<longleftrightarrow>
     (\<forall>s. map pg_ascii_tolower s \<in> set ScanKeywords \<longrightarrow>
          0 \<le> hash s \<and> hash s < int (length ScanKeywords) \<and>
          ScanKeywords ! nat (hash s) = map pg_ascii_tolower s)"

lemma fold_max_ge: "x \<in> set xs \<or> x \<le> (a :: nat) \<Longrightarrow> x \<le> fold max xs a"
proof (induction xs arbitrary: a)
  case (Cons y xs)
  then have "x \<in> set xs \<or> x \<le> max y a" by (auto simp: le_max_iff_disj)
  then show ?case using Cons.IH [of "max y a"] by simp
qed simp

lemma keyword_length: "k \<in> set ScanKeywords \<Longrightarrow> length k \<le> max_kw_len"
  unfolding max_kw_len_def by (rule fold_max_ge) simp

lemma lookup_found:
  "0 \<le> ScanKeywordLookup hash s \<Longrightarrow>
     ScanKeywords ! nat (ScanKeywordLookup hash s) = map pg_ascii_tolower s"
  by (auto simp: ScanKeywordLookup_def Let_def split: if_splits)

lemma lookup_nonneg_iff:
  assumes "perfect_hash hash"
  shows "0 \<le> ScanKeywordLookup hash s \<longleftrightarrow> map pg_ascii_tolower s \<in> set ScanKeywords"
proof
  assume "0 \<le> ScanKeywordLookup hash s"
  then show "map pg_ascii_tolower s \<in> set ScanKeywords"
    by (auto simp: ScanKeywordLookup_def Let_def split: if_splits)
next
  assume "map pg_ascii_tolower s \<in> set ScanKeywords"
  with assms keyword_length [of "map pg_ascii_tolower s"] show "0 \<le> ScanKeywordLookup hash s"
    by (auto simp: perfect_hash_def ScanKeywordLookup_def Let_def)
qed

lemmas kwlist_defs = ScanKeywords_def kwlist_def kwlist1_def kwlist2_def kwlist3_def kwlist4_def

lemma command_keywords:
  "{''create'', ''index'', ''if'', ''not'', ''exists'', ''on'', ''drop'', ''table''} \<subseteq> set ScanKeywords"
  by (simp add: kwlist_defs)

lemma no_autoindex_keyword: "k \<in> set ScanKeywords \<Longrightarrow> take 10 k \<noteq> ''autoindex_''"
proof -
  have "list_all (\<lambda>k. take 10 k \<noteq> ''autoindex_'') ScanKeywords" by (simp add: kwlist_defs)
  then show "k \<in> set ScanKeywords \<Longrightarrow> take 10 k \<noteq> ''autoindex_''" by (auto simp: list_all_iff)
qed

subsection \<open>Scanning what was written\<close>

lemma char_classes:
  "lower_letter c \<Longrightarrow> ident_start c" "upper_letter c \<Longrightarrow> ident_start c" "ident_start c \<Longrightarrow> ident_cont c"
  "digit c \<Longrightarrow> ident_cont c" "ident_start CHR ''_''" "ident_cont CHR ''_''" "ident_cont CHR ''$''"
  by (simp_all add: ident_start_def ident_cont_def)

lemma ident_start_token:
  assumes "ident_start c"
  shows "\<not> scanner_isspace c" "c \<noteq> CHR ''-''" "c \<noteq> CHR 0x22"
  using assms
  by (auto simp: ident_start_def scanner_isspace_def upper_letter_def lower_letter_def char_code_def)

text \<open>A separator behind a word: the end of the text, a space or punctuation.\<close>

definition word_end :: "string \<Rightarrow> bool" where
  "word_end rest \<longleftrightarrow> (case rest of [] \<Rightarrow> True | c # _ \<Rightarrow> c \<in> set '' ).(;'')"

lemma word_end_not_cont:
  assumes "word_end rest"
  shows "takeWhile ident_cont rest = []" "dropWhile ident_cont rest = rest" "\<not> literal_start w rest"
    "take 1 rest \<noteq> [CHR 0x22]"
  using assms
  by (auto simp: word_end_def ident_cont_def ident_start_def upper_letter_def lower_letter_def digit_def
      char_code_def literal_start_def split: list.splits)

lemma lex_word:
  assumes "w \<noteq> []" and "ident_start (hd w)" and "list_all ident_cont w" and "word_end rest"
  shows "core_yylex sc (w @ rest) =
     Inr (Some (let kwnum = ScanKeywordLookup (kw_hash sc) w in
                if 0 \<le> kwnum then KEYWORD (nat kwnum)
                else IDENT (downcase_truncate_identifier (sc_enc sc) (sc_ctype sc) w), rest))"
proof -
  obtain c w' where w: "w = c # w'" using assms(1) by (cases w) auto
  have all: "\<forall>x \<in> set w. ident_cont x" using assms(3) by (simp add: list_all_iff)
  have "takeWhile ident_cont (w @ rest) = w" "dropWhile ident_cont (w @ rest) = rest"
    using all word_end_not_cont(1,2) [OF assms(4)]
    by (simp_all add: takeWhile_append2 dropWhile_append2)
  then have "scan_word sc (w @ rest) =
      (let kwnum = ScanKeywordLookup (kw_hash sc) w in
       if 0 \<le> kwnum then KEYWORD (nat kwnum)
       else IDENT (downcase_truncate_identifier (sc_enc sc) (sc_ctype sc) w), rest)"
    using word_end_not_cont(3) [OF assms(4)] by (simp add: scan_word_def Let_def)
  with assms(2) ident_start_token [of c] show ?thesis
    by (simp add: w core_yylex.simps(2))
qed

lemma lex_space: "core_yylex sc (CHR '' '' # s) = core_yylex sc s"
  by (simp add: core_yylex.simps(2) scanner_isspace_def char_code_def)

lemma lex_self:
  "core_yylex sc (CHR ''('' # s) = Inr (Some (SELF CHR ''('', s))"
  "core_yylex sc (CHR '')'' # s) = Inr (Some (SELF CHR '')'', s))"
  "ident_start c \<or> c = CHR 0x22 \<Longrightarrow>
     core_yylex sc (CHR ''.'' # c # s) = Inr (Some (SELF CHR ''.'', c # s))"
  by (auto simp: core_yylex.simps(2) scanner_isspace_def char_code_def ident_start_def upper_letter_def
      lower_letter_def digit_def)

lemma scan_quoted_double:
  assumes "take 1 rest \<noteq> [CHR 0x22]"
  shows "scan_quoted lit (double_quotes s @ CHR 0x22 # rest) = Some (lit @ s, rest)"
proof (induction s arbitrary: lit)
  case Nil
  from assms show ?case by (cases rest) auto
qed (auto simp del: append_assoc simp: append_assoc [symmetric])

lemma lex_quoted:
  assumes "ident \<noteq> []" and "length ident < NAMEDATALEN" and "word_end rest"
  shows "core_yylex sc (CHR 0x22 # double_quotes ident @ CHR 0x22 # rest) = Inr (Some (IDENT ident, rest))"
  using assms word_end_not_cont(4) [OF assms(3)]
  by (simp add: core_yylex.simps(2) scanner_isspace_def char_code_def scan_delimited_def
      scan_quoted_double)

text \<open>Names that \<^verbatim>\<open>quote_identifier\<close> leaves as they are are read back as they are.\<close>

definition plain_char :: "char \<Rightarrow> bool" where
  "plain_char c \<longleftrightarrow> lower_letter c \<or> digit c \<or> c = CHR ''_'' \<or> c = CHR ''$''"

lemma plain_char_folds:
  assumes "plain_char c"
  shows "pg_ascii_tolower c = c" "downcase_char loc c = c" "ident_cont c"
proof -
  show "pg_ascii_tolower c = c"
    using assms by (auto simp: plain_char_def lower_letter_def digit_def pg_ascii_tolower_def char_code_def)
  then show "downcase_char loc c = c"
    using assms by (cases loc)
      (auto simp: plain_char_def upper_letter_def lower_letter_def digit_def char_code_def)
  show "ident_cont c" using assms by (auto simp: plain_char_def char_classes)
qed

lemma plain_downcase:
  assumes "list_all plain_char w"
  shows "map pg_ascii_tolower w = w" "pg_downcase_ident loc w = w" "list_all ident_cont w"
  using assms by (induction w) (simp_all add: pg_downcase_ident_def plain_char_folds)

lemma plain_truncate:
  "list_all plain_char w \<Longrightarrow> length w < NAMEDATALEN \<Longrightarrow> downcase_truncate_identifier enc loc w = w"
  by (simp add: downcase_truncate_identifier_def downcase_identifier_def plain_downcase)

lemma safe_chars_plain: "safe_chars ident \<Longrightarrow> list_all plain_char ident"
  by (auto simp: safe_chars_def list_all_iff plain_char_def)

lemma quote_identifier_cases:
  obtains (quoted) "quote_identifier hash qa ident = CHR 0x22 # double_quotes ident @ [CHR 0x22]"
  | (plain) "quote_identifier hash qa ident = ident" "safe_chars ident"
      "ScanKeywordLookup hash ident < 0 \<or>
       ScanKeywordCategories ! nat (ScanKeywordLookup hash ident) = UNRESERVED_KEYWORD"
proof (cases "quote_identifier hash qa ident = CHR 0x22 # double_quotes ident @ [CHR 0x22]")
  case False
  then show thesis
    by (intro plain) (auto simp: quote_identifier_def Let_def split: if_splits)
qed (rule quoted)

text \<open>
  The quoted form of a name, followed by a separator, is read as one token that
  the grammar takes for a column, a table or a label of exactly that name.
\<close>

lemma lex_quote_identifier:
  assumes "ident \<noteq> []" and "length ident < NAMEDATALEN" and "word_end rest"
  shows "\<exists>tok. core_yylex sc (quote_identifier (kw_hash sc) qa ident @ rest) = Inr (Some (tok, rest)) \<and>
               ColId tok = Some ident \<and> ColLabel tok = Some ident"
proof (cases rule: quote_identifier_cases [of "kw_hash sc" qa ident])
  case quoted
  with lex_quoted [OF assms] show ?thesis by simp
next
  case plain
  let ?k = "ScanKeywordLookup (kw_hash sc) ident"
  note p = safe_chars_plain [OF plain(2)]
  have "ident_start (hd ident)"
    using plain(2) by (auto simp: safe_chars_def char_classes split: list.splits)
  from lex_word [OF assms(1) this plain_downcase(3) [OF p] assms(3)]
  have lex: "core_yylex sc (ident @ rest) =
      Inr (Some (if 0 \<le> ?k then KEYWORD (nat ?k) else IDENT ident, rest))"
    using plain_truncate [OF p assms(2)] by (simp add: Let_def)
  show ?thesis
  proof (cases "0 \<le> ?k")
    case True
    with lex plain lookup_found [OF True] plain_downcase(1) [OF p] show ?thesis by simp
  next
    case False
    with lex plain show ?thesis by simp
  qed
qed

lemma scan_tokens_token:
  "core_yylex sc s = Inr (Some (tok, rest)) \<Longrightarrow>
     scan_tokens sc s = bind_res (scan_tokens sc rest) (\<lambda>toks. Inr (tok # toks))"
  by (subst scan_tokens.simps) simp

lemma scan_tokens_space: "scan_tokens sc (CHR '' '' # s) = scan_tokens sc s"
  by (subst (1 2) scan_tokens.simps) (simp add: lex_space)

lemma scan_tokens_nil: "scan_tokens sc [] = Inr []"
  by (subst scan_tokens.simps) simp

definition keyword_token :: "scanner \<Rightarrow> string \<Rightarrow> token" where
  "keyword_token sc w = KEYWORD (nat (ScanKeywordLookup (kw_hash sc) w))"

lemma scan_keyword:
  assumes "perfect_hash (kw_hash sc)" and "map pg_ascii_tolower w \<in> set ScanKeywords"
    and "list_all ident_cont w" and "w \<noteq> []" and "ident_start (hd w)"
  shows "scan_tokens sc (w @ CHR '' '' # s) =
           bind_res (scan_tokens sc s) (\<lambda>toks. Inr (keyword_token sc w # toks))"
    and "kw_name (keyword_token sc w) = Some (map pg_ascii_tolower w)"
proof -
  have k: "0 \<le> ScanKeywordLookup (kw_hash sc) w" using assms(1,2) by (simp add: lookup_nonneg_iff)
  have "core_yylex sc (w @ CHR '' '' # s) = Inr (Some (keyword_token sc w, CHR '' '' # s))"
    using lex_word [OF assms(4,5,3), of "CHR '' '' # s" sc] k
    by (simp add: word_end_def keyword_token_def)
  then show "scan_tokens sc (w @ CHR '' '' # s) =
      bind_res (scan_tokens sc s) (\<lambda>toks. Inr (keyword_token sc w # toks))"
    by (simp add: scan_tokens_token scan_tokens_space)
  show "kw_name (keyword_token sc w) = Some (map pg_ascii_tolower w)"
    using lookup_found [OF k] by (simp add: keyword_token_def)
qed

text \<open>The words of the two commands.\<close>

abbreviation command_word :: "string \<Rightarrow> bool" where
  "command_word w \<equiv> w \<in> {''CREATE'', ''INDEX'', ''IF'', ''NOT'', ''EXISTS'', ''ON'', ''DROP'',
     ''on'', ''drop'', ''table''}"

lemma command_words:
  assumes "command_word w"
  shows "map pg_ascii_tolower w \<in> set ScanKeywords" "list_all ident_cont w" "w \<noteq> []" "ident_start (hd w)"
proof -
  show "map pg_ascii_tolower w \<in> set ScanKeywords"
    using assms command_keywords
    by (elim insertE) (simp_all add: pg_ascii_tolower_def char_code_def char_of_def bit_0)
qed (use assms in \<open>auto simp: ident_cont_def ident_start_def upper_letter_def lower_letter_def char_code_def\<close>)

text \<open>Names in letters of either case, digits, underscores and dollar signs.\<close>

definition name_char :: "char \<Rightarrow> bool" where
  "name_char c \<longleftrightarrow> plain_char c \<or> upper_letter c"

lemma name_char_folds:
  assumes "name_char c"
  shows "downcase_char loc c = pg_ascii_tolower c" "ident_cont c"
proof -
  have "\<not> 128 \<le> char_code c" if "plain_char c"
    using that by (auto simp: plain_char_def lower_letter_def digit_def char_code_def)
  then show "downcase_char loc c = pg_ascii_tolower c"
    using assms plain_char_folds(1) [of c] by (cases loc) (auto simp: name_char_def)
  show "ident_cont c" using assms by (auto simp: name_char_def plain_char_folds char_classes)
qed

lemma name_downcase:
  assumes "list_all name_char w" and "length w < NAMEDATALEN"
  shows "downcase_truncate_identifier enc loc w = map pg_ascii_tolower w" "list_all ident_cont w"
  using assms
  by (auto simp: downcase_truncate_identifier_def downcase_identifier_def pg_downcase_ident_def
      name_char_folds list_all_iff)

lemma lex_name:
  assumes "perfect_hash (kw_hash sc)" and "list_all name_char w" and "length w < NAMEDATALEN"
    and "w \<noteq> []" and "ident_start (hd w)" and "map pg_ascii_tolower w \<notin> set ScanKeywords"
    and "word_end rest"
  shows "core_yylex sc (w @ rest) = Inr (Some (IDENT (map pg_ascii_tolower w), rest))"
proof -
  have "\<not> 0 \<le> ScanKeywordLookup (kw_hash sc) w" using assms(1,6) by (simp add: lookup_nonneg_iff)
  with lex_word [OF assms(4,5) name_downcase(2) [OF assms(2,3)] assms(7), of sc]
    name_downcase(1) [OF assms(2,3)] show ?thesis by (simp add: Let_def)
qed

lemma autoindex_name_token:
  assumes "perfect_hash (kw_hash sc)" and "list_all name_char s" and "length s < 54" and "word_end rest"
  shows "scan_tokens sc (''autoindex_'' @ s @ rest) =
           bind_res (scan_tokens sc rest) (\<lambda>toks. Inr (IDENT (''autoindex_'' @ map pg_ascii_tolower s) # toks))"
proof -
  let ?w = "''autoindex_'' @ s"
  have auto: "map pg_ascii_tolower ''autoindex_'' = ''autoindex_''" "list_all name_char ''autoindex_''"
    by (simp_all add: pg_ascii_tolower_def name_char_def plain_char_def lower_letter_def char_code_def)
  have "map pg_ascii_tolower ?w \<notin> set ScanKeywords"
    unfolding map_append auto using no_autoindex_keyword [of "''autoindex_'' @ map pg_ascii_tolower s"] by auto
  moreover have "list_all name_char ?w" unfolding list_all_append using auto assms(2) by simp
  ultimately have "core_yylex sc (?w @ rest) =
      Inr (Some (IDENT (''autoindex_'' @ map pg_ascii_tolower s), rest))"
    using lex_name [OF assms(1), of ?w rest] assms(3,4) auto(1)
    by (simp add: NAMEDATALEN_def ident_start_def lower_letter_def char_code_def)
  then show ?thesis by (simp add: scan_tokens_token)
qed

lemma safe_first: "ident \<noteq> [] \<Longrightarrow> \<exists>c s. quote_identifier hash qa ident = c # s \<and> (ident_start c \<or> c = CHR 0x22)"
  by (rule quote_identifier_cases [of hash qa ident])
    (auto simp: safe_chars_def char_classes split: list.splits)

subsection \<open>Properties\<close>

text \<open>
  C22: \<^verbatim>\<open>quote_identifier\<close> and the scanner are inverse: the text it produces for any
  non-empty name that fits a \<open>name\<close> column, followed by a separator, is read as a
  single token that denotes exactly that name.
\<close>

theorem quote_identifier_roundtrip:
  assumes "ident \<noteq> []" and "length ident < NAMEDATALEN" and "word_end rest"
  shows "\<exists>tok. core_yylex sc (quote_identifier (kw_hash sc) qa ident @ rest) = Inr (Some (tok, rest)) \<and>
               ColId tok = Some ident"
  using lex_quote_identifier [OF assms] by blast

theorem quote_identifier_roundtrip_witness:
  "\<exists>tok. core_yylex \<lparr>kw_hash = (\<lambda>_. -1), sc_enc = SB, sc_ctype = None\<rparr>
      (quote_identifier (\<lambda>_. -1) False (CHR 0x22 # ''My Table'') @ '' (x)'') = Inr (Some (tok, '' (x)'')) \<and>
      ColId tok = Some (CHR 0x22 # ''My Table'')"
  using quote_identifier_roundtrip [of "CHR 0x22 # ''My Table''" "'' (x)''"
      "\<lparr>kw_hash = (\<lambda>_. -1), sc_enc = SB, sc_ctype = None\<rparr>" False]
  by (simp add: NAMEDATALEN_def word_end_def)

lemma scan_quote_identifier:
  assumes "ident \<noteq> []" and "length ident < NAMEDATALEN" and "word_end rest"
  obtains tok where "scan_tokens sc (quote_identifier (kw_hash sc) qa ident @ rest) =
      bind_res (scan_tokens sc rest) (\<lambda>toks. Inr (tok # toks))"
    "ColId tok = Some ident" "ColLabel tok = Some ident"
  using lex_quote_identifier [OF assms, of sc qa] by (auto dest: scan_tokens_token)

lemma create_tail_scans:
  assumes len: "tbl \<noteq> []" "col \<noteq> []" "length tbl < NAMEDATALEN" "length col < NAMEDATALEN"
  obtains tt tc where "scan_tokens sc (quote_identifier (kw_hash sc) qa tbl @ '' ('' @
      quote_identifier (kw_hash sc) qa col @ '')'') = Inr [tt, SELF CHR ''('', tc, SELF CHR '')'']"
    "ColId tt = Some tbl" "ColId tc = Some col"
proof -
  obtain tc where tc: "scan_tokens sc (quote_identifier (kw_hash sc) qa col @ '')'') =
      bind_res (scan_tokens sc '')'') (\<lambda>toks. Inr (tc # toks))" "ColId tc = Some col"
    by (rule scan_quote_identifier [OF len(2,4), of "'')''" sc qa]) (simp add: word_end_def)
  have close: "scan_tokens sc '')'' = Inr [SELF CHR '')'']"
    by (simp add: scan_tokens_token [OF lex_self(2)] scan_tokens_nil)
  have paren: "scan_tokens sc ('' ('' @ quote_identifier (kw_hash sc) qa col @ '')'') =
      Inr [SELF CHR ''('', tc, SELF CHR '')'']"
    by (simp add: scan_tokens_space scan_tokens_token [OF lex_self(1)] tc close)
  show thesis
    by (rule scan_quote_identifier [OF len(1,3),
          of "'' ('' @ quote_identifier (kw_hash sc) qa col @ '')''" sc qa])
      (use that tc(2) paren in \<open>auto simp: word_end_def\<close>)
qed

lemmas scan_kw = scan_keyword(1) [OF _ command_words]
lemmas kw_token_name = scan_keyword(2) [OF _ command_words]

lemma create_command_scans:
  assumes hash: "perfect_hash (kw_hash sc)"
    and names: "list_all name_char tbl" "list_all name_char col"
    and len: "tbl \<noteq> []" "col \<noteq> []" "length tbl + length col < 53"
  shows "\<exists>toks. scan_tokens sc (create_index_command (kw_hash sc) qa tbl col) = Inr toks \<and>
     parse_create_index toks =
       Some \<lparr>stmt_idxname = ''autoindex_'' @ map pg_ascii_tolower (tbl @ ''_'' @ col),
             stmt_table = tbl, stmt_column = col\<rparr>"
proof -
  have "length tbl < NAMEDATALEN" "length col < NAMEDATALEN"
    using len(3) by (simp_all add: NAMEDATALEN_def)
  then obtain tt tc where t: "scan_tokens sc (quote_identifier (kw_hash sc) qa tbl @ '' ('' @
      quote_identifier (kw_hash sc) qa col @ '')'') = Inr [tt, SELF CHR ''('', tc, SELF CHR '')'']"
    "ColId tt = Some tbl" "ColId tc = Some col"
    using create_tail_scans [OF len(1,2)] by blast
  have name: "list_all name_char (tbl @ ''_'' @ col)" "length (tbl @ ''_'' @ col) < 54"
    using names len(3) by (simp_all add: name_char_def plain_char_def)
  let ?tail = "quote_identifier (kw_hash sc) qa tbl @ '' ('' @ quote_identifier (kw_hash sc) qa col @ '')''"
  have "create_index_command (kw_hash sc) qa tbl col =
      ''CREATE'' @ CHR '' '' # ''INDEX'' @ CHR '' '' # ''IF'' @ CHR '' '' # ''NOT'' @ CHR '' '' #
      ''EXISTS'' @ CHR '' '' # ''autoindex_'' @ (tbl @ ''_'' @ col) @ CHR '' '' # ''ON'' @ CHR '' '' # ?tail"
    by (simp add: create_index_command_def)
  moreover have "word_end (CHR '' '' # s)" for s by (simp add: word_end_def)
  ultimately have "scan_tokens sc (create_index_command (kw_hash sc) qa tbl col) =
      Inr ([keyword_token sc ''CREATE'', keyword_token sc ''INDEX'', keyword_token sc ''IF'',
        keyword_token sc ''NOT'', keyword_token sc ''EXISTS'',
        IDENT (''autoindex_'' @ map pg_ascii_tolower (tbl @ ''_'' @ col)),
        keyword_token sc ''ON'', tt, SELF CHR ''('', tc, SELF CHR '')''])"
    by (simp only: scan_kw [OF hash] autoindex_name_token [OF hash name] scan_tokens_space t
        bind_res.simps insert_iff simp_thms)
  moreover have "kw_name (keyword_token sc w) = Some (map pg_ascii_tolower w)"
    if "command_word w" for w
    by (rule kw_token_name [OF hash that that that that])
  ultimately show ?thesis using t(2,3)
    by (simp add: parse_create_index_def pg_ascii_tolower_def char_code_def char_of_def bit_0)
qed

text \<open>A hash that keeps the promise: the position in the list.\<close>

definition sample_hash :: "string \<Rightarrow> int" where
  "sample_hash s = int (length (takeWhile (\<lambda>k. k \<noteq> map pg_ascii_tolower s) ScanKeywords))"

definition sample_scanner :: scanner where
  "sample_scanner = \<lparr>kw_hash = sample_hash, sc_enc = UTF8, sc_ctype = None\<rparr>"

lemma perfect_sample: "perfect_hash (kw_hash sample_scanner)"
proof -
  have "length (takeWhile (\<lambda>k. k \<noteq> w) xs) < length xs \<and> xs ! length (takeWhile (\<lambda>k. k \<noteq> w) xs) = w"
    if "w \<in> set xs" for w :: string and xs
    using that by (induction xs) auto
  then show ?thesis by (simp add: perfect_hash_def sample_scanner_def sample_hash_def)
qed

text \<open>
  C20: the CREATE INDEX command denotes the table and the column it was made for:
  for names of letters, digits, underscores and dollar signs that fit, the text
  is scanned without error and parsed as one statement on exactly that table and
  column, whose index name is the downcased \<open>autoindex_<table>_<column>\<close>.
\<close>

theorem create_command_denotes:
  assumes "perfect_hash (kw_hash sc)"
    and "list_all name_char tbl" and "list_all name_char col"
    and "tbl \<noteq> []" and "col \<noteq> []" and "length tbl + length col < 53"
  shows "\<exists>toks. scan_tokens sc (create_index_command (kw_hash sc) qa tbl col) = Inr toks \<and>
     parse_create_index toks =
       Some \<lparr>stmt_idxname = ''autoindex_'' @ map pg_ascii_tolower (tbl @ ''_'' @ col),
             stmt_table = tbl, stmt_column = col\<rparr>"
  using assms by (rule create_command_scans)

lemma sample_name_chars: "list_all name_char ''Order''" "list_all name_char ''order''" "list_all name_char ''id''"
  by (simp_all add: name_char_def plain_char_def lower_letter_def upper_letter_def char_code_def)

theorem create_command_denotes_witness:
  "\<exists>toks. scan_tokens sample_scanner (create_index_command (kw_hash sample_scanner) False ''Order'' ''id'') =
       Inr toks \<and>
     parse_create_index toks =
       Some \<lparr>stmt_idxname = ''autoindex_order_id'', stmt_table = ''Order'', stmt_column = ''id''\<rparr>"
  using create_command_denotes [OF perfect_sample sample_name_chars(1,3)]
  by (simp add: pg_ascii_tolower_def char_code_def char_of_def bit_0)

text \<open>
  The name in the command is not unique to the column. Two different tables
  whose names differ in case, or a table and a column that split the same text
  elsewhere, get the same index name, and the \<open>IF NOT EXISTS\<close> of the second
  command then finds the first one's index.
\<close>

lemma index_names_collide:
  "\<exists>sc toks1 toks2 toks3 s1 s2 s3. perfect_hash (kw_hash sc) \<and>
     scan_tokens sc (create_index_command (kw_hash sc) False ''Order'' ''id'') = Inr toks1 \<and>
     scan_tokens sc (create_index_command (kw_hash sc) False ''order'' ''id'') = Inr toks2 \<and>
     scan_tokens sc (create_index_command (kw_hash sc) False ''order_id'' ''id'') = Inr toks3 \<and>
     parse_create_index toks1 = Some s1 \<and> parse_create_index toks2 = Some s2 \<and>
     stmt_idxname s1 = stmt_idxname s2 \<and> stmt_table s1 \<noteq> stmt_table s2 \<and>
     (\<exists>toks. scan_tokens sc (create_index_command (kw_hash sc) False ''order'' ''id_id'') = Inr toks \<and>
        parse_create_index toks = Some s3 \<and> parse_create_index toks3 \<noteq> Some s3 \<and>
        map_option stmt_idxname (parse_create_index toks3) = Some (stmt_idxname s3))"
proof -
  have n: "list_all name_char ''order_id''" "list_all name_char ''id_id''"
    by (simp_all add: name_char_def plain_char_def lower_letter_def char_code_def)
  note c = create_command_scans [OF perfect_sample, where qa = False]
  from c [OF sample_name_chars(1,3)] c [OF sample_name_chars(2,3)] c [OF n(1) sample_name_chars(3)]
    c [OF sample_name_chars(2) n(2)] perfect_sample
  show ?thesis by (auto simp: pg_ascii_tolower_def char_code_def char_of_def bit_0)
qed

text \<open>
  C21: the DROP INDEX command of the lifecycle pass quotes both parts, and for
  every schema and index name that fits it denotes exactly that index.
\<close>

theorem drop_command_denotes:
  assumes hash: "perfect_hash (kw_hash sc)"
    and len: "nsp \<noteq> []" "idx \<noteq> []" "length nsp < NAMEDATALEN" "length idx < NAMEDATALEN"
  shows "\<exists>toks. scan_tokens sc (drop_index_command (kw_hash sc) qa nsp idx) = Inr toks \<and>
     parse_drop_index toks = Some (nsp, idx)"
proof -
  let ?n = "quote_identifier (kw_hash sc) qa nsp" and ?i = "quote_identifier (kw_hash sc) qa idx"
  obtain ti where ti: "scan_tokens sc (?i @ []) = bind_res (scan_tokens sc []) (\<lambda>toks. Inr (ti # toks))"
    "ColLabel ti = Some idx"
    by (rule scan_quote_identifier [OF len(2,4), of "[]" sc qa]) (simp add: word_end_def)
  obtain tn where tn: "scan_tokens sc (?n @ ''.'' @ ?i) =
      bind_res (scan_tokens sc (''.'' @ ?i)) (\<lambda>toks. Inr (tn # toks))" "ColId tn = Some nsp"
    by (rule scan_quote_identifier [OF len(1,3), of "''.'' @ ?i" sc qa]) (simp add: word_end_def)
  obtain c s where cs: "?i = c # s" "ident_start c \<or> c = CHR 0x22" using safe_first [OF len(2)] by blast
  have dot: "scan_tokens sc (''.'' @ ?i) = Inr [SELF CHR ''.'', ti]"
    using scan_tokens_token [OF lex_self(3) [OF cs(2)]] ti(1) by (simp add: cs(1) scan_tokens_nil)
  have "drop_index_command (kw_hash sc) qa nsp idx = ''DROP'' @ CHR '' '' # ''INDEX'' @ CHR '' '' #
      ''IF'' @ CHR '' '' # ''EXISTS'' @ CHR '' '' # ?n @ ''.'' @ ?i"
    by (simp add: drop_index_command_def)
  then have "scan_tokens sc (drop_index_command (kw_hash sc) qa nsp idx) =
      Inr [keyword_token sc ''DROP'', keyword_token sc ''INDEX'', keyword_token sc ''IF'',
        keyword_token sc ''EXISTS'', tn, SELF CHR ''.'', ti]"
    by (simp only: scan_kw [OF hash] tn dot bind_res.simps insert_iff simp_thms)
  moreover have "kw_name (keyword_token sc w) = Some (map pg_ascii_tolower w)"
    if "command_word w" for w
    by (rule kw_token_name [OF hash that that that that])
  ultimately show ?thesis using tn(2) ti(2)
    by (simp add: parse_drop_index_def pg_ascii_tolower_def char_code_def char_of_def bit_0)
qed

theorem drop_command_denotes_witness:
  "\<exists>toks. scan_tokens sample_scanner (drop_index_command (kw_hash sample_scanner) True ''public'' ''My Index'') =
       Inr toks \<and> parse_drop_index toks = Some (''public'', ''My Index'')"
  using drop_command_denotes [OF perfect_sample, of "''public''" "''My Index''" True]
  by (simp add: NAMEDATALEN_def)

definition evil_name :: string where
  "evil_name = ''t on t(c);drop table x;--''"

lemma lex_semicolon: "core_yylex sc (CHR '';'' # s) = Inr (Some (SELF CHR '';'', s))"
  by (simp add: core_yylex.simps(2) scanner_isspace_def char_code_def ident_start_def upper_letter_def
      lower_letter_def)

lemma lex_comment:
  assumes "\<forall>c \<in> set s. \<not> newline c"
  shows "core_yylex sc (CHR ''-'' # CHR ''-'' # s) = Inr None"
proof -
  have "dropWhile (\<lambda>c. \<not> newline c) (CHR ''-'' # s) = []"
    using assms by (simp add: newline_def char_code_def)
  moreover have "\<not> scanner_isspace CHR ''-''" by (simp add: scanner_isspace_def char_code_def)
  ultimately show ?thesis by (subst core_yylex.simps(2)) (simp only: if_False if_True take_Suc_Cons
        One_nat_def take0 simp_thms core_yylex.simps(1))
qed

lemma newline_chars [simp]:
  "\<not> newline CHR 0x22" "\<not> newline CHR '' ''" "\<not> newline CHR ''_''" "\<not> newline CHR ''(''"
  "\<not> newline CHR '')''" "\<not> newline CHR ''O''" "\<not> newline CHR ''N''"
  by (simp_all add: newline_def char_code_def)

lemma set_double_quotes: "set (double_quotes s) = set s"
  by (induction s) auto

lemma set_quote_identifier: "set (quote_identifier hash qa s) \<subseteq> insert CHR 0x22 (set s)"
  by (rule quote_identifier_cases [of hash qa s]) (auto simp: set_double_quotes)

lemma single_letter_token:
  assumes "perfect_hash (kw_hash sc)" and "w \<in> {''t'', ''c'', ''x''}" and "word_end rest"
  shows "scan_tokens sc (w @ rest) = bind_res (scan_tokens sc rest) (\<lambda>toks. Inr (IDENT w # toks))"
proof -
  have "list_all (\<lambda>k. length k \<noteq> 1) ScanKeywords" by (simp add: kwlist_defs)
  then have "{''t'', ''c'', ''x''} \<inter> set ScanKeywords = {}" by (auto simp: list_all_iff)
  moreover have "map pg_ascii_tolower w = w" "list_all name_char w" "ident_start (hd w)" "w \<noteq> []"
    "length w < NAMEDATALEN"
    using assms(2) by (auto simp: pg_ascii_tolower_def name_char_def plain_char_def lower_letter_def
        char_code_def ident_start_def NAMEDATALEN_def)
  ultimately have "core_yylex sc (w @ rest) = Inr (Some (IDENT w, rest))"
    using lex_name [OF assms(1), of w rest] assms(2,3) by auto
  then show ?thesis by (rule scan_tokens_token)
qed

text \<open>
  C38: the table name goes into the index name of the command unquoted, so a table
  name can end the statement and add another one. For a table named
  \<open>t on t(c);drop table x;--\<close> the text that the worker executes, for every column
  without a line break in its name, is a CREATE INDEX on \<open>t\<close> and then the statement
  \<open>drop table x\<close>.
\<close>

theorem table_name_injects_sql:
  assumes hash: "perfect_hash (kw_hash sc)" and col: "\<forall>c \<in> set col. \<not> newline c"
  shows "\<exists>toks1 t1 t2. scan_tokens sc (create_index_command (kw_hash sc) qa evil_name col) =
       Inr (toks1 @ [SELF CHR '';'', t1, t2, IDENT ''x'', SELF CHR '';'']) \<and>
     parse_create_index toks1 = Some \<lparr>stmt_idxname = ''autoindex_t'', stmt_table = ''t'', stmt_column = ''c''\<rparr> \<and>
     kw_name t1 = Some ''drop'' \<and> kw_name t2 = Some ''table''"
proof -
  let ?cmt = "''_'' @ col @ '' ON '' @ quote_identifier (kw_hash sc) qa evil_name @ '' ('' @
      quote_identifier (kw_hash sc) qa col @ '')''"
  have "\<forall>c \<in> set evil_name. \<not> newline c" by (simp add: evil_name_def newline_def char_code_def)
  then have "\<forall>c \<in> set ?cmt. \<not> newline c"
    using col set_quote_identifier [of "kw_hash sc" qa evil_name]
      set_quote_identifier [of "kw_hash sc" qa col] by auto
  from lex_comment [OF this, of sc]
  have cmt: "scan_tokens sc (CHR ''-'' # CHR ''-'' # ?cmt) = Inr []" by (subst scan_tokens.simps) simp
  have we: "word_end (CHR '' '' # s)" "word_end (CHR '';'' # s)" "word_end (CHR ''('' # s)"
    "word_end (CHR '')'' # s)" for s by (simp_all add: word_end_def)
  have t: "list_all name_char ''t''" "length ''t'' < 54"
    by (simp_all add: name_char_def plain_char_def lower_letter_def char_code_def)
  have self: "scan_tokens sc (CHR '';'' # s) = bind_res (scan_tokens sc s) (\<lambda>toks. Inr (SELF CHR '';'' # toks))"
    "scan_tokens sc (CHR ''('' # s) = bind_res (scan_tokens sc s) (\<lambda>toks. Inr (SELF CHR ''('' # toks))"
    "scan_tokens sc (CHR '')'' # s) = bind_res (scan_tokens sc s) (\<lambda>toks. Inr (SELF CHR '')'' # toks))" for s
    by (simp_all add: scan_tokens_token [OF lex_semicolon] scan_tokens_token [OF lex_self(1)]
        scan_tokens_token [OF lex_self(2)])
  have "create_index_command (kw_hash sc) qa evil_name col =
      ''CREATE'' @ CHR '' '' # ''INDEX'' @ CHR '' '' # ''IF'' @ CHR '' '' # ''NOT'' @ CHR '' '' #
      ''EXISTS'' @ CHR '' '' # ''autoindex_'' @ ''t'' @ CHR '' '' # ''on'' @ CHR '' '' # ''t'' @ CHR ''('' #
      ''c'' @ CHR '')'' # CHR '';'' # ''drop'' @ CHR '' '' # ''table'' @ CHR '' '' # ''x'' @ CHR '';'' #
      CHR ''-'' # CHR ''-'' # ?cmt"
    by (simp add: create_index_command_def evil_name_def)
  then have "scan_tokens sc (create_index_command (kw_hash sc) qa evil_name col) =
      Inr ([keyword_token sc ''CREATE'', keyword_token sc ''INDEX'', keyword_token sc ''IF'',
        keyword_token sc ''NOT'', keyword_token sc ''EXISTS'',
        IDENT (''autoindex_'' @ map pg_ascii_tolower ''t''), keyword_token sc ''on'', IDENT ''t'',
        SELF CHR ''('', IDENT ''c'', SELF CHR '')'', SELF CHR '';'', keyword_token sc ''drop'',
        keyword_token sc ''table'', IDENT ''x'', SELF CHR '';''])"
    by (simp only: scan_kw [OF hash] autoindex_name_token [OF hash t we(1)] scan_tokens_space
        single_letter_token [OF hash _ we(2)] single_letter_token [OF hash _ we(3)]
        single_letter_token [OF hash _ we(4)] self cmt bind_res.simps insert_iff simp_thms)
  moreover have "kw_name (keyword_token sc w) = Some (map pg_ascii_tolower w)"
    if "command_word w" for w
    by (rule kw_token_name [OF hash that that that that])
  ultimately show ?thesis
    by (intro exI [of _ "[keyword_token sc ''CREATE'', keyword_token sc ''INDEX'', keyword_token sc ''IF'',
        keyword_token sc ''NOT'', keyword_token sc ''EXISTS'', IDENT ''autoindex_t'', keyword_token sc ''on'',
        IDENT ''t'', SELF CHR ''('', IDENT ''c'', SELF CHR '')'']"])
      (simp add: parse_create_index_def pg_ascii_tolower_def char_code_def char_of_def bit_0)
qed

theorem table_name_injects_sql_witness:
  "\<exists>toks1 t1 t2. scan_tokens sample_scanner (create_index_command (kw_hash sample_scanner) False evil_name ''id'') =
       Inr (toks1 @ [SELF CHR '';'', t1, t2, IDENT ''x'', SELF CHR '';'']) \<and>
     kw_name t1 = Some ''drop'' \<and> kw_name t2 = Some ''table''"
proof -
  have "\<forall>c \<in> set ''id''. \<not> newline c" by (simp add: newline_def char_code_def)
  from table_name_injects_sql [OF perfect_sample this, of False] show ?thesis by blast
qed

end
