(* ===== verification/Numutils.thy ===== *)
theory Numutils
  imports Identifiers
begin

section \<open>Integers as text (numutils.c)\<close>

text \<open>
  Decimal output of 32- and 64-bit integers, as it is used for the counts and
  page numbers that the advisor reads back as text, and input of 16-, 32- and
  64-bit integers, as it is used for the numbers in the query texts. The output
  routines fill a caller's buffer from the right, two digits at a time; a buffer
  is a list of characters, and a write is a list update. The input routines exist
  in three copies that differ in the width only; they are instances of one
  definition over the word length.
\<close>

subsection \<open>Output\<close>

definition DIGIT_TABLE :: string where
  "DIGIT_TABLE =
    ''00010203040506070809'' @ ''10111213141516171819'' @ ''20212223242526272829'' @
    ''30313233343536373839'' @ ''40414243444546474849'' @ ''50515253545556575859'' @
    ''60616263646566676869'' @ ''70717273747576777879'' @ ''80818283848586878889'' @
    ''90919293949596979899''"

text \<open>The position of the leftmost set bit, by the compiler's count of leading zeros.\<close>

fun leftmost_one_pos :: "nat \<Rightarrow> nat" where
  "leftmost_one_pos n = (if n < 2 then 0 else Suc (leftmost_one_pos (n div 2)))"

declare leftmost_one_pos.simps [simp del]

definition PowersOfTen32 :: "uint32 list" where
  "PowersOfTen32 = [1, 10, 100, 1000, 10000, 100000, 1000000, 10000000, 100000000, 1000000000]"

definition PowersOfTen64 :: "uint64 list" where
  "PowersOfTen64 = [1, 10, 100, 1000, 10000, 100000, 1000000, 10000000, 100000000, 1000000000,
     10000000000, 100000000000, 1000000000000, 10000000000000, 100000000000000, 1000000000000000,
     10000000000000000, 100000000000000000, 1000000000000000000, 10000000000000000000]"

definition decimalLength32 :: "uint32 \<Rightarrow> nat" where
  "decimalLength32 v =
     (let t = (leftmost_one_pos (unat v) + 1) * 1233 div 4096 in
      t + (if PowersOfTen32 ! t \<le> v then 1 else 0))"

definition decimalLength64 :: "uint64 \<Rightarrow> nat" where
  "decimalLength64 v =
     (let t = (leftmost_one_pos (unat v) + 1) * 1233 div 4096 in
      t + (if PowersOfTen64 ! t \<le> v then 1 else 0))"

text \<open>\<open>memcpy(pos, DIGIT_TABLE + c, 2)\<close>.\<close>

definition put_pair :: "nat \<Rightarrow> 'a::len word \<Rightarrow> string \<Rightarrow> string" where
  "put_pair pos c a = a[pos := DIGIT_TABLE ! unat c, pos + 1 := DIGIT_TABLE ! (unat c + 1)]"

definition digit_char :: "nat \<Rightarrow> char" where
  "digit_char d = char_of (48 + d)"

function ultoa_loop :: "nat \<Rightarrow> uint32 \<Rightarrow> nat \<Rightarrow> string \<Rightarrow> uint32 \<times> nat \<times> string" where
  "ultoa_loop olength val i a =
     (if 10000 \<le> val then
        let c = val - 10000 * (val div 10000);
            c0 = push_bit 1 (c mod 100);
            c1 = push_bit 1 (c div 100);
            pos = olength - i
        in ultoa_loop olength (val div 10000) (i + 4) (put_pair (pos - 4) c1 (put_pair (pos - 2) c0 a))
      else (val, i, a))"
  by pat_completeness auto
termination
  by (relation "measure (\<lambda>(olength, val, i, a). unat val)")
    (auto simp: word_le_nat_alt unat_div)

declare ultoa_loop.simps [simp del]

text \<open>The last one to four digits.\<close>

definition ultoa_finish :: "nat \<Rightarrow> uint32 \<Rightarrow> nat \<Rightarrow> string \<Rightarrow> string" where
  "ultoa_finish olength val i a =
     (let (val, i, a) =
        (if 100 \<le> val
         then (val div 100, i + 2, put_pair (olength - i - 2) (push_bit 1 (val mod 100)) a)
         else (val, i, a))
      in if 10 \<le> val then put_pair (olength - i - 2) (push_bit 1 val) a
         else a[0 := digit_char (unat val)])"

definition pg_ultoa_n :: "uint32 \<Rightarrow> string \<Rightarrow> nat \<times> string" where
  "pg_ultoa_n val a =
     (if val = 0 then (1, a[0 := CHR ''0''])
      else
        let olength = decimalLength32 val;
            (val, i, a) = ultoa_loop olength val 0 a
        in (olength, ultoa_finish olength val i a))"

text \<open>
  The signed versions write the sign, let the unsigned routine fill the buffer
  behind it, and terminate the string.
\<close>

definition signed_decimal ::
  "('a::len word \<Rightarrow> string \<Rightarrow> nat \<times> string) \<Rightarrow> 'a word \<Rightarrow> string \<Rightarrow> nat \<times> string" where
  "signed_decimal toa_n val a =
     (let (uvalue, len, a) =
        (if sint val < 0 then (0 - val, 1, a[0 := CHR ''-'']) else (val, 0, a));
        (n, b) = toa_n uvalue (drop len a)
      in (len + n, (take len a @ b)[len + n := CHR 0x00]))"

definition pg_ltoa :: "int32 \<Rightarrow> string \<Rightarrow> nat \<times> string" where
  "pg_ltoa val a = signed_decimal pg_ultoa_n val a"

definition pg_itoa :: "int16 \<Rightarrow> string \<Rightarrow> nat \<times> string" where
  "pg_itoa i a = pg_ltoa (scast i) a"

function ulltoa_loop :: "nat \<Rightarrow> uint64 \<Rightarrow> nat \<Rightarrow> string \<Rightarrow> uint64 \<times> nat \<times> string" where
  "ulltoa_loop olength val i a =
     (if 100000000 \<le> val then
        let q = val div 100000000;
            value3 = ucast (val - 100000000 * q) :: uint32;
            c = value3 mod 10000;
            d = value3 div 10000;
            c0 = push_bit 1 (c mod 100);
            c1 = push_bit 1 (c div 100);
            d0 = push_bit 1 (d mod 100);
            d1 = push_bit 1 (d div 100);
            pos = olength - i
        in ulltoa_loop olength q (i + 8)
             (put_pair (pos - 8) d1 (put_pair (pos - 6) d0
               (put_pair (pos - 4) c1 (put_pair (pos - 2) c0 a))))
      else (val, i, a))"
  by pat_completeness auto
termination
  by (relation "measure (\<lambda>(olength, val, i, a). unat val)")
    (auto simp: word_le_nat_alt unat_div)

declare ulltoa_loop.simps [simp del]

definition pg_ulltoa_n :: "uint64 \<Rightarrow> string \<Rightarrow> nat \<times> string" where
  "pg_ulltoa_n val a =
     (if val = 0 then (1, a[0 := CHR ''0''])
      else
        let olength = decimalLength64 val;
            (val, i, a) = ulltoa_loop olength val 0 a;
            value2 = ucast val :: uint32;
            (value2, i, a) =
              (if 10000 \<le> value2 then
                 let c = value2 - 10000 * (value2 div 10000);
                     c0 = push_bit 1 (c mod 100);
                     c1 = push_bit 1 (c div 100);
                     pos = olength - i
                 in (value2 div 10000, i + 4, put_pair (pos - 4) c1 (put_pair (pos - 2) c0 a))
               else (value2, i, a))
        in (olength, ultoa_finish olength value2 i a))"

definition pg_lltoa :: "int64 \<Rightarrow> string \<Rightarrow> nat \<times> string" where
  "pg_lltoa val a = signed_decimal pg_ulltoa_n val a"

text \<open>The text of a buffer up to its terminator: what the output functions return.\<close>

definition cstring :: "string \<Rightarrow> string" where
  "cstring a = takeWhile (\<lambda>c. c \<noteq> CHR 0x00) a"

definition int4out :: "int32 \<Rightarrow> string" where
  "int4out arg1 = cstring (snd (pg_ltoa arg1 (replicate 12 CHR 0x00)))"

definition MAXINT8LEN :: nat where
  "MAXINT8LEN = 20"

definition int8out :: "int64 \<Rightarrow> string" where
  "int8out arg1 =
     (let (n, buf) = pg_lltoa arg1 (replicate (MAXINT8LEN + 1) CHR 0x00) in cstring (take (n + 1) buf))"

subsection \<open>Decimal notation\<close>

fun dec :: "nat \<Rightarrow> string" where
  "dec n = (if n < 10 then [digit_char n] else dec (n div 10) @ [digit_char (n mod 10)])"

declare dec.simps [simp del]

text \<open>The digit of weight \<open>10 ^ j\<close>.\<close>

definition dec_digit :: "nat \<Rightarrow> nat \<Rightarrow> char" where
  "dec_digit v j = digit_char (v div 10 ^ j mod 10)"

lemma dec_length_bounds: "n < 10 ^ length (dec n)" "0 < n \<Longrightarrow> 10 ^ (length (dec n) - 1) \<le> n" "0 < length (dec n)"
proof (induction n rule: dec.induct)
  case (1 n)
  have *: "n < 10 \<or> dec n = dec (n div 10) @ [digit_char (n mod 10)]" by (subst dec.simps) simp
  show "n < 10 ^ length (dec n)"
  proof (cases "n < 10")
    case False
    with 1(1) have "n div 10 < 10 ^ length (dec (n div 10))" by simp
    then have "n < 10 * 10 ^ length (dec (n div 10))" by linarith
    with False * show ?thesis by simp
  qed (simp add: dec.simps)
  show "10 ^ (length (dec n) - 1) \<le> n" if "0 < n"
  proof (cases "n < 10")
    case False
    then have "10 ^ (length (dec (n div 10)) - 1) \<le> n div 10" using 1(2) by simp
    then have "10 * 10 ^ (length (dec (n div 10)) - 1) \<le> n" by linarith
    moreover have "0 < length (dec (n div 10))" using 1(3) False by simp
    ultimately show ?thesis using False * by (cases "length (dec (n div 10))") auto
  qed (use that in \<open>simp add: dec.simps\<close>)
  show "0 < length (dec n)" by (subst dec.simps) simp
qed

lemma dec_length_unique:
  assumes "0 < n" and "10 ^ k \<le> n" and "n < 10 ^ Suc k"
  shows "length (dec n) = Suc k"
proof -
  let ?l = "length (dec n)"
  have "(10::nat) ^ k < 10 ^ ?l" using assms(2) dec_length_bounds(1) [of n] by linarith
  then have "k < ?l" by simp
  have "(10::nat) ^ (?l - 1) < 10 ^ Suc k" using dec_length_bounds(2) [OF assms(1)] assms(3) by linarith
  then have "?l - 1 < Suc k" by (rule power_less_imp_less_exp [rotated]) simp
  with \<open>k < ?l\<close> show ?thesis by simp
qed

lemma dec_length_less: "10 ^ k \<le> n \<Longrightarrow> k < length (dec n)"
proof -
  assume "10 ^ k \<le> n"
  then have "(10::nat) ^ k < 10 ^ length (dec n)" using dec_length_bounds(1) [of n] by linarith
  then show "k < length (dec n)" by simp
qed

lemma nth_dec: "k < length (dec n) \<Longrightarrow> dec n ! k = dec_digit n (length (dec n) - 1 - k)"
proof (induction n arbitrary: k rule: dec.induct)
  case (1 n)
  show ?case
  proof (cases "n < 10")
    case True
    with "1.prems" show ?thesis by (simp add: dec.simps [of n] dec_digit_def)
  next
    case False
    have dec: "dec n = dec (n div 10) @ [digit_char (n mod 10)]" using False by (subst dec.simps) simp
    let ?l = "length (dec (n div 10))"
    show ?thesis
    proof (cases "k < ?l")
      case True
      have "?l - k = Suc (?l - 1 - k)" using True by simp
      then have "dec_digit (n div 10) (?l - 1 - k) = dec_digit n (?l - k)"
        by (simp add: dec_digit_def div_mult2_eq)
      with "1.IH" [OF False True] True show ?thesis by (simp add: dec nth_append)
    next
      case k: False
      with "1.prems" have "k = ?l" by (simp add: dec)
      then show ?thesis by (simp add: dec dec_digit_def)
    qed
  qed
qed

subsection \<open>The length estimate is exact\<close>

lemma leftmost_one_pos_bounds:
  "0 < n \<Longrightarrow> 2 ^ leftmost_one_pos n \<le> n \<and> n < 2 ^ Suc (leftmost_one_pos n)"
proof (induction n rule: leftmost_one_pos.induct)
  case (1 n)
  show ?case
  proof (cases "n < 2")
    case True
    with "1.prems" show ?thesis by (simp add: leftmost_one_pos.simps [of n])
  next
    case False
    then have "leftmost_one_pos n = Suc (leftmost_one_pos (n div 2))" by (subst leftmost_one_pos.simps) simp
    moreover have "2 ^ leftmost_one_pos (n div 2) \<le> n div 2 \<and> n div 2 < 2 ^ Suc (leftmost_one_pos (n div 2))"
      using "1.IH" False by simp
    ultimately show ?thesis by simp linarith
  qed
qed

definition log10_estimate :: "nat \<Rightarrow> nat" where
  "log10_estimate k = (k + 1) * 1233 div 4096"

lemma log10_estimate_table:
  "list_all (\<lambda>k. let t = log10_estimate k in
     (t = 0 \<or> (10::nat) ^ (t - 1) \<le> 2 ^ k) \<and> (2::nat) ^ Suc k \<le> 10 ^ Suc t) [0..<64]"
  by (simp add: upt_rec log10_estimate_def)

lemma estimate_length:
  assumes "0 < n" and "n < 2 ^ 64"
  defines "t \<equiv> log10_estimate (leftmost_one_pos n)"
  shows "t + (if 10 ^ t \<le> n then 1 else 0) = length (dec n)"
proof -
  let ?k = "leftmost_one_pos n"
  note k = leftmost_one_pos_bounds [OF assms(1)]
  have "(2::nat) ^ ?k < 2 ^ 64" using k assms(2) by linarith
  then have "?k < 64" by (rule power_less_imp_less_exp [rotated]) simp
  then have t: "t = 0 \<or> (10::nat) ^ (t - 1) \<le> 2 ^ ?k" "(2::nat) ^ Suc ?k \<le> 10 ^ Suc t"
    using log10_estimate_table by (auto simp: list_all_iff Let_def t_def)
  show ?thesis
  proof (cases "10 ^ t \<le> n")
    case True
    with dec_length_unique [OF assms(1) True] t(2) k show ?thesis by simp
  next
    case False
    then have "t \<noteq> 0" using assms(1) by (cases t) auto
    then obtain s where s: "t = Suc s" by (cases t) auto
    with t(1) k False have "10 ^ s \<le> n" "n < 10 ^ Suc s" by auto
    with dec_length_unique [OF assms(1)] s False show ?thesis by simp
  qed
qed

lemma estimate_bound: "k < 32 \<Longrightarrow> log10_estimate k < 10" "k < 64 \<Longrightarrow> log10_estimate k < 20"
  by (auto simp: log10_estimate_def)

lemma PowersOfTen_nth: "t < 10 \<Longrightarrow> unat (PowersOfTen32 ! t) = 10 ^ t" "t < 20 \<Longrightarrow> unat (PowersOfTen64 ! t) = 10 ^ t"
proof -
  have "list_all (\<lambda>t. unat (PowersOfTen32 ! t) = 10 ^ t) [0..<10]"
    by (simp add: PowersOfTen32_def upt_rec)
  then show "t < 10 \<Longrightarrow> unat (PowersOfTen32 ! t) = 10 ^ t" by (auto simp: list_all_iff)
  have "list_all (\<lambda>t. unat (PowersOfTen64 ! t) = 10 ^ t) [0..<20]"
    by (simp add: PowersOfTen64_def upt_rec)
  then show "t < 20 \<Longrightarrow> unat (PowersOfTen64 ! t) = 10 ^ t" by (auto simp: list_all_iff)
qed

lemma leftmost_below: "0 < n \<Longrightarrow> n < 2 ^ b \<Longrightarrow> leftmost_one_pos n < b"
  using leftmost_one_pos_bounds [of n]
  by (meson le_less_trans one_less_numeral_iff power_less_imp_less_exp semiring_norm(76))

lemma decimalLength_exact:
  "v \<noteq> 0 \<Longrightarrow> decimalLength32 v = length (dec (unat v))"
  "w \<noteq> 0 \<Longrightarrow> decimalLength64 w = length (dec (unat w))"
proof -
  assume "v \<noteq> 0"
  then have v: "0 < unat v" "unat v < 2 ^ 32" using unsigned_less [of v] by (simp_all add: unat_gt_0)
  let ?t = "log10_estimate (leftmost_one_pos (unat v))"
  have "?t < 10" using leftmost_below [OF v] by (rule estimate_bound)
  then have "PowersOfTen32 ! ?t \<le> v \<longleftrightarrow> 10 ^ ?t \<le> unat v"
    by (simp add: word_le_nat_alt PowersOfTen_nth)
  with estimate_length [OF v(1)] v(2) show "decimalLength32 v = length (dec (unat v))"
    by (simp add: decimalLength32_def log10_estimate_def Let_def)
next
  assume "w \<noteq> 0"
  then have w: "0 < unat w" "unat w < 2 ^ 64" using unsigned_less [of w] by (simp_all add: unat_gt_0)
  let ?t = "log10_estimate (leftmost_one_pos (unat w))"
  have "?t < 20" using leftmost_below [OF w] by (rule estimate_bound)
  then have "PowersOfTen64 ! ?t \<le> w \<longleftrightarrow> 10 ^ ?t \<le> unat w"
    by (simp add: word_le_nat_alt PowersOfTen_nth)
  with estimate_length [OF w] show "decimalLength64 w = length (dec (unat w))"
    by (simp add: decimalLength64_def log10_estimate_def Let_def)
qed

subsection \<open>The buffer after each write\<close>

text \<open>The rightmost \<open>i\<close> of \<open>len\<close> characters hold the low digits of \<open>v\<close>.\<close>

definition filled :: "nat \<Rightarrow> nat \<Rightarrow> nat \<Rightarrow> string \<Rightarrow> bool" where
  "filled v len i a \<longleftrightarrow> len \<le> length a \<and> i \<le> len \<and> (\<forall>j<i. a ! (len - 1 - j) = dec_digit v j)"

lemma nth_concat_pairs:
  "c < n \<Longrightarrow> concat (map (\<lambda>c. [f c, g c]) [0..<n]) ! (2 * c) = f c"
  "c < n \<Longrightarrow> concat (map (\<lambda>c. [f c, g c]) [0..<n]) ! (2 * c + 1) = g c"
proof -
  have "length (concat (map (\<lambda>c. [f c, g c]) [0..<n])) = 2 * n" for n by (induction n) auto
  then show "c < n \<Longrightarrow> concat (map (\<lambda>c. [f c, g c]) [0..<n]) ! (2 * c) = f c"
    "c < n \<Longrightarrow> concat (map (\<lambda>c. [f c, g c]) [0..<n]) ! (2 * c + 1) = g c"
    by (induction n) (auto simp: nth_append less_Suc_eq simp del: map_concat length_concat)
qed

lemma DIGIT_TABLE_pairs:
  assumes "c < 100"
  shows "DIGIT_TABLE ! (2 * c) = digit_char (c div 10)" "DIGIT_TABLE ! (2 * c + 1) = digit_char (c mod 10)"
proof -
  have table: "DIGIT_TABLE = concat (map (\<lambda>c. [digit_char (c div 10), digit_char (c mod 10)]) [0..<100])"
    by (simp add: upt_rec DIGIT_TABLE_def digit_char_def char_of_def bit_0)
  show "DIGIT_TABLE ! (2 * c) = digit_char (c div 10)" "DIGIT_TABLE ! (2 * c + 1) = digit_char (c mod 10)"
    unfolding table by (rule nth_concat_pairs [OF assms])+
qed

lemma div_power_Suc: "(v::nat) div 10 ^ Suc i = v div 10 ^ i div 10"
  by (metis div_mult2_eq power_Suc2)

lemma mod_100_digits: "(n::nat) mod 100 mod 10 = n mod 10" "n mod 100 div 10 = n div 10 mod 10"
  using mod_mult2_eq [of n 10 10] by simp_all

lemma filled_pair:
  assumes "filled v len i a" and "i + 2 \<le> len" and "unat c = 2 * (v div 10 ^ i mod 100)"
  shows "filled v len (i + 2) (put_pair (len - i - 2) c a)"
proof -
  let ?n = "v div 10 ^ i" and ?p = "len - i - 2"
  have n: "?n mod 100 < 100" by simp
  have d: "dec_digit v i = digit_char (?n mod 100 mod 10)" "dec_digit v (Suc i) = digit_char (?n mod 100 div 10)"
    by (simp_all only: dec_digit_def div_power_Suc mod_100_digits)
  have len: "len \<le> length a" and old: "\<And>j. j < i \<Longrightarrow> a ! (len - 1 - j) = dec_digit v j"
    using assms(1) by (simp_all add: filled_def)
  have new: "put_pair ?p c a ! k = (if k = ?p then dec_digit v (Suc i)
      else if k = ?p + 1 then dec_digit v i else a ! k)" if "k < len" for k
    using that len assms(2,3) DIGIT_TABLE_pairs [OF n] d by (simp add: put_pair_def nth_list_update)
  have "put_pair ?p c a ! (len - 1 - j) = dec_digit v j" if "j < i + 2" for j
  proof -
    have "j = i \<or> j = Suc i \<or> j < i" using that by linarith
    then consider (i) "j = i" | (Suc) "j = Suc i" | (old) "j < i" by blast
    then show ?thesis
    proof cases
      case i
      then have "len - 1 - j = ?p + 1" using assms(2) by simp
      with new [of "?p + 1"] i assms(2) show ?thesis by simp
    next
      case Suc
      then have "len - 1 - j = ?p" using assms(2) by simp
      with new [of ?p] Suc assms(2) show ?thesis by simp
    next
      case old
      then have "len - 1 - j \<noteq> ?p" "len - 1 - j \<noteq> ?p + 1" "len - 1 - j < len" using assms(2) by simp_all
      with new [of "len - 1 - j"] \<open>\<And>j. j < i \<Longrightarrow> a ! (len - 1 - j) = dec_digit v j\<close> [OF old]
      show ?thesis by (simp only: if_False)
    qed
  qed
  with assms(2) len show ?thesis by (simp add: filled_def put_pair_def)
qed

lemma unat_shl1: "unat x < 100 \<Longrightarrow> unat (push_bit 1 x :: uint32) = 2 * unat x"
  by (simp add: push_bit_eq_mult unat_word_ariths)

lemma filled_first:
  assumes "filled v len i a" and "len = Suc i" and "v div 10 ^ i < 10"
  shows "filled v len len (a[0 := digit_char (v div 10 ^ i)])"
  using assms by (cases a) (auto simp: filled_def dec_digit_def nth_list_update less_Suc_eq)

lemma filled_dec:
  assumes "filled v len len a" and "len = length (dec v)"
  shows "take len a = dec v"
proof (rule nth_equalityI)
  show "length (take len a) = length (dec v)" using assms by (simp add: filled_def)
  fix k assume "k < length (take len a)"
  then have k: "k < len" by simp
  then have "len - 1 - (len - 1 - k) = k" "len - 1 - k < len" by simp_all
  then have "a ! k = dec_digit v (len - 1 - k)"
    using assms(1) by (metis filled_def)
  with k assms(2) show "take len a ! k = dec v ! k" by (simp add: nth_dec)
qed

lemma dec_div_length:
  "0 < v div 10 ^ i \<Longrightarrow> length (dec v) = i + length (dec (v div 10 ^ i))"
proof (induction i)
  case (Suc i)
  let ?n = "v div 10 ^ i"
  have "?n div 10 = v div 10 ^ Suc i" by (rule div_power_Suc [symmetric])
  moreover have "\<not> ?n < 10" using Suc.prems unfolding div_power_Suc by auto
  ultimately have "dec ?n = dec (v div 10 ^ Suc i) @ [digit_char (?n mod 10)]" by (subst dec.simps) simp
  moreover have "0 < ?n" using \<open>\<not> ?n < 10\<close> by simp
  ultimately show ?case using Suc.IH by simp
qed simp

text \<open>Two pairs at once, as the loops write them.\<close>

lemma div_power_add: "(v::nat) div 10 ^ (i + k) = v div 10 ^ i div 10 ^ k"
  by (simp only: power_add div_mult2_eq)

lemma filled_quad:
  assumes "filled v len i a" and "i + 4 \<le> len" and "unat (c :: uint32) = v div 10 ^ i mod 10000"
  shows "filled v len (i + 4) (put_pair (len - i - 4) (push_bit 1 (c div 100))
           (put_pair (len - i - 2) (push_bit 1 (c mod 100)) a))"
proof -
  let ?n = "v div 10 ^ i"
  have "v div 10 ^ (i + 2) = ?n div 100" using div_power_add [of v i 2] by simp
  moreover have "unat (c mod 100) = ?n mod 100" "unat (c div 100) = ?n div 100 mod 100"
    using assms(3) mod_mult2_eq [of ?n 100 100] by (simp_all add: unat_mod_distrib unat_div_distrib)
  ultimately have c: "unat (c mod 100) = ?n mod 100" "unat (c div 100) = v div 10 ^ (i + 2) mod 100"
    by (simp_all only:)
  have "unat (c mod 100) < 100" "unat (c div 100) < 100" unfolding c by simp_all
  note pairs = unat_shl1 [OF this(1), unfolded c] unat_shl1 [OF this(2), unfolded c]
  from filled_pair [OF filled_pair [OF assms(1) _ pairs(1)] _ pairs(2)] assms(2)
  show ?thesis by (simp only: diff_diff_left add.assoc) simp
qed

lemma length_put_pair [simp]: "length (put_pair p c a) = length a"
  by (simp add: put_pair_def)

lemma still_digits:
  assumes "10 ^ k \<le> v div 10 ^ i" and "len = length (dec v)"
  shows "i + k < len"
proof -
  have "10 ^ (i + k) \<le> v" using assms(1) by (simp add: power_add less_eq_div_iff_mult_less_eq mult.commute)
  then show ?thesis using dec_length_less assms(2) by simp
qed

lemma ultoa_loop_filled:
  "filled v len i a \<Longrightarrow> unat val = v div 10 ^ i \<Longrightarrow> val \<noteq> 0 \<Longrightarrow> len = length (dec v) \<Longrightarrow>
   ultoa_loop len val i a = (val', i', a') \<Longrightarrow>
     filled v len i' a' \<and> unat val' = v div 10 ^ i' \<and> val' \<noteq> 0 \<and> unat val' < 10000 \<and> length a' = length a"
proof (induction len val i a rule: ultoa_loop.induct)
  case (1 len val i a)
  show ?case
  proof (cases "10000 \<le> val")
    case True
    let ?c = "val - 10000 * (val div 10000)"
    let ?a = "put_pair (len - i - 4) (push_bit 1 (?c div 100)) (put_pair (len - i - 2) (push_bit 1 (?c mod 100)) a)"
    have n: "10000 \<le> v div 10 ^ i" using True "1.prems"(2) by (simp add: word_le_nat_alt)
    have c: "unat ?c = v div 10 ^ i mod 10000"
      using "1.prems"(2) by (simp add: minus_mult_div_eq_mod unat_mod_distrib)
    have "i + 4 < len" using still_digits [of 4 v i len] n "1.prems"(4) by simp
    then have "filled v len (i + 4) ?a" using filled_quad [OF "1.prems"(1) _ c] by simp
    moreover have "unat (val div 10000) = v div 10 ^ (i + 4)"
      using "1.prems"(2) div_power_add [of v i 4] by (simp add: unat_div_distrib)
    moreover have "val div 10000 \<noteq> 0"
      using n "1.prems"(2) by (simp add: unat_eq_zero [symmetric] unat_div_distrib div_eq_0_iff)
    moreover have "ultoa_loop len val i a = ultoa_loop len (val div 10000) (i + 4) ?a"
      using True by (subst ultoa_loop.simps) (simp add: Let_def)
    ultimately show ?thesis using "1.IH" [OF True refl refl refl refl] "1.prems"(4,5) by simp
  next
    case False
    with "1.prems" show ?thesis
      by (subst (asm) ultoa_loop.simps) (auto simp: word_le_nat_alt)
  qed
qed

lemma filled_last:
  assumes "filled v len i a" and "unat val = v div 10 ^ i" and "val \<noteq> 0" and "unat val < 100"
    and "len = length (dec v)"
  shows "filled v len len
    (if 10 \<le> (val :: uint32) then put_pair (len - i - 2) (push_bit 1 val) a else a[0 := digit_char (unat val)])"
proof -
  let ?n = "v div 10 ^ i"
  have pos: "0 < ?n" using assms(2,3) by (simp add: unat_gt_0 flip: assms(2))
  have len: "len = i + length (dec ?n)" using dec_div_length [OF pos] assms(5) by simp
  show ?thesis
  proof (cases "10 \<le> val")
    case True
    then have n: "10 \<le> ?n" "?n < 100" using assms(2,4) by (simp_all add: word_le_nat_alt)
    with dec_length_unique [OF pos, of 1] len have "len = i + 2" by simp
    moreover have "unat (push_bit 1 val) = 2 * (?n mod 100)"
      using unat_shl1 [OF assms(4)] assms(2) n by simp
    ultimately show ?thesis using filled_pair [OF assms(1)] True by simp
  next
    case False
    then have n: "?n < 10" using assms(2) by (simp add: word_le_nat_alt)
    with dec_length_unique [OF pos, of 0] pos len have "len = Suc i" by simp
    with filled_first [OF assms(1) this n] False assms(2) show ?thesis by simp
  qed
qed

lemma ultoa_finish_filled:
  assumes "filled v len i a" and "unat val = v div 10 ^ i" and "val \<noteq> 0" and "unat val < 10000"
    and "len = length (dec v)"
  shows "filled v len len (ultoa_finish len val i a)"
proof (cases "100 \<le> val")
  case True
  let ?n = "v div 10 ^ i"
  have n: "100 \<le> ?n" using True assms(2) by (simp add: word_le_nat_alt)
  have "unat (val mod 100) = ?n mod 100" using assms(2) by (simp add: unat_mod_distrib)
  then have "unat (push_bit 1 (val mod 100)) = 2 * (?n mod 100)" using unat_shl1 [of "val mod 100"] by simp
  moreover have "i + 2 \<le> len" using still_digits [of 2 v i len] n assms(5) by simp
  ultimately have f: "filled v len (i + 2) (put_pair (len - i - 2) (push_bit 1 (val mod 100)) a)"
    using filled_pair [OF assms(1)] by blast
  have d: "unat (val div 100) = ?n div 100" using assms(2) by (simp add: unat_div_distrib)
  have u: "unat (val div 100) = v div 10 ^ (i + 2)"
    using assms(2) div_power_add [of v i 2] by (simp add: unat_div_distrib)
  have nz: "val div 100 \<noteq> 0" using n d by (auto simp: unat_eq_zero [symmetric] div_eq_0_iff)
  have lt: "unat (val div 100) < 100" using d assms(2,4) by simp
  have fin: "ultoa_finish len val i a =
      (if 10 \<le> val div 100
       then put_pair (len - (i + 2) - 2) (push_bit 1 (val div 100))
         (put_pair (len - i - 2) (push_bit 1 (val mod 100)) a)
       else (put_pair (len - i - 2) (push_bit 1 (val mod 100)) a)[0 := digit_char (unat (val div 100))])"
    using True by (simp only: ultoa_finish_def if_True Let_def prod.case)
  show ?thesis unfolding fin by (rule filled_last [OF f u nz lt assms(5)])
next
  case False
  then have lt: "unat val < 100" by (simp add: word_le_nat_alt)
  have fin: "ultoa_finish len val i a =
      (if 10 \<le> val then put_pair (len - i - 2) (push_bit 1 val) a else a[0 := digit_char (unat val)])"
    using False by (simp only: ultoa_finish_def if_False Let_def prod.case)
  show ?thesis unfolding fin by (rule filled_last [OF assms(1-3) lt assms(5)])
qed

lemma length_ultoa_finish [simp]: "length (ultoa_finish len val i a) = length a"
  by (simp add: ultoa_finish_def Let_def)

lemma filled_start: "len \<le> length a \<Longrightarrow> filled v len 0 a"
  by (simp add: filled_def)

lemma dec_zero: "dec 0 = ''0''"
  by (simp add: dec.simps digit_char_def char_of_def bit_0)

text \<open>The buffer then starts with the decimal notation, and its length is unchanged.\<close>

lemma pg_ultoa_n_dec:
  assumes "length (dec (unat val)) \<le> length a"
  shows "\<exists>b. pg_ultoa_n val a = (length (dec (unat val)), b) \<and>
             take (length (dec (unat val))) b = dec (unat val) \<and> length b = length a"
proof (cases "val = 0")
  case True
  with assms show ?thesis by (cases a) (simp_all add: pg_ultoa_n_def dec_zero)
next
  case False
  let ?len = "length (dec (unat val))"
  obtain val' i' a' where loop: "ultoa_loop ?len val 0 a = (val', i', a')" by (cases "ultoa_loop ?len val 0 a")
  from ultoa_loop_filled [OF filled_start [OF assms] _ False refl loop]
  have l: "filled (unat val) ?len i' a'" "unat val' = unat val div 10 ^ i'" "val' \<noteq> 0"
    "unat val' < 10000" "length a' = length a" by simp_all
  from filled_dec [OF ultoa_finish_filled [OF l(1-4) refl] refl] l(5) False loop show ?thesis
    by (simp add: pg_ultoa_n_def decimalLength_exact Let_def)
qed

lemma filled_oct:
  assumes "filled v len i a" and "i + 8 \<le> len" and "unat (c :: uint32) = v div 10 ^ i mod 100000000"
  shows "filled v len (i + 8)
    (put_pair (len - i - 8) (push_bit 1 (c div 10000 div 100)) (put_pair (len - i - 6) (push_bit 1 (c div 10000 mod 100))
      (put_pair (len - i - 4) (push_bit 1 (c mod 10000 div 100)) (put_pair (len - i - 2) (push_bit 1 (c mod 10000 mod 100)) a))))"
proof -
  let ?n = "v div 10 ^ i"
  have e: "v div 10 ^ (i + 4) = ?n div 10000" using div_power_add [of v i 4] by simp
  have c: "unat (c mod 10000) = ?n mod 10000" "unat (c div 10000) = v div 10 ^ (i + 4) mod 10000"
    unfolding e using assms(3) mod_mult2_eq [of ?n 10000 10000]
    by (simp_all add: unat_mod_distrib unat_div_distrib)
  have "i + 4 \<le> len" "i + 4 + 4 \<le> len" using assms(2) by simp_all
  from filled_quad [OF filled_quad [OF assms(1) this(1) c(1)] this(2) c(2)] show ?thesis
    by (simp only: diff_diff_left add.assoc) simp
qed

lemma unat_ucast32: "unat (ucast (w :: uint64) :: uint32) = unat w mod 2 ^ 32"
  by (simp add: unsigned_ucast_eq take_bit_eq_mod)

lemma ulltoa_loop_filled:
  "filled v len i a \<Longrightarrow> unat val = v div 10 ^ i \<Longrightarrow> val \<noteq> 0 \<Longrightarrow> len = length (dec v) \<Longrightarrow>
   ulltoa_loop len val i a = (val', i', a') \<Longrightarrow>
     filled v len i' a' \<and> unat val' = v div 10 ^ i' \<and> val' \<noteq> 0 \<and> unat val' < 100000000 \<and> length a' = length a"
proof (induction len val i a rule: ulltoa_loop.induct)
  case (1 len val i a)
  show ?case
  proof (cases "100000000 \<le> val")
    case True
    let ?q = "val div 100000000"
    let ?c = "ucast (val - 100000000 * ?q) :: uint32"
    let ?a = "put_pair (len - i - 8) (push_bit 1 (?c div 10000 div 100))
      (put_pair (len - i - 6) (push_bit 1 (?c div 10000 mod 100))
      (put_pair (len - i - 4) (push_bit 1 (?c mod 10000 div 100))
      (put_pair (len - i - 2) (push_bit 1 (?c mod 10000 mod 100)) a)))"
    have n: "100000000 \<le> v div 10 ^ i" using True "1.prems"(2) by (simp add: word_le_nat_alt)
    have c: "unat ?c = v div 10 ^ i mod 100000000"
      using "1.prems"(2) by (simp add: minus_mult_div_eq_mod unat_ucast32 unat_mod_distrib)
    have "i + 8 < len" using still_digits [of 8 v i len] n "1.prems"(4) by simp
    then have "filled v len (i + 8) ?a" by (intro filled_oct [OF "1.prems"(1) _ c]) simp
    moreover have "unat ?q = v div 10 ^ (i + 8)"
      using "1.prems"(2) div_power_add [of v i 8] by (simp add: unat_div_distrib)
    moreover have "?q \<noteq> 0"
      using n "1.prems"(2) by (simp add: unat_eq_zero [symmetric] unat_div_distrib div_eq_0_iff)
    moreover have "ulltoa_loop len val i a = ulltoa_loop len ?q (i + 8) ?a"
      using True by (subst ulltoa_loop.simps) (simp only: if_True Let_def)
    ultimately show ?thesis
      using "1.IH" [OF True refl refl refl refl refl refl refl refl refl] "1.prems"(4,5) by simp
  next
    case False
    with "1.prems" show ?thesis
      by (subst (asm) ulltoa_loop.simps) (auto simp: word_le_nat_alt)
  qed
qed

text \<open>The 32-bit tail of the 64-bit routine.\<close>

definition ulltoa_tail :: "nat \<Rightarrow> uint32 \<Rightarrow> nat \<Rightarrow> string \<Rightarrow> string" where
  "ulltoa_tail len val i a =
     (if 10000 \<le> val
      then ultoa_finish len (val div 10000) (i + 4)
        (put_pair (len - i - 4) (push_bit 1 ((val - 10000 * (val div 10000)) div 100))
          (put_pair (len - i - 2) (push_bit 1 ((val - 10000 * (val div 10000)) mod 100)) a))
      else ultoa_finish len val i a)"

lemma ulltoa_tail_filled:
  assumes "filled v len i a" and "unat val = v div 10 ^ i" and "val \<noteq> 0" and "unat val < 100000000"
    and "len = length (dec v)"
  shows "filled v len len (ulltoa_tail len val i a)"
proof (cases "10000 \<le> val")
  case True
  let ?n = "v div 10 ^ i" and ?c = "val - 10000 * (val div 10000)"
  have n: "10000 \<le> ?n" using True assms(2) by (simp add: word_le_nat_alt)
  have c: "unat ?c = ?n mod 10000"
    using assms(2) by (simp add: minus_mult_div_eq_mod unat_mod_distrib)
  have "i + 4 \<le> len" using still_digits [of 4 v i len] n assms(5) by simp
  note f = filled_quad [OF assms(1) this c]
  have d: "unat (val div 10000) = ?n div 10000" using assms(2) by (simp add: unat_div_distrib)
  have u: "unat (val div 10000) = v div 10 ^ (i + 4)" using d div_power_add [of v i 4] by simp
  have nz: "val div 10000 \<noteq> 0" using n d by (auto simp: unat_eq_zero [symmetric] div_eq_0_iff)
  have lt: "unat (val div 10000) < 10000" using d assms(2,4) by simp
  show ?thesis unfolding ulltoa_tail_def if_P [OF True] by (rule ultoa_finish_filled [OF f u nz lt assms(5)])
next
  case False
  then have lt: "unat val < 10000" by (simp add: word_le_nat_alt)
  show ?thesis unfolding ulltoa_tail_def if_not_P [OF False]
    by (rule ultoa_finish_filled [OF assms(1-3) lt assms(5)])
qed

lemma pg_ulltoa_n_dec:
  assumes "length (dec (unat val)) \<le> length a"
  shows "\<exists>b. pg_ulltoa_n val a = (length (dec (unat val)), b) \<and>
             take (length (dec (unat val))) b = dec (unat val) \<and> length b = length a"
proof (cases "val = 0")
  case True
  with assms show ?thesis by (cases a) (simp_all add: pg_ulltoa_n_def dec_zero)
next
  case False
  let ?len = "length (dec (unat val))"
  obtain val' i' a' where loop: "ulltoa_loop ?len val 0 a = (val', i', a')" by (cases "ulltoa_loop ?len val 0 a")
  from ulltoa_loop_filled [OF filled_start [OF assms] _ False refl loop]
  have l: "filled (unat val) ?len i' a'" "unat val' = unat val div 10 ^ i'" "val' \<noteq> 0"
    "unat val' < 100000000" "length a' = length a" by simp_all
  have "unat (ucast val' :: uint32) = unat val'" using l(4) by (simp add: unat_ucast32)
  then have w: "unat (ucast val' :: uint32) = unat val div 10 ^ i'" "(ucast val' :: uint32) \<noteq> 0"
    "unat (ucast val' :: uint32) < 100000000"
    using l(2-4) by (auto simp: unat_eq_zero [symmetric])
  have "pg_ulltoa_n val a = (?len, ulltoa_tail ?len (ucast val') i' a')"
    using False loop
    by (cases "10000 \<le> (ucast val' :: uint32)")
      (simp_all only: pg_ulltoa_n_def ulltoa_tail_def decimalLength_exact(2) [OF False]
        Let_def prod.case if_False if_True)
  moreover have "length (ulltoa_tail ?len (ucast val') i' a') = length a"
    using l(5) by (simp add: ulltoa_tail_def)
  ultimately show ?thesis using filled_dec [OF ulltoa_tail_filled [OF l(1) w refl] refl] by simp
qed

text \<open>The signed routines.\<close>

definition sdec :: "int \<Rightarrow> string" where
  "sdec x = (if x < 0 then CHR ''-'' # dec (nat (- x)) else dec (nat x))"

locale decimal_printer =
  fixes toa_n :: "'a::len word \<Rightarrow> string \<Rightarrow> nat \<times> string"
  assumes prints: "length (dec (unat val)) \<le> length a \<Longrightarrow>
    \<exists>b. toa_n val a = (length (dec (unat val)), b) \<and>
        take (length (dec (unat val))) b = dec (unat val) \<and> length b = length a"
begin

lemma signed_prints:
  assumes "length (sdec (sint val)) < length a"
  shows "\<exists>b. signed_decimal toa_n val a = (length (sdec (sint val)), b) \<and> length b = length a \<and>
    take (Suc (length (sdec (sint val)))) b = sdec (sint val) @ [CHR 0x00]"
proof (cases "sint val < 0")
  case True
  let ?n = "length (dec (nat (- sint val)))"
  note u = unat_abs(1) [OF True]
  have "?n \<le> length (drop 1 (a[0 := CHR ''-'']))" using assms True by (simp add: sdec_def)
  with prints [of "0 - val" "drop 1 (a[0 := CHR ''-''])"] obtain b where
    b: "toa_n (0 - val) (drop 1 (a[0 := CHR ''-''])) = (?n, b)" "take ?n b = dec (nat (- sint val))"
      "length b = length a - 1"
    unfolding u by auto
  have "take 1 (a[0 := CHR ''-'']) = ''-''" using assms by (cases a) auto
  with b True assms show ?thesis
    by (simp add: signed_decimal_def sdec_def take_Suc_conv_app_nth nth_append)
next
  case False
  let ?n = "length (dec (nat (sint val)))"
  note u = unat_abs(2) [OF False]
  have "?n \<le> length a" using assms False by (simp add: sdec_def)
  with prints [of val a] obtain b where
    b: "toa_n val a = (?n, b)" "take ?n b = dec (nat (sint val))" "length b = length a"
    unfolding u by auto
  with False assms show ?thesis by (simp add: signed_decimal_def sdec_def take_Suc_conv_app_nth)
qed

end

interpretation u32: decimal_printer pg_ultoa_n
  by unfold_locales (rule pg_ultoa_n_dec)

interpretation u64: decimal_printer pg_ulltoa_n
  by unfold_locales (rule pg_ulltoa_n_dec)

text \<open>The numbers fit the buffers of the output functions.\<close>

lemma length_sdec: "\<bar>x\<bar> < 10 ^ k \<Longrightarrow> 0 < k \<Longrightarrow> length (sdec x) \<le> Suc k"
proof -
  assume x: "\<bar>x\<bar> < 10 ^ k" and k: "0 < k"
  have "length (dec n) \<le> k" if "n < 10 ^ k" for n
  proof (cases "n = 0")
    case False
    then have "(10::nat) ^ (length (dec n) - 1) < 10 ^ k" using dec_length_bounds(2) [of n] that by linarith
    then have "length (dec n) - 1 < k" by (rule power_less_imp_less_exp [rotated]) simp
    then show ?thesis by simp
  qed (use k in \<open>simp add: dec_zero\<close>)
  moreover have "nat \<bar>x\<bar> < 10 ^ k" using x by (simp add: nat_less_iff)
  ultimately show "length (sdec x) \<le> Suc k" by (auto simp: sdec_def abs_if intro: le_SucI split: if_splits)
qed

lemma cstring_prefix: "take (Suc (length s)) b = s @ [CHR 0x00] \<Longrightarrow> CHR 0x00 \<notin> set s \<Longrightarrow> cstring b = s"
proof -
  assume b: "take (Suc (length s)) b = s @ [CHR 0x00]" and s: "CHR 0x00 \<notin> set s"
  have "b = (s @ [CHR 0x00]) @ drop (Suc (length s)) b" using append_take_drop_id [of "Suc (length s)" b] b by simp
  then obtain r where "b = s @ CHR 0x00 # r" by simp
  moreover have "takeWhile (\<lambda>c. c \<noteq> CHR 0x00) s = s" using s by (simp add: takeWhile_eq_all_conv) (metis s)
  ultimately show "cstring b = s" by (simp add: cstring_def takeWhile_append)
qed

lemma char_code_digit: "d < 10 \<Longrightarrow> char_code (digit_char d) = 48 + d"
  by (simp add: digit_char_def char_code_def)

lemma digit_char_not_NUL: "d < 10 \<Longrightarrow> digit_char d \<noteq> CHR 0x00"
  using char_code_digit [of d] by (auto simp: char_code_def)

lemma dec_no_NUL: "CHR 0x00 \<notin> set (dec n)"
proof (induction n rule: dec.induct)
  case (1 n)
  show ?case
  proof (cases "n < 10")
    case True
    then show ?thesis using digit_char_not_NUL [of n] by (subst dec.simps) auto
  next
    case False
    then show ?thesis using 1 digit_char_not_NUL [of "n mod 10"] by (subst dec.simps) auto
  qed
qed

lemma sdec_no_NUL: "CHR 0x00 \<notin> set (sdec x)"
  by (simp add: sdec_def dec_no_NUL)

lemma sint_bounds:
  fixes v :: int32 and w :: int64
  shows "\<bar>sint v\<bar> < 10 ^ 10" "\<bar>sint w\<bar> < 10 ^ 19"
  using sint_ge [of v] sint_lt [of v] sint_ge [of w] sint_lt [of w] by (auto simp: abs_if)

lemmas length_sdec_word = sint_bounds [THEN length_sdec, simplified]

text \<open>What the output functions of the types \<open>integer\<close> and \<open>bigint\<close> return.\<close>

lemma intout_sdec:
  fixes v :: int32 and w :: int64
  shows "int4out v = sdec (sint v) \<and> int8out w = sdec (sint w)"
proof
  have "length (sdec (sint v)) < length (replicate 12 (CHR 0x00))" using length_sdec_word(1) [of v] by simp
  from u32.signed_prints [OF this] show "int4out v = sdec (sint v)"
    using cstring_prefix sdec_no_NUL by (auto simp: int4out_def pg_ltoa_def)
  have "length (sdec (sint w)) < length (replicate (MAXINT8LEN + 1) (CHR 0x00))"
    using length_sdec_word(2) [of w] by (simp add: MAXINT8LEN_def)
  from u64.signed_prints [OF this] obtain b where
    b: "pg_lltoa w (replicate (MAXINT8LEN + 1) (CHR 0x00)) = (length (sdec (sint w)), b)"
      "take (Suc (length (sdec (sint w)))) b = sdec (sint w) @ [CHR 0x00]"
    by (auto simp: pg_lltoa_def)
  then have "cstring (take (Suc (length (sdec (sint w)))) b) = sdec (sint w)"
    using cstring_prefix sdec_no_NUL by simp
  with b show "int8out w = sdec (sint w)" by (simp add: int8out_def)
qed

subsection \<open>Properties of the output\<close>

text \<open>
  With a buffer of at least 12 bytes \<open>pg_ltoa\<close>, and with one of at least 21
  bytes \<open>pg_lltoa\<close>, writes the decimal notation of its argument and the
  terminator, and returns the length without the terminator: no value of the type,
  the most negative one included, needs more room.
\<close>

lemma signed_output_fits:
  fixes val :: int32 and wide :: int64
  assumes "12 \<le> length a" and "21 \<le> length c"
  shows "(\<exists>b. pg_ltoa val a = (length (sdec (sint val)), b) \<and> length b = length a \<and>
      length (sdec (sint val)) \<le> 11 \<and> take (Suc (length (sdec (sint val)))) b = sdec (sint val) @ [CHR 0x00]) \<and>
    (\<exists>d. pg_lltoa wide c = (length (sdec (sint wide)), d) \<and> length d = length c \<and>
      length (sdec (sint wide)) \<le> 20 \<and> take (Suc (length (sdec (sint wide)))) d = sdec (sint wide) @ [CHR 0x00])"
  using assms length_sdec_word(1) [of val] length_sdec_word(2) [of wide]
    u32.signed_prints [of val a] u64.signed_prints [of wide c]
  by (simp add: pg_ltoa_def pg_lltoa_def)

end
