(* ===== verification/Numinput.thy ===== *)
theory Numinput
  imports Numutils
begin

section \<open>Text as integers (numutils.c)\<close>

text \<open>
  \<open>pg_strtoint16_safe\<close>, \<open>pg_strtoint32_safe\<close> and \<open>pg_strtoint64_safe\<close> are three
  copies of one text that differ in the width of the accumulator, in the limits
  derived from it and in the type's name in the message. \<open>strtoint\<close> is that text
  over the length of the word, and the three are its instances. A C string is the
  list of its characters, and reading the terminator is reaching the empty list.
  The two labels \<open>out_of_range\<close> and \<open>invalid_syntax\<close> are the two errors.
\<close>

datatype parse_error = OutOfRange string string | InvalidSyntax string string

datatype label = out_of_range | invalid_syntax

subsection \<open>Digits\<close>

definition hexlookup :: "int list" where
  "hexlookup =
    replicate 48 (- 1) @
    [0, 1, 2, 3, 4, 5, 6, 7, 8, 9] @ replicate 6 (- 1) @
    [- 1, 10, 11, 12, 13, 14, 15] @ replicate 9 (- 1) @
    replicate 16 (- 1) @
    [- 1, 10, 11, 12, 13, 14, 15] @ replicate 9 (- 1) @
    replicate 16 (- 1)"

definition isspace :: "char \<Rightarrow> bool" where
  "isspace c \<longleftrightarrow> char_code c = 32 \<or> 9 \<le> char_code c \<and> char_code c \<le> 13"

definition isxdigit :: "char \<Rightarrow> bool" where
  "isxdigit c \<longleftrightarrow> digit c \<or> 97 \<le> char_code c \<and> char_code c \<le> 102 \<or> 65 \<le> char_code c \<and> char_code c \<le> 70"

text \<open>
  The tests and conversions of the four loops: \<open>isxdigit\<close> and the table for base
  16, comparison with the first and the last digit and subtraction of \<open>'0'\<close>
  otherwise.
\<close>

definition radix_digit :: "nat \<Rightarrow> char \<Rightarrow> bool" where
  "radix_digit r c \<longleftrightarrow>
     (if r = 16 then isxdigit c else 48 \<le> char_code c \<and> char_code c < 48 + r)"

definition digit_of :: "nat \<Rightarrow> char \<Rightarrow> nat" where
  "digit_of r c = (if r = 16 then nat (hexlookup ! char_code c) else char_code c - 48)"

subsection \<open>The routine\<close>

text \<open>\<open>-(PG_INTn_MIN / r)\<close>, the largest accumulator that still takes a digit.\<close>

definition accum_limit :: "nat \<Rightarrow> 'a::len word" where
  "accum_limit r = word_of_int (2 ^ (LENGTH('a) - 1) div int r)"

text \<open>
  The four loops of the slow path. An underscore must be followed by a digit; in
  the decimal loop it may not come first.
\<close>

fun radix_loop :: "nat \<Rightarrow> bool \<Rightarrow> 'a::len word \<Rightarrow> string \<Rightarrow> label + 'a word \<times> string" where
  "radix_loop r atfirst tmp [] = Inr (tmp, [])"
| "radix_loop r atfirst tmp (c # ptr) =
     (if radix_digit r c then
        if accum_limit r < tmp then Inl out_of_range
        else radix_loop r False (tmp * of_nat r + of_nat (digit_of r c)) ptr
      else if c = CHR ''_'' then
        if r = 10 \<and> atfirst then Inl invalid_syntax
        else if ptr = [] \<or> \<not> radix_digit r (hd ptr) then Inl invalid_syntax
        else radix_loop r False tmp ptr
      else Inr (tmp, c # ptr))"

text \<open>The loop of the fast path.\<close>

fun fast_loop :: "'a::len word \<Rightarrow> string \<Rightarrow> label + 'a word \<times> string" where
  "fast_loop tmp [] = Inr (tmp, [])"
| "fast_loop tmp (c # ptr) =
     (if \<not> digit c then Inr (tmp, c # ptr)
      else if accum_limit 10 < tmp then Inl out_of_range
      else fast_loop (tmp * 10 + of_nat (char_code c - 48)) ptr)"

text \<open>\<open>pg_neg_u16_overflow\<close>, \<open>pg_neg_u32_overflow\<close>, \<open>pg_neg_u64_overflow\<close>: nothing on overflow.\<close>

definition pg_neg_overflow :: "'a::len word \<Rightarrow> 'a word option" where
  "pg_neg_overflow a =
     (let res = - uint a in
      if res < - (2 ^ (LENGTH('a) - 1)) then None else Some (word_of_int res))"

definition finish_number :: "bool \<Rightarrow> 'a::len word \<Rightarrow> label + 'a word" where
  "finish_number neg tmp =
     (if neg then
        case pg_neg_overflow tmp of None \<Rightarrow> Inl out_of_range | Some result \<Rightarrow> Inr result
      else if 2 ^ (LENGTH('a) - 1) - 1 < uint tmp then Inl out_of_range
      else Inr tmp)"

text \<open>The sign, and the base with the text behind its prefix.\<close>

definition take_sign :: "string \<Rightarrow> bool \<times> string" where
  "take_sign ptr =
     (if ptr \<noteq> [] \<and> hd ptr = CHR ''-'' then (True, tl ptr)
      else if ptr \<noteq> [] \<and> hd ptr = CHR ''+'' then (False, tl ptr)
      else (False, ptr))"

definition take_prefix :: "string \<Rightarrow> nat \<times> string" where
  "take_prefix ptr =
     (if take 1 ptr = ''0'' \<and> 1 < length ptr then
        if ptr ! 1 = CHR ''x'' \<or> ptr ! 1 = CHR ''X'' then (16, drop 2 ptr)
        else if ptr ! 1 = CHR ''o'' \<or> ptr ! 1 = CHR ''O'' then (8, drop 2 ptr)
        else if ptr ! 1 = CHR ''b'' \<or> ptr ! 1 = CHR ''B'' then (2, drop 2 ptr)
        else (10, ptr)
      else (10, ptr))"

definition strtoint_slow :: "bool \<Rightarrow> string \<Rightarrow> label + 'a::len word" where
  "strtoint_slow neg s =
     (let ptr = dropWhile isspace s;
          (minus, ptr) = take_sign ptr;
          neg = (neg \<or> minus);
          (r, firstdigit) = take_prefix ptr
      in case radix_loop r True 0 firstdigit of
        Inl e \<Rightarrow> Inl e
      | Inr (tmp, ptr) \<Rightarrow>
          if length ptr = length firstdigit then Inl invalid_syntax
          else if dropWhile isspace ptr \<noteq> [] then Inl invalid_syntax
          else finish_number neg tmp)"

definition strtoint :: "string \<Rightarrow> label + 'a::len word" where
  "strtoint s =
     (let (neg, ptr) = (if s \<noteq> [] \<and> hd s = CHR ''-'' then (True, tl s) else (False, s)) in
      if ptr \<noteq> [] \<and> digit (hd ptr) then
        case fast_loop (of_nat (char_code (hd ptr) - 48)) (tl ptr) of
          Inl e \<Rightarrow> Inl e
        | Inr (tmp, ptr) \<Rightarrow> if ptr \<noteq> [] then strtoint_slow neg s else finish_number neg tmp
      else strtoint_slow neg s)"

definition report :: "string \<Rightarrow> string \<Rightarrow> label + 'a \<Rightarrow> parse_error + 'a" where
  "report typ s res =
     (case res of
        Inl out_of_range \<Rightarrow> Inl (OutOfRange s typ)
      | Inl invalid_syntax \<Rightarrow> Inl (InvalidSyntax typ s)
      | Inr v \<Rightarrow> Inr v)"

definition pg_strtoint16_safe :: "string \<Rightarrow> parse_error + int16" where
  "pg_strtoint16_safe s = report ''smallint'' s (strtoint s)"

definition pg_strtoint32_safe :: "string \<Rightarrow> parse_error + int32" where
  "pg_strtoint32_safe s = report ''integer'' s (strtoint s)"

definition pg_strtoint64_safe :: "string \<Rightarrow> parse_error + int64" where
  "pg_strtoint64_safe s = report ''bigint'' s (strtoint s)"

text \<open>Without a place to save the error, it is raised.\<close>

definition raised :: "parse_error + 'a \<Rightarrow> 'a result" where
  "raised res =
     (case res of
        Inl (OutOfRange s typ) \<Rightarrow>
          Inl (PgError (''value \"'' @ s @ ''\" is out of range for type '' @ typ))
      | Inl (InvalidSyntax typ s) \<Rightarrow>
          Inl (PgError (''invalid input syntax for type '' @ typ @ '': \"'' @ s @ ''\"''))
      | Inr v \<Rightarrow> Inr v)"

definition pg_strtoint16 :: "string \<Rightarrow> int16 result" where
  "pg_strtoint16 s = raised (pg_strtoint16_safe s)"

definition pg_strtoint32 :: "string \<Rightarrow> int32 result" where
  "pg_strtoint32 s = raised (pg_strtoint32_safe s)"

definition pg_strtoint64 :: "string \<Rightarrow> int64 result" where
  "pg_strtoint64 s = raised (pg_strtoint64_safe s)"

subsection \<open>The syntax of integers\<close>

text \<open>Digits, with single underscores between them.\<close>

inductive grouped :: "nat \<Rightarrow> string \<Rightarrow> bool" for r where
  one: "radix_digit r d \<Longrightarrow> grouped r [d]"
| more: "radix_digit r d \<Longrightarrow> grouped r s \<Longrightarrow> grouped r (d # s)"
| under: "radix_digit r d \<Longrightarrow> grouped r s \<Longrightarrow> grouped r (d # CHR ''_'' # s)"

definition digits_value :: "nat \<Rightarrow> nat \<Rightarrow> string \<Rightarrow> nat" where
  "digits_value r n s = foldl (\<lambda>n c. if c = CHR ''_'' then n else n * r + digit_of r c) n s"

text \<open>After a prefix the digits may begin with an underscore.\<close>

definition int_body :: "nat \<Rightarrow> string \<Rightarrow> bool" where
  "int_body r s \<longleftrightarrow> grouped r s \<or> r \<noteq> 10 \<and> (\<exists>b. s = CHR ''_'' # b \<and> grouped r b)"

definition radix_prefix :: "(nat \<times> string) set" where
  "radix_prefix = {(10, ''''), (16, ''0x''), (16, ''0X''), (8, ''0o''), (8, ''0O''), (2, ''0b''), (2, ''0B'')}"

definition sign_prefix :: "(bool \<times> string) set" where
  "sign_prefix = {(False, ''''), (False, ''+''), (True, ''-'')}"

inductive int_literal :: "string \<Rightarrow> int \<Rightarrow> bool" where
  int_literalI: "list_all isspace ws \<Longrightarrow> (neg, sg) \<in> sign_prefix \<Longrightarrow> (r, pre) \<in> radix_prefix \<Longrightarrow>
   int_body r body \<Longrightarrow> list_all isspace ws' \<Longrightarrow>
   int_literal (ws @ sg @ pre @ body @ ws')
     (if neg then - int (digits_value r 0 body) else int (digits_value r 0 body))"

definition in_range :: "nat \<Rightarrow> int \<Rightarrow> bool" where
  "in_range len x \<longleftrightarrow> - (2 ^ (len - 1)) \<le> x \<and> x < 2 ^ (len - 1)"

subsection \<open>Characters\<close>

lemma hexlookup_digit: "isxdigit c \<Longrightarrow> 0 \<le> hexlookup ! char_code c \<and> hexlookup ! char_code c < 16"
proof -
  assume "isxdigit c"
  then have "char_code c \<in> set ([48..<58] @ [97..<103] @ [65..<71])"
    by (simp only: set_append set_upt isxdigit_def digit_def Un_iff atLeastLessThan_iff) linarith
  moreover have "list_all (\<lambda>k. 0 \<le> hexlookup ! k \<and> hexlookup ! k < 16) ([48..<58] @ [97..<103] @ [65..<71])"
    by (simp add: upt_rec hexlookup_def numeral_nat)
  ultimately show ?thesis by (simp only: list_all_iff)
qed

lemma digit_of_less: "radix_digit r c \<Longrightarrow> digit_of r c < r"
  using hexlookup_digit [of c] by (auto simp: radix_digit_def digit_of_def split: if_splits)

lemma radix_digit_10: "radix_digit 10 c \<longleftrightarrow> digit c"
  by (auto simp: radix_digit_def digit_def)

definition radices :: "nat set" where
  "radices = {2, 8, 10, 16}"

lemma radix_digit_range:
  assumes "r \<in> radices" and "radix_digit r c"
  shows "48 \<le> char_code c \<and> char_code c \<le> 57 \<or> 65 \<le> char_code c \<and> char_code c \<le> 70 \<or>
    97 \<le> char_code c \<and> char_code c \<le> 102"
  using assms by (auto simp: radices_def radix_digit_def isxdigit_def digit_def)

lemma char_codes [simp]:
  "char_code CHR ''_'' = 95" "char_code CHR ''-'' = 45" "char_code CHR ''+'' = 43" "char_code CHR ''0'' = 48"
  by (simp_all add: char_code_def)

lemma radix_digit_not:
  assumes "r \<in> radices" and "radix_digit r c"
  shows "\<not> isspace c" "c \<noteq> CHR ''_''" "c \<noteq> CHR ''-''" "c \<noteq> CHR ''+''"
  using radix_digit_range [OF assms] by (auto simp: isspace_def)

lemma space_not:
  assumes "isspace c"
  shows "c \<noteq> CHR ''_''" "c \<noteq> CHR ''-''" "c \<noteq> CHR ''+''" "r \<in> radices \<Longrightarrow> \<not> radix_digit r c"
  using assms radix_digit_not(1) by (auto simp: isspace_def)

subsection \<open>The accumulator does not wrap\<close>

lemma unat_accum_limit:
  "r \<in> radices \<Longrightarrow> unat (accum_limit r :: 'a::len word) = 2 ^ (LENGTH('a) - 1) div r"
proof -
  assume r: "r \<in> radices"
  have "2 ^ (LENGTH('a) - 1) div r \<le> (2::nat) ^ (LENGTH('a) - 1)" by simp
  also have "\<dots> < 2 ^ LENGTH('a)" by simp
  finally have "take_bit LENGTH('a) (2 ^ (LENGTH('a) - 1) div r) = 2 ^ (LENGTH('a) - 1) div r"
    by (simp add: take_bit_nat_eq_self_iff)
  moreover have "(accum_limit r :: 'a word) = word_of_int (int (2 ^ (LENGTH('a) - 1) div r))"
    by (simp add: accum_limit_def zdiv_int)
  ultimately show ?thesis by (simp add: unsigned_of_nat)
qed

lemma accum_step:
  assumes "r \<in> radices" and "8 \<le> LENGTH('a::len)" and "d < r" and "\<not> accum_limit r < (tmp :: 'a word)"
  shows "unat (tmp * of_nat r + of_nat d) = unat tmp * r + d"
proof -
  have "unat tmp \<le> 2 ^ (LENGTH('a) - 1) div r"
    using assms(4) unat_accum_limit [OF assms(1), where 'a = 'a] by (simp add: word_less_nat_alt)
  then have "unat tmp * r \<le> 2 ^ (LENGTH('a) - 1) div r * r" by simp
  then have le: "unat tmp * r \<le> 2 ^ (LENGTH('a) - 1)" by (meson div_times_less_eq_dividend le_trans)
  have "d < 16" using assms(1,3) by (auto simp: radices_def)
  moreover have "(2::nat) ^ 7 \<le> 2 ^ (LENGTH('a) - 1)" using assms(2) by (intro power_increasing) auto
  moreover have "(2::nat) ^ LENGTH('a) = 2 * 2 ^ (LENGTH('a) - 1)" by (simp add: power_eq_if)
  ultimately have "unat tmp * r + d < 2 ^ LENGTH('a)" using le by simp
  moreover have "tmp * of_nat r + of_nat d = of_nat (unat tmp * r + d)" by simp
  ultimately show ?thesis by (simp only: unsigned_of_nat take_bit_nat_eq_self of_nat_id)
qed

lemma accum_over:
  assumes "r \<in> radices" and "accum_limit r < (tmp :: 'a::len word)"
  shows "2 ^ (LENGTH('a) - 1) < unat tmp * r"
proof -
  have "0 < r" using assms(1) by (auto simp: radices_def)
  moreover have "2 ^ (LENGTH('a) - 1) div r < unat tmp"
    using assms(2) unat_accum_limit [OF assms(1), where 'a = 'a] by (simp add: word_less_nat_alt)
  ultimately show ?thesis by (simp add: div_less_iff_less_mult)
qed

lemma digits_value_simps [simp]:
  "digits_value r n [] = n"
  "c \<noteq> CHR ''_'' \<Longrightarrow> digits_value r n (c # s) = digits_value r (n * r + digit_of r c) s"
  "digits_value r n (CHR ''_'' # s) = digits_value r n s"
  by (simp_all add: digits_value_def)

lemma digits_value_ge: "0 < r \<Longrightarrow> n \<le> digits_value r n s"
proof (induction s arbitrary: n)
  case (Cons c s)
  show ?case
  proof (cases "c = CHR ''_''")
    case False
    have "n \<le> n * r + digit_of r c" using Cons.prems by (simp add: trans_le_add1)
    also have "\<dots> \<le> digits_value r (n * r + digit_of r c) s" using Cons by simp
    finally show ?thesis using False by simp
  qed (use Cons in simp)
qed simp

text \<open>Where the loops stop: at the end, or at a character that is neither digit nor underscore.\<close>

definition stops :: "nat \<Rightarrow> string \<Rightarrow> bool" where
  "stops r rest \<longleftrightarrow> rest = [] \<or> \<not> radix_digit r (hd rest) \<and> hd rest \<noteq> CHR ''_''"

lemma grouped_hd: "grouped r s \<Longrightarrow> s \<noteq> [] \<and> radix_digit r (hd s)"
  by (auto elim: grouped.cases)

lemma radix_loop_stops: "stops r rest \<Longrightarrow> radix_loop r f tmp rest = Inr (tmp, rest)"
  by (cases rest) (auto simp: stops_def)

lemma radix_loop_grouped:
  fixes tmp :: "'a::len word"
  assumes "grouped r body" and "r \<in> radices" and "8 \<le> LENGTH('a)" and "stops r rest"
  defines "v \<equiv> digits_value r (unat tmp) body"
  shows "radix_loop r f tmp (body @ rest) = Inr (of_nat v, rest) \<and> v < 2 ^ LENGTH('a) \<or>
    radix_loop r f tmp (body @ rest) = Inl out_of_range \<and> 2 ^ (LENGTH('a) - 1) < v"
  using assms(1) unfolding v_def
proof (induction arbitrary: tmp f)
  case (one d)
  note d = digit_of_less [OF one]
  let ?tmp = "tmp * of_nat r + of_nat (digit_of r d)"
  have "unat ?tmp < 2 ^ LENGTH('a)" by (rule unsigned_less)
  with one accum_step [OF assms(2,3) d, of tmp] accum_over [OF assms(2), of tmp]
    radix_loop_stops [OF assms(4), of False ?tmp] radix_digit_not(2) [OF assms(2) one]
  show ?case by (cases "accum_limit r < tmp") auto
next
  case (more d s)
  note d = digit_of_less [OF more.hyps(1)] and r = radix_digit_not(2) [OF assms(2) more.hyps(1)]
  have "0 < r" using d by simp
  show ?case
  proof (cases "accum_limit r < tmp")
    case True
    with accum_over [OF assms(2), of tmp] digits_value_ge [OF \<open>0 < r\<close>, of "unat tmp * r + digit_of r d" s] r
      more.hyps(1)
    show ?thesis by auto
  next
    case False
    with more.IH [of False "tmp * of_nat r + of_nat (digit_of r d)"] accum_step [OF assms(2,3) d False] r
      more.hyps(1)
    show ?thesis by auto
  qed
next
  case (under d s)
  note d = digit_of_less [OF under.hyps(1)] and r = radix_digit_not(2) [OF assms(2) under.hyps(1)]
  have "0 < r" using d by simp
  have u: "\<not> radix_digit r CHR ''_''" using radix_digit_not(2) [OF assms(2), of "CHR ''_''"] by auto
  show ?case
  proof (cases "accum_limit r < tmp")
    case True
    with accum_over [OF assms(2), of tmp] digits_value_ge [OF \<open>0 < r\<close>, of "unat tmp * r + digit_of r d" s] r
      under.hyps(1)
    show ?thesis by auto
  next
    case False
    with under.IH [of False "tmp * of_nat r + of_nat (digit_of r d)"] accum_step [OF assms(2,3) d False] r u
      under.hyps(1) grouped_hd [OF under.hyps(2)]
    show ?thesis by auto
  qed
qed

text \<open>Conversely, the loop only returns behind digits that the syntax allows.\<close>

lemma radix_loop_Inr:
  fixes tmp :: "'a::len word"
  assumes "radix_loop r f tmp s = Inr (t, rest)" and "r \<in> radices" and "8 \<le> LENGTH('a)"
  shows "\<exists>body. s = body @ rest \<and> unat t = digits_value r (unat tmp) body \<and> stops r rest \<and>
    (body = [] \<or> grouped r body \<or> \<not> (r = 10 \<and> f) \<and> (\<exists>b. body = CHR ''_'' # b \<and> grouped r b))"
  using assms
proof (induction r f tmp s rule: radix_loop.induct)
  case (1 r f tmp)
  then show ?case by (simp add: stops_def)
next
  case (2 r f tmp c ptr)
  note r = "2.prems"(2,3)
  consider (digit) "radix_digit r c" | (under) "\<not> radix_digit r c" "c = CHR ''_''"
    | (other) "\<not> radix_digit r c" "c \<noteq> CHR ''_''" by blast
  then show ?case
  proof cases
    case digit
    then have "\<not> accum_limit r < tmp" using "2.prems"(1) by auto
    with "2.IH"(1) digit "2.prems" obtain body where
      b: "ptr = body @ rest" "unat t = digits_value r (unat (tmp * of_nat r + of_nat (digit_of r c))) body"
        "stops r rest" "body = [] \<or> grouped r body \<or> (\<exists>b. body = CHR ''_'' # b \<and> grouped r b)"
      by auto
    have "grouped r (c # body)" using b(4) digit grouped.intros by auto
    moreover have "unat t = digits_value r (unat tmp) (c # body)"
      using b(2) radix_digit_not(2) [OF r(1) digit]
        accum_step [OF r digit_of_less [OF digit] \<open>\<not> accum_limit r < tmp\<close>] by simp
    ultimately show ?thesis using b by (intro exI [of _ "c # body"]) auto
  next
    case under
    then have u: "\<not> (r = 10 \<and> f)" "ptr \<noteq> []" "radix_digit r (hd ptr)" "radix_loop r False tmp ptr = Inr (t, rest)"
      using "2.prems"(1) by (auto split: if_splits)
    with "2.IH"(2) under r obtain body where
      b: "ptr = body @ rest" "unat t = digits_value r (unat tmp) body" "stops r rest"
        "body = [] \<or> grouped r body \<or> (\<exists>b. body = CHR ''_'' # b \<and> grouped r b)"
      by auto
    then have "grouped r body" using u(2,3) under by (auto simp: stops_def)
    with b u(1) under show ?thesis by (intro exI [of _ "c # body"]) auto
  next
    case other
    with "2.prems" show ?thesis by (auto simp: stops_def)
  qed
qed

subsection \<open>The slow path decides the syntax\<close>

lemma finish_number_value:
  fixes neg :: bool
  assumes "v < 2 ^ LENGTH('a::len)"
  defines "x \<equiv> if neg then - int v else int v"
  shows "finish_number neg (of_nat v :: 'a word) =
    (if in_range LENGTH('a) x then Inr (word_of_int x) else Inl out_of_range)"
proof -
  have "uint (of_nat v :: 'a word) = int v"
    using assms(1) by (simp add: unsigned_of_nat take_bit_nat_eq_self flip: of_nat_take_bit)
  moreover define P :: int where "P = 2 ^ (LENGTH('a) - 1)"
  have "finish_number neg w = (if neg then if - uint w < - P then Inl out_of_range else Inr (word_of_int (- uint w))
      else if P - 1 < uint w then Inl out_of_range else Inr w)" for w :: "'a word"
    by (simp add: finish_number_def pg_neg_overflow_def P_def Let_def)
  moreover have "in_range LENGTH('a) y \<longleftrightarrow> - P \<le> y \<and> y < P" for y by (simp add: in_range_def P_def)
  moreover have "0 < P" by (simp add: P_def)
  ultimately show ?thesis unfolding x_def by (cases neg) simp_all
qed

lemma int_body_hd:
  assumes "int_body r body" and "r \<in> radices"
  shows "body \<noteq> []" "\<not> isspace (hd body)" "hd body \<noteq> CHR ''-''" "hd body \<noteq> CHR ''+''"
  using assms grouped_hd [of r body] radix_digit_not [OF assms(2), of "hd body"]
  by (auto simp: int_body_def isspace_def)

lemma radix_prefix_radix: "(r, pre) \<in> radix_prefix \<Longrightarrow> r \<in> radices"
  by (auto simp: radix_prefix_def radices_def)

lemma literal_hd:
  assumes "(r, pre) \<in> radix_prefix" and "int_body r body"
  shows "pre @ body @ ws \<noteq> []" "\<not> isspace (hd (pre @ body @ ws))"
    "hd (pre @ body @ ws) \<noteq> CHR ''-''" "hd (pre @ body @ ws) \<noteq> CHR ''+''"
  using assms(1) int_body_hd [OF assms(2) radix_prefix_radix [OF assms(1)]]
  by (auto simp: radix_prefix_def isspace_def)

lemma take_sign_literal:
  assumes "(neg, sg) \<in> sign_prefix" and "p \<noteq> []" and "hd p \<noteq> CHR ''-''" and "hd p \<noteq> CHR ''+''"
  shows "take_sign (sg @ p) = (neg, p)"
  using assms by (auto simp: sign_prefix_def take_sign_def)

lemma skip_spaces:
  assumes "list_all isspace ws" and "p \<noteq> []" and "\<not> isspace (hd p)"
  shows "dropWhile isspace (ws @ p) = p"
  using assms by (induction ws) (auto simp: dropWhile_eq_self_iff)

lemma not_prefix_char:
  assumes "c = CHR ''_'' \<or> isspace c \<or> digit c"
  shows "c \<notin> {CHR ''x'', CHR ''X'', CHR ''o'', CHR ''O'', CHR ''b'', CHR ''B''}"
  using assms by (auto simp: isspace_def digit_def char_code_def)

lemma grouped_second:
  assumes "grouped 10 body" and "1 < length (body @ ws)" and "list_all isspace ws"
  shows "(body @ ws) ! 1 = CHR ''_'' \<or> isspace ((body @ ws) ! 1) \<or> digit ((body @ ws) ! 1)"
  using assms(1)
proof cases
  case (one d)
  with assms show ?thesis by (cases ws) auto
next
  case (more d s)
  with grouped_hd [of 10 s] show ?thesis by (cases s) (auto simp: radix_digit_10)
next
  case (under d s)
  then show ?thesis by simp
qed

lemma take_prefix_literal:
  assumes "(r, pre) \<in> radix_prefix" and "int_body r body" and "list_all isspace ws"
  shows "take_prefix (pre @ body @ ws) = (r, body @ ws)"
proof (cases "r = 10")
  case True
  then have "pre = ''''" "grouped 10 body" using assms(1,2) by (auto simp: radix_prefix_def int_body_def)
  moreover have "1 < length (body @ ws) \<Longrightarrow>
      (body @ ws) ! 1 \<notin> {CHR ''x'', CHR ''X'', CHR ''o'', CHR ''O'', CHR ''b'', CHR ''B''}"
    using not_prefix_char grouped_second [OF \<open>grouped 10 body\<close> _ assms(3)] by blast
  ultimately show ?thesis using True by (auto simp: take_prefix_def)
qed (use assms(1,2) in \<open>auto simp: radix_prefix_def take_prefix_def int_body_def\<close>)

lemma int_body_loop:
  assumes "int_body r body" and "r \<in> radices" and "8 \<le> LENGTH('a::len)" and "stops r rest"
  defines "v \<equiv> digits_value r 0 body"
  shows "radix_loop r True (0 :: 'a word) (body @ rest) = Inr (of_nat v, rest) \<and> v < 2 ^ LENGTH('a) \<or>
    radix_loop r True (0 :: 'a word) (body @ rest) = Inl out_of_range \<and> 2 ^ (LENGTH('a) - 1) < v"
proof (cases "grouped r body")
  case True
  from radix_loop_grouped [OF this assms(2-4), of True 0] show ?thesis by (simp add: v_def)
next
  case False
  then obtain b where b: "r \<noteq> 10" "body = CHR ''_'' # b" "grouped r b" using assms(1) by (auto simp: int_body_def)
  have u: "\<not> radix_digit r CHR ''_''" using radix_digit_not(2) [OF assms(2), of "CHR ''_''"] by auto
  from radix_loop_grouped [OF b(3) assms(2-4), of False 0] b u grouped_hd [OF b(3)] show ?thesis
    by (auto simp: v_def)
qed

lemma spaces_stop: "list_all isspace ws \<Longrightarrow> r \<in> radices \<Longrightarrow> stops r ws"
  using space_not by (cases ws) (auto simp: stops_def)

lemma strtoint_slow_literal:
  assumes "int_literal s x" and "8 \<le> LENGTH('a::len)"
  shows "strtoint_slow False s = (if in_range LENGTH('a) x then Inr (word_of_int x :: 'a word) else Inl out_of_range)"
  using assms(1)
proof cases
  case (int_literalI ws neg sg r pre body ws')
  let ?p = "pre @ body @ ws'" and ?v = "digits_value r 0 body"
  note r = radix_prefix_radix [OF int_literalI(5)] and hd = literal_hd [OF int_literalI(5,6), of ws']
  have "sg @ ?p \<noteq> []" "\<not> isspace (hd (sg @ ?p))"
    using int_literalI(4) hd by (auto simp: sign_prefix_def isspace_def)
  then have 1: "dropWhile isspace s = sg @ ?p" unfolding int_literalI(1) by (rule skip_spaces [OF int_literalI(3)])
  note 2 = take_sign_literal [OF int_literalI(4) hd(1,3,4)] and 3 = take_prefix_literal [OF int_literalI(5-7)]
  have 4: "length ws' \<noteq> length (body @ ws')" using int_body_hd(1) [OF int_literalI(6) r] by simp
  have 5: "dropWhile isspace ws' = []" using int_literalI(7) by (simp add: list_all_iff)
  from int_body_loop [OF int_literalI(6) r assms(2) spaces_stop [OF int_literalI(7) r]] show ?thesis
  proof
    assume v: "radix_loop r True (0 :: 'a word) (body @ ws') = Inr (of_nat ?v, ws') \<and> ?v < 2 ^ LENGTH('a)"
    with 1 2 3 4 5 have "strtoint_slow False s = finish_number neg (of_nat ?v :: 'a word)"
      by (simp add: strtoint_slow_def)
    with finish_number_value [OF conjunct2 [OF v], of neg] int_literalI(2) show ?thesis by (simp only:)
  next
    assume o: "radix_loop r True (0 :: 'a word) (body @ ws') = Inl out_of_range \<and> 2 ^ (LENGTH('a) - 1) < ?v"
    then have "(2::int) ^ (LENGTH('a) - 1) < int ?v" by (metis of_nat_less_iff of_nat_numeral of_nat_power)
    then have "\<not> in_range LENGTH('a) x" unfolding int_literalI(2) by (auto simp: in_range_def)
    with 1 2 3 o show ?thesis by (simp add: strtoint_slow_def)
  qed
qed

lemma take_sign_split:
  assumes "take_sign p = (neg, q)"
  obtains sg where "(neg, sg) \<in> sign_prefix" and "p = sg @ q"
proof
  show "(neg, take (length p - length q) p) \<in> sign_prefix" "p = take (length p - length q) p @ q"
    using assms by (auto simp: take_sign_def sign_prefix_def neq_Nil_conv split: if_splits)
qed

lemma take_prefix_split:
  assumes "take_prefix p = (r, q)"
  obtains pre where "(r, pre) \<in> radix_prefix" and "p = pre @ q"
proof (cases "length p = length q")
  case True
  with assms have "r = 10" "p = q" by (auto simp: take_prefix_def split: if_splits)
  with that [of "''''"] show ?thesis by (simp add: radix_prefix_def)
next
  case False
  with assms have "p = CHR ''0'' # p ! 1 # q"
    by (cases p; cases "tl p") (auto simp: take_prefix_def split: if_splits)
  with that [of "[CHR ''0'', p ! 1]"] assms False show ?thesis
    by (auto simp: take_prefix_def radix_prefix_def split: if_splits)
qed

lemma finish_number_Inr:
  assumes "finish_number neg tmp = Inr (v :: 'a::len word)"
  shows "sint v = (if neg then - int (unat tmp) else int (unat tmp))"
proof -
  let ?x = "if neg then - int (unat tmp) else int (unat tmp)"
  have "in_range LENGTH('a) ?x" "v = word_of_int ?x"
    using finish_number_value [OF unsigned_less [of tmp], of neg] assms by (auto split: if_splits)
  then show ?thesis by (simp add: signed_of_int signed_take_bit_int_eq_self in_range_def)
qed

lemma strtoint_slow_Inr:
  assumes "strtoint_slow False s = Inr (v :: 'a::len word)" and "8 \<le> LENGTH('a)"
  shows "int_literal s (sint v)"
proof -
  obtain neg p where 1: "take_sign (dropWhile isspace s) = (neg, p)" by fastforce
  obtain r q where 2: "take_prefix p = (r, q)" by fastforce
  obtain sg where sg: "(neg, sg) \<in> sign_prefix" "dropWhile isspace s = sg @ p" by (rule take_sign_split [OF 1])
  obtain pre where pre: "(r, pre) \<in> radix_prefix" "p = pre @ q" by (rule take_prefix_split [OF 2])
  from assms(1) 1 2 obtain tmp rest where
    3: "radix_loop r True (0 :: 'a word) q = Inr (tmp, rest)" "length rest \<noteq> length q"
      "dropWhile isspace rest = []" "finish_number neg tmp = Inr v"
    by (auto simp: strtoint_slow_def split: sum.splits if_splits)
  from radix_loop_Inr [OF 3(1) radix_prefix_radix [OF pre(1)] assms(2)] obtain body where
    b: "q = body @ rest" "unat tmp = digits_value r 0 body" "body = [] \<or> int_body r body"
    by (auto simp: int_body_def)
  have "int_body r body" using b 3(2) by auto
  have ws: "s = takeWhile isspace s @ sg @ pre @ body @ rest" using sg(2) pre(2) b(1)
    by (metis takeWhile_dropWhile_id append.assoc)
  have "list_all isspace (takeWhile isspace s)" by (auto simp: list_all_iff dest: set_takeWhileD)
  moreover have "list_all isspace rest" using 3(3) by (simp add: list_all_iff)
  ultimately show ?thesis
    using int_literalI [OF _ sg(1) pre(1) \<open>int_body r body\<close>, of "takeWhile isspace s" rest]
      finish_number_Inr [OF 3(4)] b(2) ws by (cases neg) simp_all
qed

subsection \<open>The fast path agrees with the slow path\<close>

lemma fast_loop_radix:
  "fast_loop tmp p = Inr (t, []) \<Longrightarrow> radix_loop 10 f tmp p = Inr (t, [])"
  "fast_loop tmp p = Inl e \<Longrightarrow> radix_loop 10 f tmp p = Inl e"
  by (induction tmp p arbitrary: f rule: fast_loop.induct)
    (auto simp: radix_digit_10 digit_of_def split: if_splits)

lemma fast_no_prefix:
  assumes "digit c" and "fast_loop tmp p = Inr (t, []) \<or> (\<exists>e. fast_loop tmp p = Inl e)"
  shows "take_prefix (c # p) = (10, c # p)"
proof (cases p)
  case (Cons d q)
  with assms have "digit d" by (auto split: if_splits)
  then show ?thesis using not_prefix_char [of d] Cons by (auto simp: take_prefix_def)
qed (simp add: take_prefix_def)

lemma strtoint_fast_slow:
  fixes neg minus :: bool
  assumes "digit c" and "8 \<le> LENGTH('a::len)"
    and "take_sign (dropWhile isspace s) = (minus, c # p)" and "neg \<longrightarrow> minus"
    and "fast_loop (of_nat (char_code c - 48)) p = res" and "res = Inr (t :: 'a word, []) \<or> (\<exists>e. res = Inl e)"
  shows "strtoint_slow neg s = (case res of Inl e \<Rightarrow> Inl e | Inr (tmp, _) \<Rightarrow> finish_number minus tmp)"
proof -
  have "\<not> accum_limit 10 < (0 :: 'a word)" by simp
  then have "radix_loop 10 True (0 :: 'a word) (c # p) = res"
    using assms(1,5,6) fast_loop_radix [of "of_nat (char_code c - 48) :: 'a word" p]
    by (auto simp: radix_digit_10 digit_of_def)
  with assms fast_no_prefix [of c "of_nat (char_code c - 48) :: 'a word" p t] show ?thesis
    by (auto simp: strtoint_slow_def)
qed

lemma slow_neg: "s \<noteq> [] \<Longrightarrow> hd s = CHR ''-'' \<Longrightarrow> strtoint_slow neg s = strtoint_slow False s"
proof -
  assume s: "s \<noteq> []" "hd s = CHR ''-''"
  then have "dropWhile isspace s = s" by (cases s) (auto simp: isspace_def)
  with s show ?thesis by (cases neg) (simp_all add: strtoint_slow_def take_sign_def)
qed

lemma strtoint_is_slow:
  assumes "8 \<le> LENGTH('a::len)"
  shows "(strtoint s :: label + 'a word) = strtoint_slow False s"
proof -
  obtain neg ptr where p: "(if s \<noteq> [] \<and> hd s = CHR ''-'' then (True, tl s) else (False, s)) = (neg, ptr)"
    by fastforce
  have slow: "(strtoint_slow neg s :: label + 'a word) = strtoint_slow False s"
    using p slow_neg by (auto split: if_splits)
  show ?thesis
  proof (cases "ptr \<noteq> [] \<and> digit (hd ptr)")
    case True
    then obtain c q where ptr: "ptr = c # q" "digit c" by (cases ptr) auto
    then have space: "\<not> isspace c" "c \<noteq> CHR ''-''" "c \<noteq> CHR ''+''"
      by (auto simp: digit_def isspace_def)
    then have sg: "take_sign (dropWhile isspace s) = (neg, c # q)"
      using p ptr by (cases s) (auto simp: take_sign_def isspace_def split: if_splits)
    let ?res = "fast_loop (of_nat (char_code c - 48) :: 'a word) q"
    have "strtoint s = (case ?res of Inl e \<Rightarrow> Inl e
        | Inr (tmp, p) \<Rightarrow> if p \<noteq> [] then strtoint_slow neg s else finish_number neg tmp)"
      using p ptr by (simp add: strtoint_def)
    moreover have "strtoint_slow neg s = (case ?res of Inl e \<Rightarrow> Inl e | Inr (tmp, _) \<Rightarrow> finish_number neg tmp)"
      if "?res = Inr (t, []) \<or> (\<exists>e. ?res = Inl e)" for t
      using strtoint_fast_slow [OF ptr(2) assms sg _ refl that] by simp
    ultimately show ?thesis using slow by (fastforce split: sum.splits prod.splits)
  qed (use p slow in \<open>auto simp: strtoint_def\<close>)
qed

lemma report_eq [simp]:
  "report typ s res = Inr v \<longleftrightarrow> res = Inr v"
  "report typ s (Inr v) = Inr v"
  "report typ s (Inl out_of_range) = Inl (OutOfRange s typ)"
  by (auto simp: report_def split: sum.splits label.splits)

lemma strtoint_Inr:
  assumes "8 \<le> LENGTH('a::len)"
  shows "strtoint s = Inr (v :: 'a word) \<longleftrightarrow> int_literal s (sint v)"
proof
  assume "strtoint s = Inr v"
  with strtoint_slow_Inr [OF _ assms] show "int_literal s (sint v)" by (simp add: strtoint_is_slow [OF assms])
next
  assume "int_literal s (sint v)"
  from strtoint_slow_literal [OF this assms] have "strtoint_slow False s =
    (if in_range LENGTH('a) (sint v) then Inr v else Inl out_of_range)" by simp
  moreover have "in_range LENGTH('a) (sint v)"
    using sint_ge [of v] sint_lt [of v] by (simp add: in_range_def)
  ultimately show "strtoint s = Inr v" by (simp add: strtoint_is_slow [OF assms])
qed

lemma digits_value_append: "digits_value r n (s @ t) = digits_value r (digits_value r n s) t"
  by (simp add: digits_value_def)

lemma digit_char_digit:
  "d < 10 \<Longrightarrow> radix_digit 10 (digit_char d)" "d < 10 \<Longrightarrow> digit_of 10 (digit_char d) = d"
  "d < 10 \<Longrightarrow> digit_char d \<noteq> CHR ''_''"
  using char_code_digit [of d] by (auto simp: radix_digit_def digit_of_def)

lemma grouped_snoc: "grouped r s \<Longrightarrow> radix_digit r d \<Longrightarrow> grouped r (s @ [d])"
  by (induction rule: grouped.induct) (auto intro: grouped.intros)

lemma dec_grouped: "grouped 10 (dec n) \<and> digits_value 10 0 (dec n) = n"
proof (induction n rule: dec.induct)
  case (1 n)
  show ?case
  proof (cases "n < 10")
    case True
    then show ?thesis using digit_char_digit [of n] by (subst (1 2) dec.simps) (auto intro: grouped.one)
  next
    case False
    then show ?thesis using 1 digit_char_digit [of "n mod 10"]
      by (subst (1 2) dec.simps) (auto intro: grouped_snoc simp: digits_value_append)
  qed
qed

lemma sdec_literal: "int_literal (sdec x) x"
proof -
  let ?n = "nat \<bar>x\<bar>"
  have "int_literal ('''' @ (if x < 0 then ''-'' else '''') @ '''' @ dec ?n @ '''')
      (if x < 0 then - int (digits_value 10 0 (dec ?n)) else int (digits_value 10 0 (dec ?n)))"
    using dec_grouped [of ?n]
    by (intro int_literalI) (auto simp: sign_prefix_def radix_prefix_def int_body_def)
  then show ?thesis using dec_grouped [of ?n] by (cases "x < 0") (simp_all add: sdec_def)
qed

subsection \<open>Properties of the input\<close>

text \<open>
  C32: Each of the three input routines returns a value exactly for the texts of the
  integer syntax that denote it: optional white space, an optional sign, an optional
  prefix for base 16, 8 or 2, at least one digit with single underscores between
  digits, and optional white space. A text of that syntax whose value does not fit the
  type is reported as out of range, with the text and the type's name; the unsigned
  accumulator never wraps around on the way, and the most negative value is accepted.
\<close>

theorem strtoint_decides:
  "(pg_strtoint16_safe s = Inr v \<longleftrightarrow> int_literal s (sint v)) \<and>
   (pg_strtoint32_safe s = Inr w \<longleftrightarrow> int_literal s (sint w)) \<and>
   (pg_strtoint64_safe s = Inr x \<longleftrightarrow> int_literal s (sint x)) \<and>
   (int_literal s y \<longrightarrow>
      pg_strtoint16_safe s = (if in_range 16 y then Inr (word_of_int y) else Inl (OutOfRange s ''smallint'')) \<and>
      pg_strtoint32_safe s = (if in_range 32 y then Inr (word_of_int y) else Inl (OutOfRange s ''integer'')) \<and>
      pg_strtoint64_safe s = (if in_range 64 y then Inr (word_of_int y) else Inl (OutOfRange s ''bigint'')))"
proof (intro conjI impI)
  assume "int_literal s y"
  then show
    "pg_strtoint16_safe s = (if in_range 16 y then Inr (word_of_int y) else Inl (OutOfRange s ''smallint''))"
    "pg_strtoint32_safe s = (if in_range 32 y then Inr (word_of_int y) else Inl (OutOfRange s ''integer''))"
    "pg_strtoint64_safe s = (if in_range 64 y then Inr (word_of_int y) else Inl (OutOfRange s ''bigint''))"
    using strtoint_slow_literal [of s y, where 'a = 16] strtoint_slow_literal [of s y, where 'a = 32]
      strtoint_slow_literal [of s y, where 'a = 64]
    by (simp_all add: pg_strtoint16_safe_def pg_strtoint32_safe_def pg_strtoint64_safe_def strtoint_is_slow)
qed (simp_all add: pg_strtoint16_safe_def pg_strtoint32_safe_def pg_strtoint64_safe_def strtoint_Inr)

theorem strtoint_decides_witness:
  "pg_strtoint16_safe ''-32768'' = Inr (word_of_int (- 32768)) \<and>
   pg_strtoint16_safe ''32768'' = Inl (OutOfRange ''32768'' ''smallint'')"
proof -
  have "int_literal ''-32768'' (- 32768)" "int_literal ''32768'' 32768"
    using sdec_literal [of "- 32768"] sdec_literal [of 32768]
    by (simp_all add: sdec_def dec.simps digit_char_def char_of_def bit_0)
  with strtoint_decides [where s = "''-32768''" and y = "- 32768"] strtoint_decides [where s = "''32768''" and y = 32768]
  show ?thesis by (simp add: in_range_def)
qed

text \<open>
  The fast path of the input routines for plain decimal digits gives for every text,
  valid or not, the result of the slow path alone, error labels included.
\<close>

lemma strtoint_fast_path:
  "pg_strtoint16_safe s = report ''smallint'' s (strtoint_slow False s) \<and>
   pg_strtoint32_safe s = report ''integer'' s (strtoint_slow False s) \<and>
   pg_strtoint64_safe s = report ''bigint'' s (strtoint_slow False s)"
  by (simp add: pg_strtoint16_safe_def pg_strtoint32_safe_def pg_strtoint64_safe_def strtoint_is_slow)

text \<open>
  C33: Reading back what the output functions print gives the value, for every value of
  the types \<open>integer\<close> and \<open>bigint\<close>.
\<close>

theorem intout_strtoint:
  "pg_strtoint32 (int4out v) = Inr v \<and> pg_strtoint64 (int8out w) = Inr w"
proof -
  have "pg_strtoint32_safe (sdec (sint v)) = Inr v" "pg_strtoint64_safe (sdec (sint w)) = Inr w"
    using sdec_literal by (simp_all add: pg_strtoint32_safe_def pg_strtoint64_safe_def strtoint_Inr)
  then show ?thesis by (simp add: pg_strtoint32_def pg_strtoint64_def intout_sdec raised_def)
qed

end
