(* ===== verification/Spi.thy ===== *)
theory Spi
  imports Numinput
begin

section \<open>The server programming interface (spi.c, snapmgr.c)\<close>

text \<open>
  AutoIndex reads the catalogs and issues its commands through SPI. Modelled are
  the connection stack with the saved API variables, the choice of snapshot for
  read-only and other statements, the results that \<open>SPI_execute\<close> leaves in
  \<open>SPI_processed\<close> and \<open>SPI_tuptable\<close>, and the access to result columns. The state
  of the database is a type parameter: a snapshot is the state it shows, and the
  session's own state is what the last command left. Parser, planner and executor
  are not modelled: a statement is what it does to that state. Memory contexts,
  resource owners and error context callbacks have no counterpart.
\<close>

subsection \<open>Values and result rows\<close>

datatype datum = NULL | NameD string | OidD Oid | Int4D int32 | Int8D int64 | Float4D real

type_synonym row = "datum list"

text \<open>
  The output function of the value's type. The shortest-decimal output of floating
  point numbers is a parameter.
\<close>

fun OidOutputFunctionCall :: "(real \<Rightarrow> string) \<Rightarrow> datum \<Rightarrow> string" where
  "OidOutputFunctionCall float4out (NameD s) = s"
| "OidOutputFunctionCall float4out (OidD v) = dec (unat v)"
| "OidOutputFunctionCall float4out (Int4D v) = int4out v"
| "OidOutputFunctionCall float4out (Int8D v) = int8out v"
| "OidOutputFunctionCall float4out (Float4D x) = float4out x"
| "OidOutputFunctionCall float4out NULL = []"

subsection \<open>State\<close>

definition SPI_ERROR_COPY :: int where
  "SPI_ERROR_COPY = - 2"

definition SPI_ERROR_UNCONNECTED :: int where
  "SPI_ERROR_UNCONNECTED = - 4"

definition SPI_ERROR_ARGUMENT :: int where
  "SPI_ERROR_ARGUMENT = - 6"

definition SPI_ERROR_TRANSACTION :: int where
  "SPI_ERROR_TRANSACTION = - 8"

definition SPI_ERROR_NOATTRIBUTE :: int where
  "SPI_ERROR_NOATTRIBUTE = - 9"

definition SPI_OK_CONNECT :: int where
  "SPI_OK_CONNECT = 1"

definition SPI_OK_FINISH :: int where
  "SPI_OK_FINISH = 2"

definition SPI_OK_UTILITY :: int where
  "SPI_OK_UTILITY = 4"

definition SPI_OK_SELECT :: int where
  "SPI_OK_SELECT = 5"

definition SPI_OK_REWRITTEN :: int where
  "SPI_OK_REWRITTEN = 14"

lemmas spi_codes = SPI_ERROR_COPY_def SPI_ERROR_UNCONNECTED_def SPI_ERROR_ARGUMENT_def
  SPI_ERROR_TRANSACTION_def SPI_ERROR_NOATTRIBUTE_def SPI_OK_CONNECT_def SPI_OK_FINISH_def
  SPI_OK_UTILITY_def SPI_OK_SELECT_def SPI_OK_REWRITTEN_def

record spi_connection =
  outer_processed :: nat
  outer_tuptable :: "row list option"
  outer_result :: int

text \<open>
  The stack of connections, innermost first, beside the number of entries the
  array has room for; \<open>_SPI_connected\<close> is the length of the list less one. While a
  transaction is in progress \<open>xact_start\<close> is the state of the database at its start, to
  which an abort returns.
\<close>

record 'c session =
  current :: 'c
  xact_start :: "'c option"
  active_snapshots :: "'c list"
  SPI_processed :: nat
  SPI_tuptable :: "row list option"
  SPI_result :: int
  spi_stack :: "spi_connection list"
  spi_stack_depth :: nat

subsection \<open>Snapshots\<close>

text \<open>In read committed isolation a new transaction snapshot shows what the session has done so far.\<close>

definition GetTransactionSnapshot :: "'c session \<Rightarrow> 'c" where
  "GetTransactionSnapshot s = current s"

definition PushActiveSnapshot :: "'c \<Rightarrow> 'c session \<Rightarrow> 'c session" where
  "PushActiveSnapshot snap s = s\<lparr>active_snapshots := snap # active_snapshots s\<rparr>"

definition PopActiveSnapshot :: "'c session \<Rightarrow> 'c session" where
  "PopActiveSnapshot s = s\<lparr>active_snapshots := tl (active_snapshots s)\<rparr>"

definition ActiveSnapshotSet :: "'c session \<Rightarrow> bool" where
  "ActiveSnapshotSet s \<longleftrightarrow> active_snapshots s \<noteq> []"

definition GetActiveSnapshot :: "'c session \<Rightarrow> 'c" where
  "GetActiveSnapshot s = hd (active_snapshots s)"

text \<open>A background worker has no portal.\<close>

definition EnsurePortalSnapshotExists :: "'c session \<Rightarrow> unit result" where
  "EnsurePortalSnapshotExists s =
     (if ActiveSnapshotSet s then Inr ()
      else Inl (PgError ''cannot execute SQL without an outer snapshot or portal''))"

subsection \<open>Connections\<close>

definition SPI_connect :: "'c session \<Rightarrow> (int \<times> 'c session) result" where
  "SPI_connect s =
     (let connected = length (spi_stack s) in
      bind_res
        (if spi_stack_depth s = 0 then
           if connected \<noteq> 0 then Inl (PgError ''SPI stack corrupted'') else Inr 16
         else if spi_stack_depth s < connected then Inl (PgError ''SPI stack corrupted'')
         else Inr (if spi_stack_depth s = connected then spi_stack_depth s * 2 else spi_stack_depth s))
        (\<lambda>newdepth. Inr (SPI_OK_CONNECT, s
           \<lparr>spi_stack_depth := newdepth,
            spi_stack := \<lparr>outer_processed = SPI_processed s, outer_tuptable = SPI_tuptable s,
                          outer_result = SPI_result s\<rparr> # spi_stack s,
            SPI_processed := 0, SPI_tuptable := None, SPI_result := 0\<rparr>)))"

definition SPI_begin_call :: "'c session \<Rightarrow> int" where
  "SPI_begin_call s = (if spi_stack s = [] then SPI_ERROR_UNCONNECTED else 0)"

definition restore_outer :: "spi_connection \<Rightarrow> 'c session \<Rightarrow> 'c session" where
  "restore_outer c s = s
     \<lparr>SPI_processed := outer_processed c, SPI_tuptable := outer_tuptable c, SPI_result := outer_result c,
      spi_stack := tl (spi_stack s)\<rparr>"

definition SPI_finish :: "'c session \<Rightarrow> int \<times> 'c session" where
  "SPI_finish s =
     (let res = SPI_begin_call s in
      if res < 0 then (res, s) else (SPI_OK_FINISH, restore_outer (hd (spi_stack s)) s))"

text \<open>At the end of the transaction what is left of the stack is popped.\<close>

function AtEOXact_SPI :: "'c session \<Rightarrow> 'c session" where
  "AtEOXact_SPI s =
     (if spi_stack s = [] then s else AtEOXact_SPI (restore_outer (hd (spi_stack s)) s))"
  by pat_completeness auto
termination
  by (relation "measure (\<lambda>s. length (spi_stack s))") (auto simp: restore_outer_def)

declare AtEOXact_SPI.simps [simp del]

subsection \<open>Transactions (xact.c)\<close>

text \<open>
  A session outside a transaction block: what starting, committing and aborting a
  transaction does to the state above. Commit and abort both pop what is left of the
  connections and forget the active snapshots; an abort also takes the database back to
  the start of the transaction. What can go wrong in a commit is left to the caller.
\<close>

definition StartTransactionCommand :: "'c session \<Rightarrow> 'c session" where
  "StartTransactionCommand s = s\<lparr>xact_start := Some (current s)\<rparr>"

definition IsTransactionState :: "'c session \<Rightarrow> bool" where
  "IsTransactionState s \<longleftrightarrow> xact_start s \<noteq> None"

definition AtEOXact_Snapshot :: "'c session \<Rightarrow> 'c session" where
  "AtEOXact_Snapshot s = s\<lparr>active_snapshots := []\<rparr>"

definition CommitTransactionCommand :: "'c session \<Rightarrow> 'c session" where
  "CommitTransactionCommand s = (AtEOXact_Snapshot (AtEOXact_SPI s))\<lparr>xact_start := None\<rparr>"

definition AbortCurrentTransaction :: "'c session \<Rightarrow> 'c session" where
  "AbortCurrentTransaction s =
     (case xact_start s of
        None \<Rightarrow> s
      | Some c \<Rightarrow> (AtEOXact_Snapshot (AtEOXact_SPI (s\<lparr>current := c\<rparr>)))\<lparr>xact_start := None\<rparr>)"

subsection \<open>Execution\<close>

text \<open>
  The statements of a command string: a query that only reads, a utility command
  with its effect on the database, and the two kinds that SPI refuses.
\<close>

datatype 'c stmt =
    SelectStmt "'c \<Rightarrow> row list result"
  | UtilityStmt "'c \<Rightarrow> (row list option \<times> 'c) result"
  | CopyStdinStmt
  | TransactionStmt

fun PlannedStmtRequiresSnapshot :: "'c stmt \<Rightarrow> bool" where
  "PlannedStmtRequiresSnapshot TransactionStmt = False"
| "PlannedStmtRequiresSnapshot _ = True"

fun CommandIsReadOnly :: "'c stmt \<Rightarrow> bool" where
  "CommandIsReadOnly (SelectStmt _) = True"
| "CommandIsReadOnly _ = False"

text \<open>\<open>my_res\<close>, \<open>my_processed\<close> and \<open>my_tuptable\<close>.\<close>

type_synonym plan_result = "int \<times> nat \<times> row list option"

text \<open>
  The snapshot a statement runs under: unless read-only, a new one that replaces
  what an earlier statement of the string pushed.
\<close>

definition setup_snapshot :: "bool \<Rightarrow> 'c stmt \<Rightarrow> bool \<Rightarrow> 'c session \<Rightarrow> (bool \<times> 'c session) result" where
  "setup_snapshot read_only stmt pushed s =
     (if PlannedStmtRequiresSnapshot stmt then
        bind_res (EnsurePortalSnapshotExists s) (\<lambda>_.
          if \<not> read_only then
            let s = (if pushed then PopActiveSnapshot s else s)
            in Inr (True, PushActiveSnapshot (GetTransactionSnapshot s) s)
          else Inr (pushed, s))
      else Inr (pushed, s))"

text \<open>\<open>ExecutorRun\<close> stops after \<open>tcount\<close> rows; zero means no limit.\<close>

definition row_limit :: "nat \<Rightarrow> row list \<Rightarrow> row list" where
  "row_limit tcount rows = (if tcount = 0 then rows else take tcount rows)"

fun execute_stmts ::
  "bool \<Rightarrow> nat \<Rightarrow> 'c stmt list \<Rightarrow> bool \<Rightarrow> plan_result \<Rightarrow> 'c session \<Rightarrow> (bool \<times> plan_result \<times> 'c session) result" where
  "execute_stmts read_only tcount [] pushed my s = Inr (pushed, my, s)"
| "execute_stmts read_only tcount (stmt # rest) pushed my s =
     bind_res (setup_snapshot read_only stmt pushed s) (\<lambda>(pushed, s).
       case stmt of
         CopyStdinStmt \<Rightarrow> Inr (pushed, (SPI_ERROR_COPY, snd my), s)
       | TransactionStmt \<Rightarrow> Inr (pushed, (SPI_ERROR_TRANSACTION, snd my), s)
       | SelectStmt query \<Rightarrow>
           bind_res (query (GetActiveSnapshot s)) (\<lambda>rows.
             let tuples = row_limit tcount rows
             in execute_stmts read_only tcount rest pushed (SPI_OK_SELECT, length tuples, Some tuples) s)
       | UtilityStmt command \<Rightarrow>
           if read_only \<and> \<not> CommandIsReadOnly stmt then
             Inl (PgError ''command is not allowed in a non-volatile function'')
           else
             bind_res (command (current s)) (\<lambda>(tuptable, c).
               let processed = (case tuptable of None \<Rightarrow> 0 | Some tuples \<Rightarrow> length tuples)
               in execute_stmts read_only tcount rest pushed (SPI_OK_UTILITY, processed, tuptable)
                    (s\<lparr>current := c\<rparr>)))"

definition SPI_execute_plan :: "'c stmt list \<Rightarrow> bool \<Rightarrow> nat \<Rightarrow> 'c session \<Rightarrow> (int \<times> 'c session) result" where
  "SPI_execute_plan stmts read_only tcount s =
     bind_res (execute_stmts read_only tcount stmts False (0, 0, None) s)
       (\<lambda>(pushed, (my_res, my_processed, my_tuptable), s).
         let s = (if pushed then PopActiveSnapshot s else s)
         in Inr (if my_res = 0 then SPI_OK_REWRITTEN else my_res,
                 s\<lparr>SPI_processed := my_processed, SPI_tuptable := my_tuptable\<rparr>))"

text \<open>\<open>SPI_execute\<close> on the parsed command string, or on the parser's error.\<close>

definition SPI_execute ::
  "'c stmt list result \<Rightarrow> bool \<Rightarrow> int \<Rightarrow> 'c session \<Rightarrow> (int \<times> 'c session) result" where
  "SPI_execute src read_only tcount s =
     (if tcount < 0 then Inr (SPI_ERROR_ARGUMENT, s)
      else
        let res = SPI_begin_call s in
        if res < 0 then Inr (res, s)
        else bind_res src (\<lambda>stmts. SPI_execute_plan stmts read_only (nat tcount) s))"

text \<open>Result columns, by their number from 1: as text, and as they are with a null flag.\<close>

definition SPI_getvalue :: "(real \<Rightarrow> string) \<Rightarrow> row \<Rightarrow> nat \<Rightarrow> 'c session \<Rightarrow> string option \<times> 'c session" where
  "SPI_getvalue float4out tuple fnumber s =
     (if length tuple < fnumber \<or> fnumber = 0 then (None, s\<lparr>SPI_result := SPI_ERROR_NOATTRIBUTE\<rparr>)
      else
        let val = tuple ! (fnumber - 1) in
        (if val = NULL then None else Some (OidOutputFunctionCall float4out val), s\<lparr>SPI_result := 0\<rparr>))"

definition SPI_getbinval :: "row \<Rightarrow> nat \<Rightarrow> 'c session \<Rightarrow> datum \<times> bool \<times> 'c session" where
  "SPI_getbinval tuple fnumber s =
     (if length tuple < fnumber \<or> fnumber = 0 then (NULL, True, s\<lparr>SPI_result := SPI_ERROR_NOATTRIBUTE\<rparr>)
      else
        let val = tuple ! (fnumber - 1) in (val, val = NULL, s\<lparr>SPI_result := 0\<rparr>))"

subsection \<open>What a call leaves unchanged\<close>

lemma snapshot_simps [simp]:
  "active_snapshots (PopActiveSnapshot (PushActiveSnapshot c s)) = active_snapshots s"
  "current (PushActiveSnapshot c s) = current s" "current (PopActiveSnapshot s) = current s"
  "spi_stack (PushActiveSnapshot c s) = spi_stack s" "spi_stack (PopActiveSnapshot s) = spi_stack s"
  "xact_start (PushActiveSnapshot c s) = xact_start s" "xact_start (PopActiveSnapshot s) = xact_start s"
  "spi_stack_depth (PushActiveSnapshot c s) = spi_stack_depth s"
  "spi_stack_depth (PopActiveSnapshot s) = spi_stack_depth s"
  "active_snapshots (PushActiveSnapshot c s) = c # active_snapshots s"
  "active_snapshots (PopActiveSnapshot s) = tl (active_snapshots s)"
  by (simp_all add: PopActiveSnapshot_def PushActiveSnapshot_def)

text \<open>
  While a command string runs, the caller's snapshots are those below the one
  pushed; the connection stack is the caller's.
\<close>

definition callers_snapshots :: "bool \<Rightarrow> 'c session \<Rightarrow> 'c list" where
  "callers_snapshots pushed s = (if pushed then tl (active_snapshots s) else active_snapshots s)"

lemma setup_snapshot_callers:
  assumes "setup_snapshot ro stmt pushed s = Inr (pushed', s')" and "pushed \<longrightarrow> active_snapshots s \<noteq> []"
  shows "callers_snapshots pushed' s' = callers_snapshots pushed s \<and> spi_stack s' = spi_stack s \<and>
    spi_stack_depth s' = spi_stack_depth s \<and> (pushed' \<longrightarrow> active_snapshots s' \<noteq> []) \<and> current s' = current s \<and>
    xact_start s' = xact_start s"
  using assms by (auto simp: setup_snapshot_def callers_snapshots_def Let_def split: if_splits)

lemma execute_stmts_callers:
  assumes "execute_stmts ro n stmts pushed my s = Inr (pushed', my', s')" and "pushed \<longrightarrow> active_snapshots s \<noteq> []"
  shows "callers_snapshots pushed' s' = callers_snapshots pushed s \<and> spi_stack s' = spi_stack s \<and>
    spi_stack_depth s' = spi_stack_depth s \<and> xact_start s' = xact_start s"
  using assms
proof (induction ro n stmts pushed my s rule: execute_stmts.induct)
  case (2 ro n stmt rest pushed my s)
  from "2.prems"(1) obtain p t where t: "setup_snapshot ro stmt pushed s = Inr (p, t)"
    by (auto simp: split: prod.splits)
  note same = setup_snapshot_callers [OF t "2.prems"(2)]
  show ?case
  proof (cases stmt)
    case (SelectStmt q)
    with "2.prems"(1) t obtain rows where "q (GetActiveSnapshot t) = Inr rows"
      "execute_stmts ro n rest p (SPI_OK_SELECT, length (row_limit n rows), Some (row_limit n rows)) t =
        Inr (pushed', my', s')"
      by (auto simp: Let_def)
    with "2.IH"(1) [OF SelectStmt refl] same show ?thesis by auto
  next
    case (UtilityStmt u)
    with "2.prems"(1) t obtain tt c where u: "\<not> ro" "u (current t) = Inr (tt, c)"
      "execute_stmts ro n rest p (SPI_OK_UTILITY, (case tt of None \<Rightarrow> 0 | Some r \<Rightarrow> length r), tt)
         (t\<lparr>current := c\<rparr>) = Inr (pushed', my', s')"
      by (auto simp: Let_def split: if_splits)
    from "2.IH"(2) [OF UtilityStmt _ refl u(3)] u(1) same show ?thesis
      by (auto simp: callers_snapshots_def)
  qed (use "2.prems"(1) t same in auto)
qed simp

lemma SPI_execute_balanced:
  assumes "SPI_execute src ro n s = Inr (res, s')"
  shows "active_snapshots s' = active_snapshots s \<and> spi_stack s' = spi_stack s \<and>
    spi_stack_depth s' = spi_stack_depth s \<and> xact_start s' = xact_start s"
proof (cases "n < 0 \<or> SPI_begin_call s < 0")
  case False
  with assms obtain stmts p my t where "execute_stmts ro (nat n) stmts False (0, 0, None) s = Inr (p, my, t)"
    "s' = (if p then PopActiveSnapshot t else t)\<lparr>SPI_processed := fst (snd my), SPI_tuptable := snd (snd my)\<rparr>"
    by (auto simp: SPI_execute_def SPI_execute_plan_def Let_def split: prod.splits)
  with execute_stmts_callers [of ro "nat n" stmts False "(0, 0, None)" s p my t] show ?thesis
    by (cases p) (auto simp: callers_snapshots_def)
qed (use assms in \<open>auto simp: SPI_execute_def Let_def split: if_splits\<close>)

text \<open>The two calls that AutoIndex makes: a query on the snapshot, and one utility command.\<close>

lemma SPI_execute_select:
  assumes "spi_stack s \<noteq> []" and "active_snapshots s = snap # rest" and "0 \<le> n" and "query snap = Inr rows"
  shows "SPI_execute (Inr [SelectStmt query]) True n s =
    Inr (SPI_OK_SELECT, s\<lparr>SPI_processed := length (row_limit (nat n) rows),
      SPI_tuptable := Some (row_limit (nat n) rows)\<rparr>)"
  using assms
  by (simp add: SPI_execute_def SPI_execute_plan_def SPI_begin_call_def setup_snapshot_def
      EnsurePortalSnapshotExists_def ActiveSnapshotSet_def GetActiveSnapshot_def Let_def spi_codes)

lemma SPI_execute_utility:
  assumes "spi_stack s \<noteq> []" and "active_snapshots s \<noteq> []" and "0 \<le> n"
  shows "SPI_execute (Inr [UtilityStmt command]) False n s =
    bind_res (command (current s)) (\<lambda>(tt, c). Inr (SPI_OK_UTILITY,
      s\<lparr>current := c, SPI_processed := (case tt of None \<Rightarrow> 0 | Some r \<Rightarrow> length r), SPI_tuptable := tt\<rparr>))"
  using assms
  by (cases "command (current s)")
    (auto simp: SPI_execute_def SPI_execute_plan_def SPI_begin_call_def setup_snapshot_def PushActiveSnapshot_def
      EnsurePortalSnapshotExists_def ActiveSnapshotSet_def PopActiveSnapshot_def Let_def spi_codes
      split: prod.splits)

text \<open>What a command string that is not read-only does to the database.\<close>

fun run_stmts :: "'c stmt list \<Rightarrow> 'c \<Rightarrow> 'c result" where
  "run_stmts [] c = Inr c"
| "run_stmts (stmt # rest) c =
     (case stmt of
        SelectStmt query \<Rightarrow> bind_res (query c) (\<lambda>_. run_stmts rest c)
      | UtilityStmt command \<Rightarrow> bind_res (command c) (\<lambda>(_, c'). run_stmts rest c')
      | CopyStdinStmt \<Rightarrow> Inr c
      | TransactionStmt \<Rightarrow> Inr c)"

lemma setup_snapshot_write:
  assumes "active_snapshots s \<noteq> []" and "PlannedStmtRequiresSnapshot stmt"
  obtains t where "setup_snapshot False stmt pushed s = Inr (True, t)" and "current t = current s"
    and "GetActiveSnapshot t = current s" and "active_snapshots t \<noteq> []"
  using assms that
  by (auto simp: setup_snapshot_def EnsurePortalSnapshotExists_def ActiveSnapshotSet_def GetTransactionSnapshot_def
      GetActiveSnapshot_def Let_def)

lemma execute_stmts_effect:
  assumes "active_snapshots s \<noteq> []"
  shows "map_sum id (\<lambda>(_, _, s'). current s') (execute_stmts False n stmts pushed my s) = run_stmts stmts (current s)"
  using assms
proof (induction stmts arbitrary: pushed my s)
  case (Cons stmt stmts)
  show ?case
  proof (cases stmt)
    case (SelectStmt q)
    then obtain t where "setup_snapshot False stmt pushed s = Inr (True, t)" "current t = current s"
      "GetActiveSnapshot t = current s" "active_snapshots t \<noteq> []"
      using setup_snapshot_write [OF Cons.prems, of stmt pushed] by auto
    with SelectStmt Cons.IH [of t] show ?thesis by (cases "q (current s)") (simp_all add: Let_def)
  next
    case (UtilityStmt u)
    then obtain t where "setup_snapshot False stmt pushed s = Inr (True, t)" "current t = current s"
      "active_snapshots t \<noteq> []"
      using setup_snapshot_write [OF Cons.prems, of stmt pushed] by auto
    with UtilityStmt Cons.IH [of "t\<lparr>current := snd r\<rparr>" for r] show ?thesis
      by (cases "u (current s)") (auto simp: Let_def split: prod.splits)
  next
    case CopyStdinStmt
    then obtain t where "setup_snapshot False stmt pushed s = Inr (True, t)" "current t = current s"
      using setup_snapshot_write [OF Cons.prems, of stmt pushed] by auto
    with CopyStdinStmt show ?thesis by simp
  qed (simp add: setup_snapshot_def)
qed simp

lemma SPI_execute_effect:
  assumes "spi_stack s \<noteq> []" and "active_snapshots s \<noteq> []" and "0 \<le> n"
  shows "map_sum id (\<lambda>(_, s'). current s') (SPI_execute src False n s) =
    bind_res src (\<lambda>stmts. run_stmts stmts (current s))"
proof (cases src)
  case (Inr stmts)
  from execute_stmts_effect [OF assms(2), of "nat n" stmts False "(0, 0, None)"] assms(1,3) Inr show ?thesis
    by (cases "execute_stmts False (nat n) stmts False (0, 0, None) s")
      (auto simp: SPI_execute_def SPI_execute_plan_def SPI_begin_call_def Let_def split: prod.splits)
qed (use assms in \<open>simp add: SPI_execute_def SPI_begin_call_def\<close>)

definition wf_spi :: "'c session \<Rightarrow> bool" where
  "wf_spi s \<longleftrightarrow> length (spi_stack s) \<le> spi_stack_depth s"

text \<open>The variables of the interface, and the stack.\<close>

definition spi_vars :: "'c session \<Rightarrow> nat \<times> row list option \<times> int \<times> spi_connection list" where
  "spi_vars s = (SPI_processed s, SPI_tuptable s, SPI_result s, spi_stack s)"

lemma SPI_connect_wf:
  assumes "wf_spi s"
  obtains s' where "SPI_connect s = Inr (SPI_OK_CONNECT, s')" and "wf_spi s'" and "spi_stack s' \<noteq> []"
    and "current s' = current s" and "active_snapshots s' = active_snapshots s"
    and "tl (spi_stack s') = spi_stack s"
    and "hd (spi_stack s') = \<lparr>outer_processed = SPI_processed s, outer_tuptable = SPI_tuptable s,
           outer_result = SPI_result s\<rparr>"
proof (rule that)
  let ?d = "spi_stack_depth s"
  let ?s = "s\<lparr>spi_stack_depth := (if ?d = 0 then 16 else if ?d = length (spi_stack s) then ?d * 2 else ?d),
    spi_stack := \<lparr>outer_processed = SPI_processed s, outer_tuptable = SPI_tuptable s,
      outer_result = SPI_result s\<rparr> # spi_stack s,
    SPI_processed := 0, SPI_tuptable := None, SPI_result := 0\<rparr>"
  show "SPI_connect s = Inr (SPI_OK_CONNECT, ?s)"
    using assms by (cases "spi_stack s") (auto simp: SPI_connect_def wf_spi_def Let_def)
  show "wf_spi ?s" using assms by (cases "spi_stack s") (auto simp: wf_spi_def)
qed simp_all

lemma AtEOXact_SPI_simps [simp]:
  "spi_stack (AtEOXact_SPI s) = []" "current (AtEOXact_SPI s) = current s" "xact_start (AtEOXact_SPI s) = xact_start s"
  "active_snapshots (AtEOXact_SPI s) = active_snapshots s"
  by (induction s rule: AtEOXact_SPI.induct; subst AtEOXact_SPI.simps; simp add: restore_outer_def)+

lemma SPI_connect_xact: "SPI_connect s = Inr (r, s') \<Longrightarrow> xact_start s' = xact_start s"
  by (auto simp: SPI_connect_def Let_def split: if_splits)

lemma SPI_finish_xact [simp]: "xact_start (snd (SPI_finish s)) = xact_start s"
  by (simp add: SPI_finish_def restore_outer_def Let_def)

text \<open>After a commit or an abort no snapshot is active, no connection open and no transaction in progress.\<close>

lemma CommitTransactionCommand_simps [simp]:
  "current (CommitTransactionCommand s) = current s" "xact_start (CommitTransactionCommand s) = None"
  "active_snapshots (CommitTransactionCommand s) = []" "spi_stack (CommitTransactionCommand s) = []"
  by (simp_all add: CommitTransactionCommand_def AtEOXact_Snapshot_def)

lemma AbortCurrentTransaction_simps:
  assumes "xact_start s = Some c"
  shows "current (AbortCurrentTransaction s) = c" "xact_start (AbortCurrentTransaction s) = None"
    "active_snapshots (AbortCurrentTransaction s) = []" "spi_stack (AbortCurrentTransaction s) = []"
  using assms by (simp_all add: AbortCurrentTransaction_def AtEOXact_Snapshot_def)

subsection \<open>Property\<close>

text \<open>
  C26: A procedure that connects, makes any number of \<open>SPI_execute\<close> calls without an
  error and finishes, leaves the caller's interface variables, connection stack and
  active snapshots as they were. The stack array is enlarged before it overflows.
\<close>

theorem spi_procedure_balanced:
  assumes "wf_spi s" and "SPI_connect s = Inr (c, s1)"
    and "list_all2 (\<lambda>(src, ro, n) (t, t'). \<exists>r. SPI_execute src ro n t = Inr (r, t')) calls
           (zip (s1 # states) states)"
  shows "c = SPI_OK_CONNECT \<and>
    (\<exists>s3. SPI_finish (last (s1 # states)) = (SPI_OK_FINISH, s3) \<and> spi_vars s3 = spi_vars s \<and>
       active_snapshots s3 = active_snapshots s \<and> wf_spi s3)"
proof -
  obtain s' where s': "SPI_connect s = Inr (SPI_OK_CONNECT, s')" "wf_spi s'" "spi_stack s' \<noteq> []"
    "active_snapshots s' = active_snapshots s" "tl (spi_stack s') = spi_stack s"
    "hd (spi_stack s') = \<lparr>outer_processed = SPI_processed s, outer_tuptable = SPI_tuptable s,
       outer_result = SPI_result s\<rparr>"
    using SPI_connect_wf [OF assms(1)] by metis
  have run: "active_snapshots (last (t # ss)) = active_snapshots t \<and> spi_stack (last (t # ss)) = spi_stack t \<and>
      spi_stack_depth (last (t # ss)) = spi_stack_depth t"
    if "list_all2 (\<lambda>(src, ro, n) (t, t'). \<exists>r. SPI_execute src ro n t = Inr (r, t')) cs (zip (t # ss) ss)" for cs t ss
    using that
  proof (induction ss arbitrary: t cs)
    case (Cons u ss)
    then obtain src ro n cs' r where "cs = (src, ro, n) # cs'" "SPI_execute src ro n t = Inr (r, u)"
      "list_all2 (\<lambda>(src, ro, n) (t, t'). \<exists>r. SPI_execute src ro n t = Inr (r, t')) cs' (zip (u # ss) ss)"
      by (auto simp: list_all2_Cons2)
    with Cons.IH [of cs' u] SPI_execute_balanced [of src ro n t r u] show ?case by simp
  qed simp
  have "length (spi_stack s) \<le> spi_stack_depth s'" using s'(2) by (simp add: wf_spi_def flip: s'(5))
  moreover have "s1 = s'" "c = SPI_OK_CONNECT" using assms(2) s'(1) by simp_all
  moreover obtain l where l: "l = last (s1 # states)" by simp
  ultimately show ?thesis using run [OF assms(3)] s' unfolding l [symmetric]
    by (simp add: SPI_finish_def SPI_begin_call_def restore_outer_def spi_vars_def wf_spi_def)
qed

text \<open>A session at the start of a transaction, with its first snapshot taken.\<close>

definition start_session :: "'c \<Rightarrow> 'c session" where
  "start_session c = \<lparr>current = c, xact_start = Some c, active_snapshots = [c], SPI_processed = 0, SPI_tuptable = None,
     SPI_result = 0, spi_stack = [], spi_stack_depth = 0\<rparr>"

lemma wf_start_session [simp]: "wf_spi (start_session c)"
  by (simp add: wf_spi_def start_session_def)

theorem spi_procedure_balanced_witness:
  "\<exists>s1 s2 s3. SPI_connect (start_session 0) = Inr (SPI_OK_CONNECT, s1) \<and>
     SPI_execute (Inr [SelectStmt (\<lambda>c. Inr [[Int4D c]])]) True 1 s1 = Inr (SPI_OK_SELECT, s2) \<and>
     SPI_processed s2 = 1 \<and> SPI_finish s2 = (SPI_OK_FINISH, s3) \<and> spi_vars s3 = spi_vars (start_session (0 :: int32))"
proof -
  let ?q = "\<lambda>c. Inr [[Int4D c]]"
  obtain s1 where s1: "SPI_connect (start_session (0 :: int32)) = Inr (SPI_OK_CONNECT, s1)" "spi_stack s1 \<noteq> []"
    "active_snapshots s1 = active_snapshots (start_session 0)"
    using SPI_connect_wf [OF wf_start_session] by metis
  have snap: "active_snapshots s1 = 0 # []" using s1(3) by (simp add: start_session_def)
  obtain s2 where s2: "SPI_execute (Inr [SelectStmt ?q]) True 1 s1 = Inr (SPI_OK_SELECT, s2)" "SPI_processed s2 = 1"
    using SPI_execute_select [OF s1(2) snap, of 1 ?q] by (simp add: row_limit_def)
  have "list_all2 (\<lambda>(src, ro, n) (t, t'). \<exists>r. SPI_execute src ro n t = Inr (r, t'))
      [(Inr [SelectStmt ?q], True, 1)] (zip (s1 # [s2]) [s2])"
    using s2 by simp
  from spi_procedure_balanced [OF wf_start_session s1(1) this] s1 s2 show ?thesis by auto
qed

end
