(* ===== verification/Catalog.thy ===== *)
theory Catalog
  imports Spi Double
begin

section \<open>Catalogs and the queries on them\<close>

text \<open>
  The rows of the system catalogs that AutoIndex reads, the system-cache lookups by
  which it gets names, and the four \<open>SELECT\<close> statements of
  \<^verbatim>\<open>index_advisor.c\<close> and \<^verbatim>\<open>index_lifecycle.c\<close>, each as the list of its result rows:
  a join is a list comprehension, a left join keeps an unmatched row with no partner,
  \<open>EXISTS\<close> is a test on the inner list. The values come back as text and are read
  with the C library's \<open>atoi\<close> and \<open>strtod\<close>, which are defined here.
\<close>

subsection \<open>Rows\<close>

record Form_pg_class =
  class_oid :: Oid
  class_relname :: string
  class_relnamespace :: Oid
  class_reltuples :: real
  class_relpages :: int32

record Form_pg_index =
  index_indexrelid :: Oid
  index_indrelid :: Oid

record Form_pg_attribute =
  att_attrelid :: Oid
  att_attname :: string
  att_attnum :: int16

record Form_pg_namespace =
  nsp_oid :: Oid
  nsp_nspname :: string

text \<open>A row of the view \<open>pg_stat_user_indexes\<close>.\<close>

record Form_stat_index =
  stat_indexrelid :: Oid
  stat_idx_scan :: int64

record catalog =
  pg_class :: "Form_pg_class list"
  pg_index :: "Form_pg_index list"
  pg_attribute :: "Form_pg_attribute list"
  pg_namespace :: "Form_pg_namespace list"
  pg_stat_user_indexes :: "Form_stat_index list"

subsection \<open>System-cache lookups\<close>

definition SearchSysCache_RELOID :: "Oid \<Rightarrow> catalog \<Rightarrow> Form_pg_class option" where
  "SearchSysCache_RELOID relid cat = List.find (\<lambda>c. class_oid c = relid) (pg_class cat)"

definition SearchSysCache_ATTNUM :: "Oid \<Rightarrow> int16 \<Rightarrow> catalog \<Rightarrow> Form_pg_attribute option" where
  "SearchSysCache_ATTNUM relid attno cat =
     List.find (\<lambda>a. att_attrelid a = relid \<and> att_attnum a = attno) (pg_attribute cat)"

text \<open>
  The lookup of a column's name. A column that is dropped keeps its row, under a name
  generated for it, and is found; the rows of a table are gone when the table is dropped.
\<close>

definition get_attname :: "Oid \<Rightarrow> int16 \<Rightarrow> bool \<Rightarrow> catalog \<Rightarrow> string option result" where
  "get_attname relid attno missing_ok cat =
     (case SearchSysCache_ATTNUM relid attno cat of
        Some tp \<Rightarrow> Inr (Some (att_attname tp))
      | None \<Rightarrow>
          if \<not> missing_ok
          then Inl (PgError (''cache lookup failed for attribute '' @ sdec (sint attno) @ '' of relation '' @
                      dec (unat relid)))
          else Inr None)"

definition get_rel_name :: "Oid \<Rightarrow> catalog \<Rightarrow> string option" where
  "get_rel_name relid cat = map_option class_relname (SearchSysCache_RELOID relid cat)"

subsection \<open>Queries\<close>

definition coalesce :: "'a option \<Rightarrow> 'a \<Rightarrow> 'a" where
  "coalesce v d = (case v of None \<Rightarrow> d | Some x \<Rightarrow> x)"

text \<open>A \<open>WHERE\<close> condition that may raise an error.\<close>

fun filter_res :: "('a \<Rightarrow> bool result) \<Rightarrow> 'a list \<Rightarrow> 'a list result" where
  "filter_res P [] = Inr []"
| "filter_res P (x # xs) =
     bind_res (P x) (\<lambda>b. bind_res (filter_res P xs) (\<lambda>ys. Inr (if b then x # ys else ys)))"

text \<open>\<open>SELECT COALESCE(reltuples, 1), COALESCE(relpages, 1) FROM pg_class WHERE oid = ...\<close>\<close>

definition build_cost_query :: "Oid \<Rightarrow> catalog \<Rightarrow> row list result" where
  "build_cost_query relid cat = Inr
     [[Float4D (coalesce (Some (class_reltuples c)) 1), Int4D (coalesce (Some (class_relpages c)) 1)].
        c \<leftarrow> pg_class cat, class_oid c = relid]"

text \<open>\<open>SELECT 1 FROM pg_index i JOIN pg_attribute a ... AND EXISTS (...) LIMIT 1\<close>\<close>

definition index_exists_query :: "Oid \<Rightarrow> int16 \<Rightarrow> catalog \<Rightarrow> row list result" where
  "index_exists_query relid attno cat = Inr (take 1
     [[Int4D 1].
        i \<leftarrow> pg_index cat, a \<leftarrow> pg_attribute cat, att_attrelid a = index_indexrelid i,
        index_indrelid i = relid \<and> att_attnum a = 1 \<and>
        list_ex (\<lambda>a2. att_attrelid a2 = index_indrelid i \<and> att_attnum a2 = attno \<and>
                     att_attname a2 = att_attname a) (pg_attribute cat)])"

text \<open>\<open>SELECT count(*) FROM pg_class c JOIN pg_index i ... AND c.relname LIKE 'autoindex_%'\<close>\<close>

definition count_auto_query :: "like_mode \<Rightarrow> Oid \<Rightarrow> catalog \<Rightarrow> row list result" where
  "count_auto_query enc relid cat =
     bind_res (filter_res (\<lambda>c. namelike enc (class_relname c) autoindex_pattern)
        [c. c \<leftarrow> pg_class cat, i \<leftarrow> pg_index cat, class_oid c = index_indexrelid i, index_indrelid i = relid])
       (\<lambda>cs. Inr [[Int8D (of_nat (length cs))]])"

text \<open>The rows of a left join for one row of the left side.\<close>

definition left_join :: "('b \<Rightarrow> bool) \<Rightarrow> 'b list \<Rightarrow> 'b option list" where
  "left_join matches right = (let ms = filter matches right in if ms = [] then [None] else map Some ms)"

text \<open>\<open>SELECT c.relname, n.nspname, i.indrelid, s.idx_scan FROM ... LEFT JOIN pg_stat_user_indexes s ...\<close>\<close>

definition unused_query :: "like_mode \<Rightarrow> catalog \<Rightarrow> row list result" where
  "unused_query enc cat =
     bind_res (filter_res (\<lambda>(c, _, _, _). namelike enc (class_relname c) autoindex_pattern)
        [(c, i, n, s). c \<leftarrow> pg_class cat, i \<leftarrow> pg_index cat, class_oid c = index_indexrelid i,
           n \<leftarrow> pg_namespace cat, class_relnamespace c = nsp_oid n,
           s \<leftarrow> left_join (\<lambda>s. stat_indexrelid s = class_oid c) (pg_stat_user_indexes cat)])
       (\<lambda>js. Inr
         [[NameD (class_relname c), NameD (nsp_nspname n), OidD (index_indrelid i),
           (case s of None \<Rightarrow> NULL | Some s \<Rightarrow> Int8D (stat_idx_scan s))].
            (c, i, n, s) \<leftarrow> js, coalesce (map_option stat_idx_scan s) 0 = 0])"

subsection \<open>Numbers from text\<close>

text \<open>
  \<open>atoi\<close> is \<open>(int) strtol(s, NULL, 10)\<close>: leading white space, a sign, digits as far
  as they go, saturation at the limits of \<open>long\<close>, and the low 32 bits.
\<close>

definition clamp_long :: "int \<Rightarrow> int" where
  "clamp_long x = max (- (2 ^ 63)) (min (2 ^ 63 - 1) x)"

definition atoi :: "string \<Rightarrow> int32" where
  "atoi s =
     (let (neg, p) = take_sign (dropWhile isspace s);
          n = int (digits_value 10 0 (takeWhile digit p))
      in word_of_int (clamp_long (if neg then - n else n)))"

text \<open>
  \<open>strtod\<close> on decimal notation: a sign, digits with an optional point, and an
  optional exponent; the value is rounded once.
\<close>

definition take_exponent :: "string \<Rightarrow> int" where
  "take_exponent p =
     (if p \<noteq> [] \<and> (hd p = CHR ''e'' \<or> hd p = CHR ''E'') then
        let (neg, q) = take_sign (tl p); n = int (digits_value 10 0 (takeWhile digit q))
        in if neg then - n else n
      else 0)"

definition strtod :: "string \<Rightarrow> real" where
  "strtod s =
     (let (neg, p) = take_sign (dropWhile isspace s);
          whole = takeWhile digit p; p = dropWhile digit p;
          (frac, p) = (if p \<noteq> [] \<and> hd p = CHR ''.'' then (takeWhile digit (tl p), dropWhile digit (tl p))
                       else ([], p));
          e = take_exponent p - int (length frac);
          x = real (digits_value 10 0 (whole @ frac)) * 10 powr of_int e
      in rnd (if neg then - x else x))"

subsection \<open>What the queries return\<close>

lemma filter_res_Inr:
  "(\<And>x. x \<in> set xs \<Longrightarrow> P x = Inr (Q x)) \<Longrightarrow> filter_res P xs = Inr (filter Q xs)"
  by (induction xs) auto

text \<open>A name that the pattern takes for one of AutoIndex.\<close>

definition auto_name :: "string \<Rightarrow> bool" where
  "auto_name s \<longleftrightarrow> take 9 s = ''autoindex'' \<and> 9 < length s"

lemma auto_name_iff: "auto_name s \<longleftrightarrow> (\<exists>c rest. s = ''autoindex'' @ c # rest)"
proof
  assume s: "auto_name s"
  then obtain c rest where "drop 9 s = c # rest" by (cases "drop 9 s") (auto simp: auto_name_def)
  with s append_take_drop_id [of 9 s] have "s = ''autoindex'' @ c # rest" by (simp add: auto_name_def)
  then show "\<exists>c rest. s = ''autoindex'' @ c # rest" by blast
qed (auto simp: auto_name_def)

lemma namelike_auto_name: "enc \<noteq> C_I \<Longrightarrow> namelike enc s autoindex_pattern = Inr (auto_name s)"
  by (simp add: namelike_autoindex auto_name_iff)

text \<open>The indexes on a relation with such a name.\<close>

definition auto_indexes :: "Oid \<Rightarrow> catalog \<Rightarrow> Form_pg_class list" where
  "auto_indexes relid cat =
     filter (\<lambda>c. auto_name (class_relname c))
       [c. c \<leftarrow> pg_class cat, i \<leftarrow> pg_index cat, class_oid c = index_indexrelid i, index_indrelid i = relid]"

lemma count_auto_query_eq:
  "enc \<noteq> C_I \<Longrightarrow> count_auto_query enc relid cat = Inr [[Int8D (of_nat (length (auto_indexes relid cat)))]]"
  by (simp add: count_auto_query_def auto_indexes_def filter_res_Inr [OF namelike_auto_name])

text \<open>The joined rows of the indexes with such a name.\<close>

definition auto_joined ::
  "catalog \<Rightarrow> (Form_pg_class \<times> Form_pg_index \<times> Form_pg_namespace \<times> Form_stat_index option) list" where
  "auto_joined cat = filter (\<lambda>(c, _, _, _). auto_name (class_relname c))
     [(c, i, n, s). c \<leftarrow> pg_class cat, i \<leftarrow> pg_index cat, class_oid c = index_indexrelid i,
        n \<leftarrow> pg_namespace cat, class_relnamespace c = nsp_oid n,
        s \<leftarrow> left_join (\<lambda>s. stat_indexrelid s = class_oid c) (pg_stat_user_indexes cat)]"

lemma unused_query_eq:
  assumes "enc \<noteq> C_I"
  shows "unused_query enc cat = Inr
    [[NameD (class_relname c), NameD (nsp_nspname n), OidD (index_indrelid i),
      (case s of None \<Rightarrow> NULL | Some s \<Rightarrow> Int8D (stat_idx_scan s))].
       (c, i, n, s) \<leftarrow> auto_joined cat, coalesce (map_option stat_idx_scan s) 0 = 0]"
  unfolding unused_query_def auto_joined_def
  by (subst filter_res_Inr [where Q = "\<lambda>(c, _, _, _). auto_name (class_relname c)"])
    (auto simp: namelike_auto_name [OF assms])

text \<open>An index on the relation whose first column has the name of the given column.\<close>

definition indexed_column :: "Oid \<Rightarrow> int16 \<Rightarrow> catalog \<Rightarrow> bool" where
  "indexed_column relid attno cat \<longleftrightarrow>
     (\<exists>i \<in> set (pg_index cat). \<exists>a \<in> set (pg_attribute cat). \<exists>a2 \<in> set (pg_attribute cat).
        index_indrelid i = relid \<and> att_attrelid a = index_indexrelid i \<and> att_attnum a = 1 \<and>
        att_attrelid a2 = relid \<and> att_attnum a2 = attno \<and> att_attname a2 = att_attname a)"

lemma take_1_const: "set xs = (if P then {y} else {}) \<Longrightarrow> take 1 xs = (if P then [y] else [])"
  by (cases xs) (auto split: if_splits)

lemma take_1_join:
  "take 1 [y. i \<leftarrow> I, a \<leftarrow> A, P i a, Q i a] =
     (if \<exists>i \<in> set I. \<exists>a \<in> set A. P i a \<and> Q i a then [y] else [])"
  by (rule take_1_const) auto

lemma index_exists_query_eq:
  "index_exists_query relid attno cat = Inr (if indexed_column relid attno cat then [[Int4D 1]] else [])"
  unfolding index_exists_query_def take_1_join
  by (rule arg_cong [where f = Inr], rule if_cong) (auto simp: indexed_column_def list_ex_iff)

subsection \<open>Reading back printed integers\<close>

lemma dec_digits: "list_all digit (dec n)"
proof (induction n rule: dec.induct)
  case (1 n)
  show ?case
  proof (cases "n < 10")
    case True
    then show ?thesis using digit_char_digit(1) [of n] by (subst dec.simps) (simp add: radix_digit_10)
  next
    case False
    then show ?thesis using 1 digit_char_digit(1) [of "n mod 10"]
      by (subst dec.simps) (simp add: radix_digit_10)
  qed
qed

lemma take_dec: "takeWhile digit (dec n) = dec n" "dropWhile digit (dec n) = []"
  using dec_digits [of n] by (auto simp: list_all_iff takeWhile_eq_all_conv)

lemma take_sign_sdec: "take_sign (dropWhile isspace (sdec x)) = (x < 0, dec (nat \<bar>x\<bar>))"
proof -
  obtain c cs where d: "dec (nat \<bar>x\<bar>) = c # cs" using dec_length_bounds(3) [of "nat \<bar>x\<bar>"] by (cases "dec (nat \<bar>x\<bar>)") auto
  have "digit c" using dec_digits [of "nat \<bar>x\<bar>"] d by simp
  then have "\<not> isspace c" "c \<noteq> CHR ''-''" "c \<noteq> CHR ''+''" by (auto simp: digit_def isspace_def)
  with d show ?thesis by (auto simp: sdec_def take_sign_def isspace_def)
qed

lemma atoi_sdec:
  assumes "in_range 64 x"
  shows "atoi (sdec x) = word_of_int x"
proof -
  have "clamp_long x = x" using assms by (simp add: clamp_long_def in_range_def)
  then show ?thesis using dec_grouped [of "nat \<bar>x\<bar>"]
    by (cases "x < 0") (simp_all add: atoi_def take_sign_sdec take_dec)
qed

lemma strtod_sdec: "strtod (sdec x) = rnd (of_int x)"
proof -
  have "take_exponent [] = 0" by (simp add: take_exponent_def)
  then show ?thesis using dec_grouped [of "nat \<bar>x\<bar>"]
    by (cases "x < 0") (simp_all add: strtod_def take_sign_sdec take_dec)
qed

end
