(* ===== verification/Advisor.thy ===== *)
theory Advisor
  imports Ring AdvisorHash Catalog Gucs "HOL-Library.Multiset"
begin

section \<open>The index advisor (index_advisor.c)\<close>

text \<open>
  One advisor pass: eviction, the drain of the ring into the statistics table, the
  estimate of what an index would cost, the selection of the columns whose rent has
  reached it, the sort by rent, and the creation loop. The database is a
  \<^typ>\<open>catalog session\<close>. Raising an error leaves the pass but not the changes it has
  made to the process-local table, so the creation loop returns the table beside its
  result. Messages below the level of an error have no effect on the state and are
  left out.
\<close>

subsection \<open>Environment\<close>

text \<open>
  What the pass takes from outside: the configuration variables, the planner's cost
  constants, the encoding and quoting settings of the database, and as parameters the
  keyword hash, the output function of \<open>float4\<close>, the C library's \<open>log\<close> and the parser
  of command strings.
\<close>

record advisor_env =
  env_gucs :: gucs
  seq_page_cost :: real
  cpu_operator_cost :: real
  env_enc :: like_mode
  quote_all_identifiers :: bool
  env_kw_hash :: "string \<Rightarrow> int"
  env_float4out :: "real \<Rightarrow> string"
  env_log :: "real \<Rightarrow> real"
  env_parse :: "string \<Rightarrow> catalog stmt list result"

subsection \<open>Draining the ring into the table\<close>

definition drain_columns ::
  "WorkloadEntry \<Rightarrow> ColUsageType \<Rightarrow> nat \<Rightarrow> Oid list \<Rightarrow> int16 list \<Rightarrow> advisor_state \<Rightarrow> advisor_state" where
  "drain_columns e utype n rels atts st =
     fold (\<lambda>i. accumulate_column (plan_cost e) (entry_ts e) utype (rels ! i, atts ! i)) [0..<n] st"

definition drain_entry :: "WorkloadEntry \<Rightarrow> advisor_state \<Rightarrow> advisor_state" where
  "drain_entry e st =
     (let st = drain_columns e USAGE_PREDICATE (n_pred e) (pred_relids e) (pred_attnums e) st;
          st = drain_columns e USAGE_JOIN (n_join e) (join_relids e) (join_attnums e) st
      in drain_columns e USAGE_SORT (n_sort e) (sort_relids e) (sort_attnums e) st)"

definition drain_ring_buffer ::
  "AutoIndexShmemHeader option \<Rightarrow> advisor_state \<Rightarrow> advisor_state \<times> AutoIndexShmemHeader option" where
  "drain_ring_buffer shmem st =
     (case shmem of
        None \<Rightarrow> (st, None)
      | Some shm \<Rightarrow> let (st', shm') = ring_drain drain_entry shm st in (st', Some shm'))"

subsection \<open>The cost of building an index\<close>

definition build_cost :: "advisor_env \<Rightarrow> real \<Rightarrow> real \<Rightarrow> real" where
  "build_cost env reltuples relpages =
     (let reltuples = (if reltuples < 1 then 1 else reltuples);
          relpages = (if relpages < 1 then 1 else relpages);
          c_buy = rnd (rnd (relpages * seq_page_cost env) +
                       rnd (rnd (reltuples * cpu_operator_cost env) * env_log env (rnd (reltuples + 1))))
      in if c_buy < 100 then 100 else c_buy)"

definition estimate_index_build_cost ::
  "advisor_env \<Rightarrow> Oid \<Rightarrow> catalog session \<Rightarrow> (real \<times> catalog session) result" where
  "estimate_index_build_cost env relid s =
     bind_res (SPI_execute (Inr [SelectStmt (build_cost_query relid)]) True 1 s) (\<lambda>(ret, s).
       if ret = SPI_OK_SELECT \<and> 0 < SPI_processed s then
         let tuple = the (SPI_tuptable s) ! 0;
             (v1, s) = SPI_getvalue (env_float4out env) tuple 1 s;
             (v2, s) = SPI_getvalue (env_float4out env) tuple 2 s;
             reltuples = (case v1 of Some v \<Rightarrow> strtod v | None \<Rightarrow> 1);
             relpages = (case v2 of Some v \<Rightarrow> strtod v | None \<Rightarrow> 1)
         in Inr (build_cost env reltuples relpages, s)
       else Inr (build_cost env 1 1, s))"

subsection \<open>Checks and creation\<close>

definition index_already_exists ::
  "Oid \<Rightarrow> int16 \<Rightarrow> catalog session \<Rightarrow> (bool \<times> catalog session) result" where
  "index_already_exists relid attno s =
     bind_res (SPI_execute (Inr [SelectStmt (index_exists_query relid attno)]) True 1 s) (\<lambda>(ret, s).
       Inr (ret = SPI_OK_SELECT \<and> 0 < SPI_processed s, s))"

definition count_auto_indexes ::
  "advisor_env \<Rightarrow> Oid \<Rightarrow> catalog session \<Rightarrow> (int32 \<times> catalog session) result" where
  "count_auto_indexes env relid s =
     bind_res (SPI_execute (Inr [SelectStmt (count_auto_query (env_enc env) relid)]) True 1 s) (\<lambda>(ret, s).
       if ret = SPI_OK_SELECT \<and> 0 < SPI_processed s then
         let (val, s) = SPI_getvalue (env_float4out env) (the (SPI_tuptable s) ! 0) 1 s
         in Inr (case val of Some v \<Rightarrow> atoi v | None \<Rightarrow> 0, s)
       else Inr (0, s))"

definition get_column_name :: "Oid \<Rightarrow> int16 \<Rightarrow> catalog session \<Rightarrow> string option result" where
  "get_column_name relid attno s = get_attname relid attno False (current s)"

definition get_table_name :: "Oid \<Rightarrow> catalog session \<Rightarrow> string option" where
  "get_table_name relid s = get_rel_name relid (current s)"

definition create_index_for_candidate ::
  "advisor_env \<Rightarrow> Oid \<Rightarrow> int16 \<Rightarrow> catalog session \<Rightarrow> catalog session result" where
  "create_index_for_candidate env relid attno s =
     (let tblname = get_table_name relid s in
      bind_res (get_column_name relid attno s) (\<lambda>colname.
        case (tblname, colname) of
          (Some tbl, Some col) \<Rightarrow>
            bind_res
              (SPI_execute
                (env_parse env (create_index_command (env_kw_hash env) (quote_all_identifiers env) tbl col))
                False 0 s)
              (\<lambda>(ret, s). Inr s)
        | _ \<Rightarrow> Inr s))"

subsection \<open>Candidates\<close>

record IndexCandidate =
  cand_relid :: Oid
  cand_attnum :: int16
  cand_usage :: ColUsageType
  cand_exec_count :: int64
  cand_rent :: real
  cand_c_buy :: real

text \<open>The guards before the cost estimate.\<close>

definition worth_estimating :: "gucs \<Rightarrow> ColStatsEntry \<Rightarrow> bool" where
  "worth_estimating g cs \<longleftrightarrow>
     (key_usage (cs_key cs) = USAGE_PREDICATE \<or> key_usage (cs_key cs) = USAGE_JOIN) \<and>
     0 < sint (key_attnum (cs_key cs)) \<and>
     sint (autoindex_min_exec_freq g) \<le> sint (exec_count cs)"

definition make_candidate :: "ColStatsEntry \<Rightarrow> real \<Rightarrow> IndexCandidate" where
  "make_candidate cs c_buy = \<lparr>cand_relid = key_relid (cs_key cs), cand_attnum = key_attnum (cs_key cs),
     cand_usage = key_usage (cs_key cs), cand_exec_count = exec_count cs,
     cand_rent = cumulative_rent cs, cand_c_buy = c_buy\<rparr>"

text \<open>The evaluation loop over the slots; the array of candidates is filled from the left.\<close>

fun evaluate_slots ::
  "advisor_env \<Rightarrow> advisor_state \<Rightarrow> nat list \<Rightarrow> IndexCandidate list \<Rightarrow> catalog session \<Rightarrow>
   (IndexCandidate list \<times> catalog session) result" where
  "evaluate_slots env st [] cands s = Inr (cands, s)"
| "evaluate_slots env st (i # slots) cands s =
     (if \<not> hash_used st i then evaluate_slots env st slots cands s
      else
        let cs = hash_slots st i in
        if \<not> worth_estimating (env_gucs env) cs then evaluate_slots env st slots cands s
        else
          bind_res (estimate_index_build_cost env (key_relid (cs_key cs)) s) (\<lambda>(c_buy, s).
            if c_buy \<le> cumulative_rent cs
            then evaluate_slots env st slots (cands @ [make_candidate cs c_buy]) s
            else evaluate_slots env st slots cands s))"

text \<open>The exchange sort.\<close>

definition exchange :: "nat \<Rightarrow> nat \<Rightarrow> IndexCandidate list \<Rightarrow> IndexCandidate list" where
  "exchange i j cands =
     (if cand_rent (cands ! i) < cand_rent (cands ! j)
      then cands[i := cands ! j, j := cands ! i]
      else cands)"

definition exchange_row :: "nat \<Rightarrow> nat \<Rightarrow> IndexCandidate list \<Rightarrow> IndexCandidate list" where
  "exchange_row n i cands = fold (exchange i) [i + 1..<n] cands"

definition sort_candidates :: "IndexCandidate list \<Rightarrow> IndexCandidate list" where
  "sort_candidates cands =
     (let n = length cands in fold (exchange_row n) [0..<n - 1] cands)"

subsection \<open>The pass\<close>

definition remove_column :: "IndexCandidate \<Rightarrow> advisor_state \<Rightarrow> advisor_state" where
  "remove_column c st =
     (case advisor_hash_remove (cand_relid c) (cand_attnum c) (cand_usage c) st of
        Some st' \<Rightarrow> st'
      | None \<Rightarrow> st)"

fun process_candidates ::
  "advisor_env \<Rightarrow> IndexCandidate list \<Rightarrow> advisor_state \<Rightarrow> catalog session \<Rightarrow>
   advisor_state \<times> catalog session result" where
  "process_candidates env [] st s = (st, Inr s)"
| "process_candidates env (c # cands) st s =
     (case count_auto_indexes env (cand_relid c) s of
        Inl e \<Rightarrow> (st, Inl e)
      | Inr (n, s) \<Rightarrow>
          if sint (autoindex_max_indexes_per_table (env_gucs env)) \<le> sint n
          then process_candidates env cands st s
          else
            (case index_already_exists (cand_relid c) (cand_attnum c) s of
               Inl e \<Rightarrow> (st, Inl e)
             | Inr (already, s) \<Rightarrow>
                 if already then process_candidates env cands (remove_column c st) s
                 else
                   (case create_index_for_candidate env (cand_relid c) (cand_attnum c) s of
                      Inl e \<Rightarrow> (st, Inl e)
                    | Inr s \<Rightarrow> process_candidates env cands (remove_column c st) s)))"

definition any_used :: "advisor_state \<Rightarrow> bool" where
  "any_used st \<longleftrightarrow> list_ex (hash_used st) [0..<ADVISOR_HASH_SIZE]"

definition autoindex_run_advisor ::
  "advisor_env \<Rightarrow> TimestampTz \<Rightarrow> AutoIndexShmemHeader option \<Rightarrow> advisor_state \<Rightarrow> catalog session \<Rightarrow>
   AutoIndexShmemHeader option \<times> advisor_state \<times> catalog session result" where
  "autoindex_run_advisor env now shmem st s =
     (let st = fst (advisor_hash_evict_stale now (autoindex_workload_window_days (env_gucs env)) st);
          (st, shmem) = drain_ring_buffer shmem st
      in if \<not> any_used st then (shmem, st, Inr s)
         else
           (case SPI_connect s of
              Inl e \<Rightarrow> (shmem, st, Inl e)
            | Inr (ret, s) \<Rightarrow>
                if ret \<noteq> SPI_OK_CONNECT then (shmem, st, Inr s)
                else
                  (case evaluate_slots env st [0..<ADVISOR_HASH_SIZE] [] s of
                     Inl e \<Rightarrow> (shmem, st, Inl e)
                   | Inr (cands, s) \<Rightarrow>
                       let (st, res) = process_candidates env (sort_candidates cands) st s
                       in (shmem, st,
                           case res of Inl e \<Rightarrow> Inl e | Inr s \<Rightarrow> Inr (snd (SPI_finish s))))))"

subsection \<open>The drain adds up the captured uses\<close>

text \<open>The uses that one entry records, with cost and time, in the order of the loops.\<close>

definition column_key :: "ColUsageType \<Rightarrow> Oid \<times> int16 \<Rightarrow> ColStatsKey" where
  "column_key u col = \<lparr>key_relid = fst col, key_attnum = snd col, key_usage = u\<rparr>"

definition entry_ops :: "WorkloadEntry \<Rightarrow> ((real \<times> TimestampTz) \<times> ColStatsKey) list" where
  "entry_ops e = map (Pair (plan_cost e, entry_ts e))
     (map (column_key USAGE_PREDICATE) (pred_cols e) @ map (column_key USAGE_JOIN) (join_cols e) @
      map (column_key USAGE_SORT) (sort_cols e))"

definition workload_ops :: "WorkloadEntry list \<Rightarrow> ((real \<times> TimestampTz) \<times> ColStatsKey) list" where
  "workload_ops es = concat (map entry_ops es)"

lemma drain_columns_ops:
  assumes "n \<le> length rels" and "n \<le> length atts"
  shows "drain_columns e u n rels atts =
    fold (\<lambda>(a, k). accumulate_key a k)
      (map (Pair (plan_cost e, entry_ts e)) (map (column_key u) (take n (zip rels atts))))"
proof
  fix st
  have "take n (zip rels atts) = map (\<lambda>i. (rels ! i, atts ! i)) [0..<n]"
    using assms by (intro nth_equalityI) auto
  then show "drain_columns e u n rels atts st =
      fold (\<lambda>(a, k). accumulate_key a k)
        (map (Pair (plan_cost e, entry_ts e)) (map (column_key u) (take n (zip rels atts)))) st"
    by (simp add: drain_columns_def fold_map comp_def accumulate_key_def column_key_def)
qed

lemma drain_entry_ops:
  "wf_entry e \<Longrightarrow> drain_entry e = fold (\<lambda>(a, k). accumulate_key a k) (entry_ops e)"
  by (rule ext) (simp add: drain_entry_def drain_columns_ops wf_entry_def entry_ops_def pred_cols_def join_cols_def
      sort_cols_def)

lemma drain_entries_ops:
  "list_all wf_entry es \<Longrightarrow> fold drain_entry es st = fold (\<lambda>(a, k). accumulate_key a k) (workload_ops es) st"
  by (induction es arbitrary: st) (auto simp: workload_ops_def drain_entry_ops)

subsection \<open>The sort\<close>

lemma exchange_mset:
  assumes "i < length xs" and "j < length xs"
  shows "mset (exchange i j xs) = mset xs"
  using mset_swap [OF assms(2,1)] by (simp add: exchange_def)

lemma exchange_length [simp]: "length (exchange i j xs) = length xs"
  by (simp add: exchange_def)

lemma exchange_other: "k \<noteq> i \<Longrightarrow> k \<noteq> j \<Longrightarrow> exchange i j xs ! k = xs ! k"
  by (simp add: exchange_def)

lemma exchange_max:
  assumes "i < length xs" and "j < length xs" and "i \<noteq> j"
  shows "cand_rent (exchange i j xs ! i) = max (cand_rent (xs ! i)) (cand_rent (xs ! j))"
    and "cand_rent (exchange i j xs ! j) = min (cand_rent (xs ! i)) (cand_rent (xs ! j))"
  using assms by (auto simp: exchange_def)

text \<open>One row brings the largest rent of the rest to position \<open>i\<close>.\<close>

lemma exchange_row_upto:
  assumes "i < length xs" and "i + 1 \<le> k" and "k \<le> length xs"
  defines "ys \<equiv> fold (exchange i) [i + 1..<k] xs"
  shows "length ys = length xs \<and> mset ys = mset xs \<and> take i ys = take i xs \<and>
    (\<forall>j. i \<le> j \<and> j < k \<longrightarrow> cand_rent (ys ! j) \<le> cand_rent (ys ! i))"
  using assms(2,3) unfolding ys_def
proof (induction k rule: dec_induct)
  case base
  then show ?case using assms(1) by (auto simp: le_less_Suc_eq)
next
  case (step k)
  let ?ys = "fold (exchange i) [i + 1..<k] xs"
  have IH: "length ?ys = length xs" "mset ?ys = mset xs" "take i ?ys = take i xs"
    "\<And>j. i \<le> j \<Longrightarrow> j < k \<Longrightarrow> cand_rent (?ys ! j) \<le> cand_rent (?ys ! i)"
    using step.IH step.prems by auto
  have k: "i < k" "k < length xs" using step by auto
  have fold: "fold (exchange i) [i + 1..<Suc k] xs = exchange i k ?ys" using k by simp
  have "take i (exchange i k ?ys) = take i ?ys" using k by (simp add: exchange_def)
  moreover have "cand_rent (exchange i k ?ys ! j) \<le> cand_rent (exchange i k ?ys ! i)" if "i \<le> j" "j < Suc k" for j
  proof (cases "j = i \<or> j = k")
    case True
    then show ?thesis using exchange_max [of i ?ys k] IH(1) k assms(1) by auto
  next
    case False
    then have "cand_rent (?ys ! j) \<le> cand_rent (?ys ! i)" using IH(4) that by simp
    then show ?thesis using False exchange_max(1) [of i ?ys k] IH(1) k assms(1) by (simp add: exchange_other)
  qed
  moreover have "mset (exchange i k ?ys) = mset xs" using exchange_mset [of i ?ys k] IH(1,2) k assms(1) by simp
  ultimately show ?case unfolding fold using IH by auto
qed

lemma set_drop_nth: "x \<in> set (drop m xs) \<longleftrightarrow> (\<exists>c. m \<le> c \<and> c < length xs \<and> xs ! c = x)"
proof
  assume "x \<in> set (drop m xs)"
  then obtain d where "d < length (drop m xs)" "drop m xs ! d = x" by (auto simp: in_set_conv_nth)
  then show "\<exists>c. m \<le> c \<and> c < length xs \<and> xs ! c = x" by (intro exI [of _ "m + d"]) auto
next
  assume "\<exists>c. m \<le> c \<and> c < length xs \<and> xs ! c = x"
  then obtain c where "m \<le> c" "c < length xs" "xs ! c = x" by blast
  then have "c - m < length (drop m xs)" "drop m xs ! (c - m) = x" by auto
  then show "x \<in> set (drop m xs)" using nth_mem by blast
qed

lemma sort_candidates_upto:
  assumes "m \<le> length xs - 1"
  defines "ys \<equiv> fold (exchange_row (length xs)) [0..<m] xs"
  shows "length ys = length xs \<and> mset ys = mset xs \<and>
    (\<forall>a b. a < m \<and> a < b \<and> b < length xs \<longrightarrow> cand_rent (ys ! b) \<le> cand_rent (ys ! a))"
  using assms(1) unfolding ys_def
proof (induction m)
  case (Suc m)
  let ?n = "length xs" and ?ys = "fold (exchange_row (length xs)) [0..<m] xs"
  let ?zs = "exchange_row ?n m ?ys"
  have IH: "length ?ys = ?n" "mset ?ys = mset xs"
    "\<And>a b. a < m \<Longrightarrow> a < b \<Longrightarrow> b < ?n \<Longrightarrow> cand_rent (?ys ! b) \<le> cand_rent (?ys ! a)"
    using Suc by auto
  have m: "m < ?n" "m + 1 \<le> ?n" using Suc.prems by auto
  then have row: "length ?zs = ?n" "mset ?zs = mset ?ys" "take m ?zs = take m ?ys"
    "\<And>j. m \<le> j \<Longrightarrow> j < ?n \<Longrightarrow> cand_rent (?zs ! j) \<le> cand_rent (?zs ! m)"
    using exchange_row_upto [of m ?ys ?n] IH(1) by (auto simp: exchange_row_def)
  have front: "?zs ! a = ?ys ! a" if "a < m" for a using row(3) that by (metis nth_take)
  have "mset (drop m ?zs) = mset (drop m ?ys)"
    using row(2,3) by (metis add_left_cancel append_take_drop_id mset_append)
  then have rear: "set (drop m ?zs) = set (drop m ?ys)" by (metis set_mset_mset)
  have "cand_rent (?zs ! b) \<le> cand_rent (?zs ! a)" if "a < Suc m" "a < b" "b < ?n" for a b
  proof (cases "a = m")
    case False
    then have a: "a < m" using that by simp
    show ?thesis
    proof (cases "b < m")
      case False
      then have "?zs ! b \<in> set (drop m ?zs)" using that row(1) unfolding set_drop_nth by (intro exI [of _ b]) simp
      then obtain c where "m \<le> c" "c < ?n" "?zs ! b = ?ys ! c"
        unfolding rear set_drop_nth IH(1) by force
      with IH(3) [of a c] a front show ?thesis by simp
    qed (use that a IH(3) front in simp)
  qed (use row(4) that in simp)
  then show ?case using row IH by auto
qed simp

lemma sort_candidates_correct:
  "mset (sort_candidates xs) = mset xs" "sorted_wrt (\<lambda>c d. cand_rent d \<le> cand_rent c) (sort_candidates xs)"
proof -
  have "length (sort_candidates xs) = length xs \<and> mset (sort_candidates xs) = mset xs \<and>
      (\<forall>a b. a < length xs - 1 \<and> a < b \<and> b < length xs \<longrightarrow>
        cand_rent (sort_candidates xs ! b) \<le> cand_rent (sort_candidates xs ! a))"
    using sort_candidates_upto [of "length xs - 1" xs] by (simp add: sort_candidates_def Let_def)
  then show "mset (sort_candidates xs) = mset xs"
    "sorted_wrt (\<lambda>c d. cand_rent d \<le> cand_rent c) (sort_candidates xs)"
    by (auto simp: sorted_wrt_iff_nth_less)
qed

subsection \<open>What the pass reads is the snapshot it began with\<close>

text \<open>What a read-only call leaves as it was: everything but the result variables.\<close>

definition core :: "'c session \<Rightarrow> 'c \<times> 'c option \<times> 'c list \<times> spi_connection list \<times> nat" where
  "core s = (current s, xact_start s, active_snapshots s, spi_stack s, spi_stack_depth s)"

definition spi_ready :: "'c \<Rightarrow> 'c session \<Rightarrow> bool" where
  "spi_ready snap s \<longleftrightarrow> spi_stack s \<noteq> [] \<and> (\<exists>rest. active_snapshots s = snap # rest)"

lemma core_eqD: "core s = core t \<Longrightarrow> current s = current t" "core s = core t \<Longrightarrow> spi_ready c s = spi_ready c t"
  by (auto simp: core_def spi_ready_def)

lemma core_updates [simp]:
  "core (s\<lparr>SPI_processed := n, SPI_tuptable := tt\<rparr>) = core s" "core (s\<lparr>SPI_result := r\<rparr>) = core s"
  "core (s\<lparr>SPI_processed := n, SPI_tuptable := tt, SPI_result := r\<rparr>) = core s"
  by (simp_all add: core_def)

lemma ready_select:
  assumes "spi_ready snap s" and "query snap = Inr rows" and "take 1 rows = tuples"
  shows "SPI_execute (Inr [SelectStmt query]) True 1 s =
    Inr (SPI_OK_SELECT, s\<lparr>SPI_processed := length tuples, SPI_tuptable := Some tuples\<rparr>)"
  using assms SPI_execute_select [of s snap _ 1 query rows] by (auto simp: spi_ready_def row_limit_def)

definition snapshot_cost :: "advisor_env \<Rightarrow> catalog \<Rightarrow> Oid \<Rightarrow> real" where
  "snapshot_cost env snap relid =
     (case SearchSysCache_RELOID relid snap of
        Some c \<Rightarrow> build_cost env (strtod (env_float4out env (class_reltuples c)))
                   (rnd (of_int (sint (class_relpages c))))
      | None \<Rightarrow> build_cost env 1 1)"

lemma take_1_filter: "take 1 [f c. c \<leftarrow> xs, P c] = (case List.find P xs of Some c \<Rightarrow> [f c] | None \<Rightarrow> [])"
  by (induction xs) auto

lemma estimate_snapshot:
  assumes "spi_ready snap s"
  shows "\<exists>s'. estimate_index_build_cost env relid s = Inr (snapshot_cost env snap relid, s') \<and> core s' = core s"
proof -
  let ?f = "\<lambda>c. [Float4D (coalesce (Some (class_reltuples c)) 1), Int4D (coalesce (Some (class_relpages c)) 1)]"
  let ?P = "\<lambda>c. class_oid c = relid"
  have q: "build_cost_query relid snap = Inr [?f c. c \<leftarrow> pg_class snap, ?P c]" by (simp add: build_cost_query_def)
  show ?thesis
  proof (cases "List.find ?P (pg_class snap)")
    case None
    then have ts: "take 1 [?f c. c \<leftarrow> pg_class snap, ?P c] = []" unfolding take_1_filter by simp
    with ready_select [where query = "build_cost_query relid", OF assms q ts] None show ?thesis
      by (simp add: estimate_index_build_cost_def snapshot_cost_def SearchSysCache_RELOID_def)
  next
    case (Some c)
    then have ts: "take 1 [?f c. c \<leftarrow> pg_class snap, ?P c] = [?f c]" unfolding take_1_filter by simp
    with ready_select [where query = "build_cost_query relid", OF assms q ts] Some show ?thesis
      by (simp add: estimate_index_build_cost_def snapshot_cost_def SearchSysCache_RELOID_def SPI_getvalue_def
          coalesce_def intout_sdec strtod_sdec Let_def)
  qed
qed

lemma exists_snapshot:
  assumes "spi_ready snap s"
  shows "\<exists>s'. index_already_exists relid attno s = Inr (indexed_column relid attno snap, s') \<and> core s' = core s"
  using ready_select [where query = "index_exists_query relid attno", OF assms index_exists_query_eq refl]
  by (simp add: index_already_exists_def)

lemma count_snapshot:
  assumes "spi_ready snap s" and "env_enc env \<noteq> C_I" and "length (auto_indexes relid snap) < 2 ^ 31"
  shows "\<exists>n s'. count_auto_indexes env relid s = Inr (n, s') \<and> sint n = int (length (auto_indexes relid snap)) \<and>
    core s' = core s"
proof -
  let ?n = "length (auto_indexes relid snap)"
  have n: "sint (of_nat ?n :: int64) = int ?n" "sint (word_of_int (int ?n) :: int32) = int ?n"
    using assms(3) by (simp_all add: signed_of_nat signed_of_int signed_take_bit_int_eq_self)
  have "atoi (int8out (of_nat ?n)) = word_of_int (int ?n)"
    using assms(3) by (simp add: intout_sdec n atoi_sdec in_range_def)
  with ready_select [where query = "count_auto_query (env_enc env) relid", OF assms(1) count_auto_query_eq [OF assms(2)] refl] n(2) show ?thesis
    by (simp add: count_auto_indexes_def SPI_getvalue_def Let_def)
qed

text \<open>
  The price of an index as the README states it, on the statistics of the relation in the
  snapshot, with floors of one row, one page and a cost of 100; one row and one page for a
  relation that is not in the catalogs. Every operation rounds.
\<close>

definition index_price :: "advisor_env \<Rightarrow> catalog \<Rightarrow> Oid \<Rightarrow> real" where
  "index_price env snap relid =
     (let (rows, pages) = (case List.find (\<lambda>c. class_oid c = relid) (pg_class snap) of
            Some c \<Rightarrow> (max 1 (strtod (env_float4out env (class_reltuples c))), max 1 (rnd (of_int (sint (class_relpages c)))))
          | None \<Rightarrow> (1, 1))
      in max 100 (rnd (rnd (pages * seq_page_cost env) + rnd (rnd (rows * cpu_operator_cost env) * env_log env (rnd (rows + 1))))))"

lemma if_less_max: "(if x < a then a else x) = max a x" for x :: real
  by (simp add: max_def)

lemma snapshot_cost_price: "snapshot_cost env snap relid = index_price env snap relid"
  by (simp add: snapshot_cost_def index_price_def build_cost_def SearchSysCache_RELOID_def Let_def if_less_max
      split: option.split)

text \<open>The columns whose rent has reached the price, in slot order.\<close>

definition selected :: "advisor_env \<Rightarrow> catalog \<Rightarrow> advisor_state \<Rightarrow> nat list \<Rightarrow> IndexCandidate list" where
  "selected env snap st slots =
     map (\<lambda>i. make_candidate (hash_slots st i) (snapshot_cost env snap (key_relid (cs_key (hash_slots st i)))))
       (filter (\<lambda>i. hash_used st i \<and> worth_estimating (env_gucs env) (hash_slots st i) \<and>
          snapshot_cost env snap (key_relid (cs_key (hash_slots st i))) \<le> cumulative_rent (hash_slots st i)) slots)"

lemma selected_columns:
  "selected env snap st slots =
     map (\<lambda>i. let cs = hash_slots st i; key = cs_key cs in
          \<lparr>cand_relid = key_relid key, cand_attnum = key_attnum key, cand_usage = key_usage key,
           cand_exec_count = exec_count cs, cand_rent = cumulative_rent cs,
           cand_c_buy = index_price env snap (key_relid key)\<rparr>)
       (filter (\<lambda>i. let cs = hash_slots st i; key = cs_key cs in
          hash_used st i \<and> (key_usage key = USAGE_PREDICATE \<or> key_usage key = USAGE_JOIN) \<and>
          0 < sint (key_attnum key) \<and> sint (autoindex_min_exec_freq (env_gucs env)) \<le> sint (exec_count cs) \<and>
          index_price env snap (key_relid key) \<le> cumulative_rent cs) slots)"
  by (simp add: selected_def make_candidate_def snapshot_cost_price worth_estimating_def Let_def conj_assoc)

lemma evaluate_snapshot:
  assumes "spi_ready snap s"
  shows "\<exists>s'. evaluate_slots env st slots cands s = Inr (cands @ selected env snap st slots, s') \<and> core s' = core s"
  using assms
proof (induction slots arbitrary: cands s)
  case (Cons i slots)
  show ?case
  proof (cases "hash_used st i \<and> worth_estimating (env_gucs env) (hash_slots st i)")
    case True
    let ?relid = "key_relid (cs_key (hash_slots st i))"
    obtain t where t: "estimate_index_build_cost env ?relid s = Inr (snapshot_cost env snap ?relid, t)" "core t = core s"
      using estimate_snapshot [OF Cons.prems] by blast
    then have "spi_ready snap t" using Cons.prems core_eqD(2) [OF t(2)] by simp
    note IH = Cons.IH [OF this]
    let ?c = "make_candidate (hash_slots st i) (snapshot_cost env snap ?relid)"
    show ?thesis
    proof (cases "snapshot_cost env snap ?relid \<le> cumulative_rent (hash_slots st i)")
      case reached: True
      with IH [of "cands @ [?c]"] t True show ?thesis by (auto simp: selected_def Let_def)
    next
      case False
      with IH [of cands] t True show ?thesis by (auto simp: selected_def Let_def)
    qed
  next
    case False
    with Cons.IH [OF Cons.prems, of cands] show ?thesis by (auto simp: selected_def Let_def)
  qed
qed (simp add: selected_def)

subsection \<open>The creation loop decides by the snapshot\<close>

datatype outcome = Keep | Forget | Create

definition decision :: "advisor_env \<Rightarrow> catalog \<Rightarrow> IndexCandidate \<Rightarrow> outcome" where
  "decision env snap c =
     (if sint (autoindex_max_indexes_per_table (env_gucs env)) \<le> int (length (auto_indexes (cand_relid c) snap))
      then Keep
      else if indexed_column (cand_relid c) (cand_attnum c) snap then Forget else Create)"

text \<open>The effect of one creation on the catalogs.\<close>

definition create_effect :: "advisor_env \<Rightarrow> IndexCandidate \<Rightarrow> catalog \<Rightarrow> catalog result" where
  "create_effect env c cat =
     bind_res (get_attname (cand_relid c) (cand_attnum c) False cat) (\<lambda>colname.
       case (get_rel_name (cand_relid c) cat, colname) of
         (Some tbl, Some col) \<Rightarrow>
           bind_res (env_parse env (create_index_command (env_kw_hash env) (quote_all_identifiers env) tbl col))
             (\<lambda>stmts. run_stmts stmts cat)
       | _ \<Rightarrow> Inr cat)"

fun advise :: "advisor_env \<Rightarrow> catalog \<Rightarrow> IndexCandidate list \<Rightarrow> advisor_state \<Rightarrow> catalog \<Rightarrow> advisor_state \<times> catalog result" where
  "advise env snap [] st cat = (st, Inr cat)"
| "advise env snap (c # cands) st cat =
     (case decision env snap c of
        Keep \<Rightarrow> advise env snap cands st cat
      | Forget \<Rightarrow> advise env snap cands (remove_column c st) cat
      | Create \<Rightarrow>
          (case create_effect env c cat of
             Inl e \<Rightarrow> (st, Inl e)
           | Inr cat' \<Rightarrow> advise env snap cands (remove_column c st) cat'))"

text \<open>The catalogs in a size that the 32-bit count can express.\<close>

definition countable_catalog :: "catalog \<Rightarrow> bool" where
  "countable_catalog cat \<longleftrightarrow> (\<forall>relid. length (auto_indexes relid cat) < 2 ^ 31)"

lemma create_index_effect:
  assumes "spi_ready snap s"
  shows "map_sum id current (create_index_for_candidate env (cand_relid c) (cand_attnum c) s) =
      create_effect env c (current s)"
    and "create_index_for_candidate env (cand_relid c) (cand_attnum c) s = Inr s' \<Longrightarrow>
      spi_ready snap s' \<and> active_snapshots s' = active_snapshots s \<and> spi_stack s' = spi_stack s \<and>
      spi_stack_depth s' = spi_stack_depth s \<and> xact_start s' = xact_start s"
proof -
  have s: "spi_stack s \<noteq> []" "active_snapshots s \<noteq> []" using assms by (auto simp: spi_ready_def)
  show "map_sum id current (create_index_for_candidate env (cand_relid c) (cand_attnum c) s) =
      create_effect env c (current s)"
  proof (cases "get_attname (cand_relid c) (cand_attnum c) False (current s)")
    case (Inr colname)
    show ?thesis
    proof (cases "\<exists>tbl col. get_rel_name (cand_relid c) (current s) = Some tbl \<and> colname = Some col")
      case True
      then obtain tbl col where names: "get_rel_name (cand_relid c) (current s) = Some tbl" "colname = Some col" by blast
      let ?src = "env_parse env (create_index_command (env_kw_hash env) (quote_all_identifiers env) tbl col)"
      from SPI_execute_effect [OF s, of 0 ?src] Inr names show ?thesis
        by (cases "SPI_execute ?src False 0 s")
          (auto simp: create_index_for_candidate_def create_effect_def get_column_name_def get_table_name_def)
    next
      case False
      with Inr show ?thesis
        by (auto simp: create_index_for_candidate_def create_effect_def get_column_name_def get_table_name_def
            split: option.splits)
    qed
  qed (simp add: create_index_for_candidate_def create_effect_def get_column_name_def Let_def)
  assume "create_index_for_candidate env (cand_relid c) (cand_attnum c) s = Inr s'"
  then have "active_snapshots s' = active_snapshots s \<and> spi_stack s' = spi_stack s \<and>
      spi_stack_depth s' = spi_stack_depth s \<and> xact_start s' = xact_start s"
    by (auto simp: create_index_for_candidate_def Let_def split: option.splits dest!: SPI_execute_balanced)
  with assms show "spi_ready snap s' \<and> active_snapshots s' = active_snapshots s \<and> spi_stack s' = spi_stack s \<and>
      spi_stack_depth s' = spi_stack_depth s \<and> xact_start s' = xact_start s" by (simp add: spi_ready_def)
qed

text \<open>What the session keeps of its caller.\<close>

definition frame :: "'c session \<Rightarrow> 'c option \<times> 'c list \<times> spi_connection list \<times> nat" where
  "frame s = (xact_start s, active_snapshots s, spi_stack s, spi_stack_depth s)"

lemma core_frame: "core s = core t \<Longrightarrow> frame s = frame t \<and> current s = current t"
  by (simp add: core_def frame_def)

lemma process_advises:
  assumes "spi_ready snap s" and "env_enc env \<noteq> C_I" and "countable_catalog snap"
  shows "\<exists>st' res. process_candidates env cands st s = (st', res) \<and>
    advise env snap cands st (current s) = (st', map_sum id current res) \<and>
    (\<forall>s'. res = Inr s' \<longrightarrow> frame s' = frame s)"
  using assms(1)
proof (induction cands arbitrary: st s)
  case (Cons c cands)
  obtain n s1 where s1: "count_auto_indexes env (cand_relid c) s = Inr (n, s1)"
    "sint n = int (length (auto_indexes (cand_relid c) snap))" "core s1 = core s"
    using count_snapshot [OF Cons.prems assms(2)] assms(3) unfolding countable_catalog_def by blast
  have r1: "spi_ready snap s1" using core_eqD(2) [OF s1(3)] Cons.prems by simp
  obtain s2 where s2: "index_already_exists (cand_relid c) (cand_attnum c) s1 =
      Inr (indexed_column (cand_relid c) (cand_attnum c) snap, s2)" "core s2 = core s1"
    using exists_snapshot [OF r1] by blast
  have r2: "spi_ready snap s2" using core_eqD(2) [OF s2(2)] r1 by simp
  have f: "frame s1 = frame s" "frame s2 = frame s" "current s1 = current s" "current s2 = current s"
    using core_frame s1(3) s2(2) by metis+
  show ?case
  proof (cases "decision env snap c")
    case Keep
    with s1 Cons.IH [OF r1, of st] f show ?thesis by (auto simp: decision_def split: if_splits)
  next
    case Forget
    with s1 s2 Cons.IH [OF r2, of "remove_column c st"] f show ?thesis
      by (auto simp: decision_def split: if_splits)
  next
    case Create
    note eff = create_index_effect [OF r2, of env c]
    show ?thesis
    proof (cases "create_index_for_candidate env (cand_relid c) (cand_attnum c) s2")
      case (Inl e)
      with Create s1 s2 eff(1) [symmetric] f show ?thesis by (auto simp: decision_def split: if_splits)
    next
      case (Inr s3)
      then have s3: "spi_ready snap s3" "frame s3 = frame s" using eff(2) [OF Inr] f by (auto simp: frame_def)
      from Create s1 s2 eff(1) [symmetric] f Inr Cons.IH [OF s3(1), of "remove_column c st"] s3(2) show ?thesis
        by (auto simp: decision_def split: if_splits)
    qed
  qed
qed simp

lemma spi_ready_connect:
  assumes "wf_spi s" and "active_snapshots s = snap # rest"
  obtains s1 where "SPI_connect s = Inr (SPI_OK_CONNECT, s1)" and "spi_ready snap s1" and "current s1 = current s"
    and "\<And>t. frame t = frame s1 \<Longrightarrow> spi_vars (snd (SPI_finish t)) = spi_vars s \<and>
          active_snapshots (snd (SPI_finish t)) = active_snapshots s \<and> current (snd (SPI_finish t)) = current t \<and>
          wf_spi (snd (SPI_finish t))"
proof (rule SPI_connect_wf [OF assms(1)])
  fix s1
  assume s1: "SPI_connect s = Inr (SPI_OK_CONNECT, s1)" "wf_spi s1" "spi_stack s1 \<noteq> []" "current s1 = current s"
    "active_snapshots s1 = active_snapshots s" "tl (spi_stack s1) = spi_stack s"
    "hd (spi_stack s1) = \<lparr>outer_processed = SPI_processed s, outer_tuptable = SPI_tuptable s,
       outer_result = SPI_result s\<rparr>"
  show thesis
  proof (rule that)
    show "SPI_connect s = Inr (SPI_OK_CONNECT, s1)" "current s1 = current s" by fact+
    show "spi_ready snap s1" using s1 assms(2) by (simp add: spi_ready_def)
    fix t
    assume "frame t = frame s1"
    then have t: "spi_stack t = spi_stack s1" "active_snapshots t = active_snapshots s1"
      "spi_stack_depth t = spi_stack_depth s1" by (simp_all add: frame_def)
    have "length (spi_stack s) \<le> length (spi_stack s1)" by (simp flip: s1(6))
    with s1(2) have "length (spi_stack s) \<le> spi_stack_depth s1" by (simp add: wf_spi_def)
    with t s1 show "spi_vars (snd (SPI_finish t)) = spi_vars s \<and>
        active_snapshots (snd (SPI_finish t)) = active_snapshots s \<and> current (snd (SPI_finish t)) = current t \<and>
        wf_spi (snd (SPI_finish t))"
      by (simp add: SPI_finish_def SPI_begin_call_def restore_outer_def spi_vars_def wf_spi_def)
  qed
qed

text \<open>The table the candidates are taken from.\<close>

definition drained_table :: "advisor_env \<Rightarrow> TimestampTz \<Rightarrow> AutoIndexShmemHeader option \<Rightarrow> advisor_state \<Rightarrow> advisor_state" where
  "drained_table env now shmem st =
     fst (drain_ring_buffer shmem
       (fst (advisor_hash_evict_stale now (autoindex_workload_window_days (env_gucs env)) st)))"

lemma run_advisor_advises:
  fixes now :: TimestampTz and shmem :: "AutoIndexShmemHeader option" and st :: advisor_state
  assumes "wf_spi s" and "active_snapshots s = snap # rest" and "env_enc env \<noteq> C_I" and "countable_catalog snap"
  defines "st1 \<equiv> drained_table env now shmem st"
  shows "\<exists>shmem' st' res. autoindex_run_advisor env now shmem st s = (shmem', st', res) \<and>
    (if any_used st1 then
       advise env snap (sort_candidates (selected env snap st1 [0..<ADVISOR_HASH_SIZE])) st1 (current s) =
         (st', map_sum id current res) \<and>
       (\<forall>s'. res = Inr s' \<longrightarrow> spi_vars s' = spi_vars s \<and> active_snapshots s' = active_snapshots s \<and> wf_spi s')
     else st' = st1 \<and> res = Inr s)"
proof -
  let ?evicted = "fst (advisor_hash_evict_stale now (autoindex_workload_window_days (env_gucs env)) st)"
  obtain shmem' where drain: "drain_ring_buffer shmem ?evicted = (st1, shmem')"
    unfolding st1_def drained_table_def by (metis prod.collapse)
  show ?thesis
  proof (cases "any_used st1")
    case False
    then show ?thesis by (auto simp: autoindex_run_advisor_def drain Let_def)
  next
    case True
    obtain s1 where s1: "SPI_connect s = Inr (SPI_OK_CONNECT, s1)" "spi_ready snap s1" "current s1 = current s"
      and fin: "\<And>t. frame t = frame s1 \<Longrightarrow> spi_vars (snd (SPI_finish t)) = spi_vars s \<and>
          active_snapshots (snd (SPI_finish t)) = active_snapshots s \<and> current (snd (SPI_finish t)) = current t \<and>
          wf_spi (snd (SPI_finish t))"
      using spi_ready_connect [OF assms(1,2)] by metis
    obtain s2 where s2: "evaluate_slots env st1 [0..<ADVISOR_HASH_SIZE] [] s1 =
        Inr (selected env snap st1 [0..<ADVISOR_HASH_SIZE], s2)" "core s2 = core s1"
      using evaluate_snapshot [OF s1(2), of env st1 _ "[]"] by auto
    have r2: "spi_ready snap s2" using core_eqD(2) [OF s2(2)] s1(2) by simp
    obtain st' res where p: "process_candidates env (sort_candidates (selected env snap st1 [0..<ADVISOR_HASH_SIZE])) st1 s2 =
        (st', res)" "advise env snap (sort_candidates (selected env snap st1 [0..<ADVISOR_HASH_SIZE])) st1 (current s2) =
        (st', map_sum id current res)" "\<forall>s'. res = Inr s' \<longrightarrow> frame s' = frame s2"
      using process_advises [OF r2 assms(3,4)] by blast
    let ?res = "case res of Inl e \<Rightarrow> Inl e | Inr s \<Rightarrow> Inr (snd (SPI_finish s))"
    have run: "autoindex_run_advisor env now shmem st s = (shmem', st', ?res)"
      using True s1(1) s2(1) p(1) by (simp add: autoindex_run_advisor_def drain Let_def)
    have "map_sum id current ?res = map_sum id current res"
      using p(3) fin core_frame [OF s2(2)] by (cases res) auto
    moreover have "spi_vars s' = spi_vars s \<and> active_snapshots s' = active_snapshots s \<and> wf_spi s'" if "?res = Inr s'" for s'
      using that p(3) fin core_frame [OF s2(2)] by (cases res) auto
    moreover have "current s2 = current s" using core_frame [OF s2(2)] s1(3) by simp
    ultimately show ?thesis using run p(2) True by auto
  qed
qed

subsection \<open>Properties\<close>

text \<open>
  C1: One advisor pass refines the abstract pass that takes all its decisions from the
  snapshot with which it began: the candidates are the tracked columns whose rent has
  reached the price, in the order of the sort; each is kept, forgotten or created; the
  first failing creation ends the pass with its error, and then the table has lost
  exactly the candidates handled before. Without an error the SPI variables, the
  connection stack and the snapshots are as before the pass.
\<close>

theorem advisor_pass_refines:
  fixes now :: TimestampTz and shmem :: "AutoIndexShmemHeader option" and st :: advisor_state
  assumes "wf_spi s" and "active_snapshots s = snap # rest" and "env_enc env \<noteq> C_I" and "countable_catalog snap"
  defines "st1 \<equiv> drained_table env now shmem st"
  shows "\<exists>shmem' st' res. autoindex_run_advisor env now shmem st s = (shmem', st', res) \<and>
    (if any_used st1 then
       advise env snap (sort_candidates (selected env snap st1 [0..<ADVISOR_HASH_SIZE])) st1 (current s) =
         (st', map_sum id current res) \<and>
       (\<forall>s'. res = Inr s' \<longrightarrow> spi_vars s' = spi_vars s \<and> active_snapshots s' = active_snapshots s \<and> wf_spi s')
     else st' = st1 \<and> res = Inr s)"
  unfolding st1_def using run_advisor_advises [OF assms(1-4)] by blast

lemma drain_records:
  assumes "wf_ring shm" and "list_all wf_entry (ring_items shm)" and "wf_table st"
  shows "\<exists>st' shm'. drain_ring_buffer (Some shm) st = (st', Some shm') \<and> wf_table st' \<and> ring_items shm' = [] \<and>
    wf_ring shm' \<and> lookup st' = fold (\<lambda>(a, k). record_use a k) (workload_ops (ring_items shm)) (lookup st)"
proof -
  let ?st = "fold (\<lambda>(a, k). accumulate_key a k) (workload_ops (ring_items shm)) st"
  have "fst (ring_drain drain_entry shm st) = ?st"
    by (simp add: ringq.drain_fold [OF assms(1)] drain_entries_ops [OF assms(2)])
  moreover have "wf_table ?st" by (rule table.wf_upd_all [OF assms(3)])
  ultimately show ?thesis
    using lookup_records [OF assms(3)] ringq.items_drain [OF assms(1), of drain_entry st]
      ringq.wf_drain [OF assms(1), of drain_entry st]
    by (auto simp: drain_ring_buffer_def case_prod_beta)
qed

lemma drain_lookup:
  assumes "wf_ring shm" and "list_all wf_entry (ring_items shm)" and "wf_table st"
    and "card (dom (lookup st) \<union> snd ` set (workload_ops (ring_items shm))) \<le> ADVISOR_HASH_SIZE"
  shows "\<exists>st' shm'. drain_ring_buffer (Some shm) st = (st', Some shm') \<and> wf_table st' \<and> ring_items shm' = [] \<and>
    wf_ring shm' \<and>
    (\<forall>key. lookup st' key =
       (if key \<in> dom (lookup st) \<union> snd ` set (workload_ops (ring_items shm))
        then Some (fold (\<lambda>ct. bump_stats (fst ct) (snd ct))
               (map fst (filter (\<lambda>op. snd op = key) (workload_ops (ring_items shm))))
               (case lookup st key of None \<Rightarrow> fresh_stats key | Some cs \<Rightarrow> cs))
        else None))"
proof -
  let ?ops = "workload_ops (ring_items shm)"
  let ?st = "fold (\<lambda>(a, k). accumulate_key a k) ?ops st"
  have "fst (ring_drain drain_entry shm st) = ?st"
    by (simp add: ringq.drain_fold [OF assms(1)] drain_entries_ops [OF assms(2)])
  moreover have "wf_table ?st" by (rule table.wf_upd_all [OF assms(3)])
  ultimately show ?thesis
    using table.look_upd_all [OF assms(3,4)] ringq.items_drain [OF assms(1), of drain_entry st]
      ringq.wf_drain [OF assms(1), of drain_entry st]
    by (auto simp: drain_ring_buffer_def case_prod_beta)
qed

text \<open>
  C6: Draining a well-formed ring into a well-formed table records the captured uses one
  after the other, in the order in which they were captured: a use adds its cost to the
  entry of its column and usage, which is created if there are fewer than 2048 entries; a
  use of a new column is dropped when the table is full. The ring is left empty. If the
  table has room for all the new columns, every column and usage gains exactly the uses
  that the captured entries record. A table is well formed if its entries can be found by
  probing, which removals do not preserve.
\<close>

theorem drain_accumulates:
  assumes "wf_ring shm" and "list_all wf_entry (ring_items shm)" and "wf_table st"
  shows "\<exists>st' shm'. drain_ring_buffer (Some shm) st = (st', Some shm') \<and> wf_table st' \<and> ring_items shm' = [] \<and>
    wf_ring shm' \<and>
    lookup st' = fold (\<lambda>((cost, ts), key) m.
        if key \<in> dom m \<or> card (dom m) < 2048
        then m(key \<mapsto> bump_stats cost ts (case m key of None \<Rightarrow> fresh_stats key | Some cs \<Rightarrow> cs))
        else m) (workload_ops (ring_items shm)) (lookup st) \<and>
    (card (dom (lookup st) \<union> snd ` set (workload_ops (ring_items shm))) \<le> 2048 \<longrightarrow>
     (\<forall>key. lookup st' key =
       (if key \<in> dom (lookup st) \<union> snd ` set (workload_ops (ring_items shm))
        then Some (fold (\<lambda>ct. bump_stats (fst ct) (snd ct))
               (map fst (filter (\<lambda>op. snd op = key) (workload_ops (ring_items shm))))
               (case lookup st key of None \<Rightarrow> fresh_stats key | Some cs \<Rightarrow> cs))
        else None)))"
proof -
  obtain st' shm' where run: "drain_ring_buffer (Some shm) st = (st', Some shm')" "wf_table st'" "ring_items shm' = []"
    "wf_ring shm'" "lookup st' = fold (\<lambda>(a, k). record_use a k) (workload_ops (ring_items shm)) (lookup st)"
    using drain_records [OF assms] by blast
  have rec: "(\<lambda>(a, k). record_use a k) = (\<lambda>((cost, ts), key) m.
      if key \<in> dom m \<or> card (dom m) < 2048
      then m(key \<mapsto> bump_stats cost ts (case m key of None \<Rightarrow> fresh_stats key | Some cs \<Rightarrow> cs)) else m)"
    by (auto simp: fun_eq_iff record_use_def ADVISOR_HASH_SIZE_def)
  show ?thesis
    using run drain_lookup [OF assms] unfolding rec ADVISOR_HASH_SIZE_def
    by (intro exI [of _ st'] exI [of _ shm']) auto
qed

text \<open>
  C7: The candidates of a pass are exactly the tracked predicate and join columns with
  a user column number, at least the configured number of executions, and a rent that has
  reached the price of the index in the snapshot of the pass, in the order of the slots.
  They fit the array of 2048 candidates, and no price is below 100. The exchange sort
  permutes them into descending order of rent.
\<close>

theorem candidates_are_ski_rental:
  assumes "spi_ready snap s"
  shows "\<exists>s' cands. evaluate_slots env st [0..<ADVISOR_HASH_SIZE] [] s = Inr (cands, s') \<and> core s' = core s \<and>
    cands = map (\<lambda>i. let cs = hash_slots st i; key = cs_key cs in
          \<lparr>cand_relid = key_relid key, cand_attnum = key_attnum key, cand_usage = key_usage key,
           cand_exec_count = exec_count cs, cand_rent = cumulative_rent cs,
           cand_c_buy = index_price env snap (key_relid key)\<rparr>)
        (filter (\<lambda>i. let cs = hash_slots st i; key = cs_key cs in
            hash_used st i \<and> (key_usage key = USAGE_PREDICATE \<or> key_usage key = USAGE_JOIN) \<and>
            0 < sint (key_attnum key) \<and> sint (autoindex_min_exec_freq (env_gucs env)) \<le> sint (exec_count cs) \<and>
            index_price env snap (key_relid key) \<le> cumulative_rent cs) [0..<ADVISOR_HASH_SIZE]) \<and>
    length cands \<le> 2048 \<and> (\<forall>c \<in> set cands. 100 \<le> cand_c_buy c \<and> cand_c_buy c \<le> cand_rent c) \<and>
    mset (sort_candidates cands) = mset cands \<and>
    sorted_wrt (\<lambda>c d. cand_rent d \<le> cand_rent c) (sort_candidates cands)"
proof -
  let ?cands = "selected env snap st [0..<ADVISOR_HASH_SIZE]"
  have "length ?cands \<le> length [0..<ADVISOR_HASH_SIZE]"
    unfolding selected_def length_map by (rule length_filter_le)
  then have "length ?cands \<le> 2048" by (simp add: ADVISOR_HASH_SIZE_def)
  moreover have "100 \<le> cand_c_buy c \<and> cand_c_buy c \<le> cand_rent c" if "c \<in> set ?cands" for c
    using that by (auto simp: selected_def make_candidate_def snapshot_cost_price index_price_def Let_def case_prod_beta)
  moreover obtain s' where "evaluate_slots env st [0..<ADVISOR_HASH_SIZE] [] s = Inr (?cands, s')" "core s' = core s"
    using evaluate_snapshot [OF assms, of env st "[0..<ADVISOR_HASH_SIZE]" "[]"] by auto
  ultimately show ?thesis
    using sort_candidates_correct [of ?cands] by (intro exI [of _ s'] exI [of _ ?cands]) (simp add: selected_columns)
qed

text \<open>
  C39: A candidate on a column without a row in the catalogs, as after its table was
  dropped, raises an error in the name lookup before the test for a missing name: the
  pass ends, no later candidate is handled, and the candidate stays in the table, so that
  the next pass fails in the same way. A column that was dropped while its table stays
  keeps its row and is not such a column.
\<close>

theorem dropped_table_blocks_pass:
  assumes "spi_ready snap s" and "env_enc env \<noteq> C_I" and "countable_catalog snap"
    and "decision env snap c = Create"
    and "SearchSysCache_ATTNUM (cand_relid c) (cand_attnum c) (current s) = None"
  shows "\<exists>msg. process_candidates env (c # cands) st s = (st, Inl (PgError msg))"
proof -
  have "create_effect env c (current s) = Inl (PgError (''cache lookup failed for attribute '' @
      sdec (sint (cand_attnum c)) @ '' of relation '' @ dec (unat (cand_relid c))))"
    using assms(5) by (simp add: create_effect_def get_attname_def)
  moreover obtain st' res where "process_candidates env (c # cands) st s = (st', res)"
    "advise env snap (c # cands) st (current s) = (st', map_sum id current res)"
    using process_advises [OF assms(1-3)] by blast
  ultimately show ?thesis using assms(4) by (cases res) auto
qed

subsection \<open>A small database\<close>

text \<open>One table with two columns, and a parser that knows the two commands for it.\<close>

definition sample_catalog :: catalog where
  "sample_catalog = \<lparr>
     pg_class = [\<lparr>class_oid = 16384, class_relname = ''t'', class_relnamespace = 2200,
                  class_reltuples = 10, class_relpages = 1\<rparr>],
     pg_index = [],
     pg_attribute = [\<lparr>att_attrelid = 16384, att_attname = ''a'', att_attnum = 1\<rparr>,
                     \<lparr>att_attrelid = 16384, att_attname = ''b'', att_attnum = 2\<rparr>],
     pg_namespace = [\<lparr>nsp_oid = 2200, nsp_nspname = ''public''\<rparr>],
     pg_stat_user_indexes = []\<rparr>"

definition add_index :: "Oid \<Rightarrow> string \<Rightarrow> string \<Rightarrow> catalog \<Rightarrow> (row list option \<times> catalog) result" where
  "add_index oid name col cat = Inr (None, cat
     \<lparr>pg_class := pg_class cat @ [\<lparr>class_oid = oid, class_relname = name, class_relnamespace = 2200,
                                   class_reltuples = 10, class_relpages = 1\<rparr>],
      pg_index := pg_index cat @ [\<lparr>index_indexrelid = oid, index_indrelid = 16384\<rparr>],
      pg_attribute := pg_attribute cat @ [\<lparr>att_attrelid = oid, att_attname = col, att_attnum = 1\<rparr>]\<rparr>)"

definition sample_parse :: "string \<Rightarrow> catalog stmt list result" where
  "sample_parse src =
     (if src = ''CREATE INDEX IF NOT EXISTS autoindex_t_a ON t (a)''
      then Inr [UtilityStmt (add_index 16400 ''autoindex_t_a'' ''a'')]
      else if src = ''CREATE INDEX IF NOT EXISTS autoindex_t_b ON t (b)''
      then Inr [UtilityStmt (add_index 16401 ''autoindex_t_b'' ''b'')]
      else Inl (PgError ''syntax error''))"

definition sample_env :: advisor_env where
  "sample_env = \<lparr>env_gucs = initial_gucs\<lparr>autoindex_max_indexes_per_table := 1, autoindex_min_exec_freq := 1\<rparr>,
     seq_page_cost = 1, cpu_operator_cost = 0, env_enc = SB, quote_all_identifiers = False,
     env_kw_hash = (\<lambda>_. - 1), env_float4out = (\<lambda>_. ''10''), env_log = (\<lambda>x. x - 1),
     env_parse = sample_parse\<rparr>"

definition sample_candidate :: "int16 \<Rightarrow> IndexCandidate" where
  "sample_candidate attno = \<lparr>cand_relid = 16384, cand_attnum = attno, cand_usage = USAGE_PREDICATE,
     cand_exec_count = 5, cand_rent = 500, cand_c_buy = 100\<rparr>"

definition sample_session :: "catalog session" where
  "sample_session = (start_session sample_catalog)
     \<lparr>spi_stack := [\<lparr>outer_processed = 0, outer_tuptable = None, outer_result = 0\<rparr>], spi_stack_depth := 16\<rparr>"

lemma sample_ready: "spi_ready sample_catalog sample_session"
  by (simp add: spi_ready_def sample_session_def start_session_def)

lemma sample_auto_indexes: "auto_indexes relid sample_catalog = []"
  by (simp add: auto_indexes_def sample_catalog_def)

lemma sample_countable: "countable_catalog sample_catalog"
  by (simp add: countable_catalog_def sample_auto_indexes)

lemma sample_enc: "env_enc sample_env \<noteq> C_I"
  by (simp add: sample_env_def)

lemma sample_decision: "decision sample_env sample_catalog c = Create"
  by (simp add: decision_def sample_auto_indexes indexed_column_def sample_env_def)
    (simp add: sample_catalog_def)

lemma sample_quote: "quote_identifier (\<lambda>_. - 1) False ''t'' = ''t''" "quote_identifier (\<lambda>_. - 1) False ''a'' = ''a''"
  "quote_identifier (\<lambda>_. - 1) False ''b'' = ''b''"
  by (simp_all add: quote_identifier_def safe_chars_def ScanKeywordLookup_def lower_letter_def char_code_def Let_def)

definition catalog_a :: catalog where
  "catalog_a = snd (projr (add_index 16400 ''autoindex_t_a'' ''a'' sample_catalog))"

definition catalog_ab :: catalog where
  "catalog_ab = snd (projr (add_index 16401 ''autoindex_t_b'' ''b'' catalog_a))"

lemma sample_effects:
  "create_effect sample_env (sample_candidate 1) sample_catalog = Inr catalog_a"
  "create_effect sample_env (sample_candidate 2) catalog_a = Inr catalog_ab"
  by (simp_all add: create_effect_def sample_candidate_def get_attname_def get_rel_name_def SearchSysCache_ATTNUM_def
      SearchSysCache_RELOID_def sample_env_def create_index_command_def sample_quote sample_parse_def
      catalog_ab_def catalog_a_def add_index_def sample_catalog_def)

text \<open>
  C40: The cap on the indexes of a table is compared with the number of indexes in the
  snapshot of the pass, in which the indexes created earlier in the pass are not yet
  visible: with a cap of one, a table without indexes gets two in one pass.
\<close>

theorem cap_not_enforced_within_pass:
  "\<exists>st' s'. process_candidates sample_env [sample_candidate 1, sample_candidate 2] st sample_session = (st', Inr s') \<and>
     sint (autoindex_max_indexes_per_table (env_gucs sample_env)) = 1 \<and>
     length (auto_indexes 16384 (current s')) = 2"
proof -
  have cur: "current sample_session = sample_catalog" by (simp add: sample_session_def start_session_def)
  obtain st' res where p: "process_candidates sample_env [sample_candidate 1, sample_candidate 2] st sample_session = (st', res)"
    "advise sample_env sample_catalog [sample_candidate 1, sample_candidate 2] st sample_catalog =
      (st', map_sum id current res)"
    using process_advises [OF sample_ready sample_enc sample_countable, of "[sample_candidate 1, sample_candidate 2]" st]
    unfolding cur by blast
  then obtain s' where "res = Inr s'" "current s' = catalog_ab"
    by (cases res) (simp_all add: sample_decision sample_effects)
  moreover have "length (auto_indexes 16384 catalog_ab) = 2"
    by (simp add: auto_indexes_def catalog_ab_def catalog_a_def add_index_def sample_catalog_def auto_name_def)
  moreover have "sint (autoindex_max_indexes_per_table (env_gucs sample_env)) = 1" by (simp add: sample_env_def)
  ultimately show ?thesis using p(1) by auto
qed

text \<open>A candidate on a table that is not in the catalogs any more.\<close>

definition dropped_candidate :: IndexCandidate where
  "dropped_candidate = (sample_candidate 1)\<lparr>cand_relid := 16500, cand_rent := 400\<rparr>"

theorem dropped_table_blocks_pass_witness:
  "\<exists>msg. process_candidates sample_env [dropped_candidate, sample_candidate 1] advisor_init sample_session =
     (advisor_init, Inl (PgError msg))"
proof -
  have "SearchSysCache_ATTNUM (cand_relid dropped_candidate) (cand_attnum dropped_candidate)
      (current sample_session) = None"
    by (simp add: SearchSysCache_ATTNUM_def dropped_candidate_def sample_candidate_def sample_session_def
        start_session_def sample_catalog_def)
  from dropped_table_blocks_pass [OF sample_ready sample_enc sample_countable sample_decision this] show ?thesis .
qed

text \<open>A table that tracks one column with enough rent, and its pass.\<close>

definition sample_key :: ColStatsKey where
  "sample_key = \<lparr>key_relid = 16384, key_attnum = 1, key_usage = USAGE_PREDICATE\<rparr>"

definition sample_table :: advisor_state where
  "sample_table = put_slot (key_hash sample_key)
     \<lparr>cs_key = sample_key, exec_count = 5, cumulative_rent = 500, last_seen = 0\<rparr> advisor_init"

lemma filter_upt_eq: "k < n \<Longrightarrow> filter (\<lambda>i. i = k) [0..<n] = [k]"
  by (induction n) (auto simp: less_Suc_eq filter_empty_conv)

lemma sample_selected:
  "selected sample_env sample_catalog sample_table [0..<ADVISOR_HASH_SIZE] =
     [make_candidate (hash_slots sample_table (key_hash sample_key)) 100]"
proof -
  let ?i = "key_hash sample_key"
  have freq: "autoindex_min_exec_freq (env_gucs sample_env) = 1" by (simp add: sample_env_def)
  have cost: "snapshot_cost sample_env sample_catalog 16384 = 100"
    by (simp add: snapshot_cost_def SearchSysCache_RELOID_def sample_catalog_def build_cost_def sample_env_def Let_def)
  have "filter (\<lambda>i. hash_used sample_table i \<and> worth_estimating (env_gucs sample_env) (hash_slots sample_table i) \<and>
      snapshot_cost sample_env sample_catalog (key_relid (cs_key (hash_slots sample_table i))) \<le>
        cumulative_rent (hash_slots sample_table i)) [0..<ADVISOR_HASH_SIZE] = filter (\<lambda>i. i = ?i) [0..<ADVISOR_HASH_SIZE]"
    by (rule filter_cong) (auto simp: sample_table_def put_slot_def advisor_init_def worth_estimating_def sample_key_def
        freq cost)
  moreover have "filter (\<lambda>i. i = ?i) [0..<ADVISOR_HASH_SIZE] = [?i]"
    using key_hash_bound by (rule filter_upt_eq)
  ultimately show ?thesis
    by (simp add: selected_def cost sample_table_def put_slot_def sample_key_def)
qed

theorem candidates_are_ski_rental_witness:
  "\<exists>s'. evaluate_slots sample_env sample_table [0..<ADVISOR_HASH_SIZE] [] sample_session = Inr ([sample_candidate 1], s') \<and>
     core s' = core sample_session"
proof -
  have "make_candidate (hash_slots sample_table (key_hash sample_key)) 100 = sample_candidate 1"
    by (simp add: make_candidate_def sample_table_def put_slot_def sample_key_def sample_candidate_def)
  with candidates_are_ski_rental [OF sample_ready, of sample_env sample_table] show ?thesis
    unfolding selected_columns [symmetric] sample_selected by auto
qed

lemma sample_drained: "drained_table sample_env 0 None sample_table = sample_table"
proof -
  have stale: "\<not> evicts 0 age sample_table i" for age i
    by (auto simp: evicts_def is_stale_def sample_table_def put_slot_def advisor_init_def)
  show ?thesis by (simp add: drained_table_def drain_ring_buffer_def evict_stale_spec Let_def stale)
qed

theorem advisor_pass_refines_witness:
  "\<exists>shmem' st' s'. autoindex_run_advisor sample_env 0 None sample_table (start_session sample_catalog) =
     (shmem', st', Inr s') \<and> current s' = catalog_a \<and> spi_vars s' = spi_vars (start_session sample_catalog)"
proof -
  have used: "any_used sample_table"
    using key_hash_bound [of sample_key]
    by (auto simp: any_used_def list_ex_iff sample_table_def put_slot_def)
  have snap: "active_snapshots (start_session sample_catalog) = sample_catalog # []"
    "current (start_session sample_catalog) = sample_catalog" by (simp_all add: start_session_def)
  let ?c = "make_candidate (hash_slots sample_table (key_hash sample_key)) 100"
  have c: "?c = sample_candidate 1"
    by (simp add: make_candidate_def sample_table_def put_slot_def sample_key_def sample_candidate_def)
  have adv: "advise sample_env sample_catalog (sort_candidates [?c]) sample_table sample_catalog =
      (remove_column (sample_candidate 1) sample_table, Inr catalog_a)"
    by (simp add: sort_candidates_def c sample_decision sample_effects)
  obtain shmem' st' res where
    run: "autoindex_run_advisor sample_env 0 None sample_table (start_session sample_catalog) = (shmem', st', res)"
    and res: "(st', map_sum id current res) = (remove_column (sample_candidate 1) sample_table, Inr catalog_a)"
    and vars: "\<forall>s'. res = Inr s' \<longrightarrow> spi_vars s' = spi_vars (start_session sample_catalog)"
    using advisor_pass_refines [OF wf_start_session snap(1) sample_enc sample_countable, of 0 None sample_table] used adv
    unfolding sample_drained snap(2) sample_selected by auto
  from res obtain s' where "res = Inr s'" "current s' = catalog_a" by (cases res) auto
  with run vars show ?thesis by blast
qed

text \<open>An entry that records one use of one column, in the ring and then in the table.\<close>

definition sample_entry :: WorkloadEntry where
  "sample_entry = zero_entry\<lparr>pred_relids := 16384 # replicate 15 0, pred_attnums := 1 # replicate 15 0,
     n_pred := 1, plan_cost := 42, entry_ts := 7\<rparr>"

lemma sample_ring:
  "wf_ring (push_once sample_entry autoindex_shmem_init)"
  "ring_items (push_once sample_entry autoindex_shmem_init) = [sample_entry]"
proof -
  have "wf_ring autoindex_shmem_init" "ring_items autoindex_shmem_init = []"
    by (simp_all add: wf_ring_def ring_items_def ring_count_def autoindex_shmem_init_def Let_def)
  then show "wf_ring (push_once sample_entry autoindex_shmem_init)"
    "ring_items (push_once sample_entry autoindex_shmem_init) = [sample_entry]"
    by (simp_all add: wf_push_once ring_items_push_once)
qed

lemma sample_ops: "workload_ops [sample_entry] = [((42, 7), sample_key)]"
  by (simp add: workload_ops_def entry_ops_def sample_entry_def zero_entry_def pred_cols_def join_cols_def sort_cols_def
      column_key_def sample_key_def)

theorem drain_accumulates_witness:
  "\<exists>st' shm'. drain_ring_buffer (Some (push_once sample_entry autoindex_shmem_init)) advisor_init = (st', Some shm') \<and>
     ring_items shm' = [] \<and> lookup st' sample_key = Some (bump_stats 42 7 (fresh_stats sample_key))"
proof -
  have "list_all wf_entry (ring_items (push_once sample_entry autoindex_shmem_init))"
    unfolding sample_ring(2) by (simp add: sample_entry_def wf_entry_def zero_entry_def limits)
  from drain_accumulates [OF sample_ring(1) this wf_advisor_init] show ?thesis
    by (fastforce simp: sample_ring sample_ops lookup_init)
qed

end
