(* ===== verification/Lifecycle.thy ===== *)
theory Lifecycle
  imports Advisor
begin

section \<open>The lifecycle pass (index_lifecycle.c)\<close>

text \<open>
  The pass that drops unused indexes: the query for indexes of AutoIndex without scans,
  and the loop over its result. The loop reads \<open>SPI_processed\<close> and \<open>SPI_tuptable\<close> anew
  in every turn, and the \<open>DROP INDEX\<close> of a turn overwrites both. Whether the loop ends
  depends on what the commands leave there, so it is a partial function.
\<close>

subsection \<open>The pass\<close>

fun DatumGetObjectId :: "datum \<Rightarrow> Oid" where
  "DatumGetObjectId (OidD v) = v"
| "DatumGetObjectId _ = 0"

partial_function (option) drop_loop ::
  "advisor_env \<Rightarrow> nat \<Rightarrow> catalog session \<Rightarrow> catalog session result option" where
  "drop_loop env i s =
     (if i < SPI_processed s then
        let tuple = the (SPI_tuptable s) ! i;
            (idxname, s) = SPI_getvalue (env_float4out env) tuple 1 s;
            (nspname, s) = SPI_getvalue (env_float4out env) tuple 2 s
        in if idxname = None \<or> nspname = None then drop_loop env (i + 1) s
           else
             let (d, isnull, s) = SPI_getbinval tuple 3 s in
             if \<not> isnull \<and> DatumGetObjectId d < FirstNormalObjectId then drop_loop env (i + 1) s
             else
               (case SPI_execute
                       (env_parse env (drop_index_command (env_kw_hash env) (quote_all_identifiers env)
                          (the nspname) (the idxname)))
                       False 0 s of
                  Inl e \<Rightarrow> Some (Inl e)
                | Inr (ret, s) \<Rightarrow> drop_loop env (i + 1) s)
      else Some (Inr s))"

definition autoindex_run_lifecycle ::
  "advisor_env \<Rightarrow> catalog session \<Rightarrow> catalog session result option" where
  "autoindex_run_lifecycle env s =
     (case SPI_connect s of
        Inl e \<Rightarrow> Some (Inl e)
      | Inr (ret, s) \<Rightarrow>
          if ret \<noteq> SPI_OK_CONNECT then Some (Inr s)
          else
            (case SPI_execute (Inr [SelectStmt (unused_query (env_enc env))]) True 0 s of
               Inl e \<Rightarrow> Some (Inl e)
             | Inr (ret, s) \<Rightarrow>
                 if ret \<noteq> SPI_OK_SELECT then Some (Inr (snd (SPI_finish s)))
                 else
                   map_option (map_sum id (\<lambda>s. snd (SPI_finish s))) (drop_loop env 0 s)))"

subsection \<open>What the loop does\<close>

text \<open>The unused indexes of the snapshot: name, schema and the indexed relation.\<close>

definition unused_indexes :: "catalog \<Rightarrow> (string \<times> string \<times> Oid \<times> datum) list" where
  "unused_indexes snap =
     [(class_relname c, nsp_nspname n, index_indrelid i,
       case s of None \<Rightarrow> NULL | Some s \<Rightarrow> Int8D (stat_idx_scan s)).
        (c, i, n, s) \<leftarrow> auto_joined snap, coalesce (map_option stat_idx_scan s) 0 = 0]"

definition unused_row :: "string \<times> string \<times> Oid \<times> datum \<Rightarrow> row" where
  "unused_row = (\<lambda>(idx, nsp, rel, scans). [NameD idx, NameD nsp, OidD rel, scans])"

lemma unused_query_rows:
  assumes "enc \<noteq> C_I"
  shows "unused_query enc snap = Inr (map unused_row (unused_indexes snap))"
proof -
  have "[[NameD (class_relname c), NameD (nsp_nspname n), OidD (index_indrelid i),
      (case s of None \<Rightarrow> NULL | Some s \<Rightarrow> Int8D (stat_idx_scan s))].
       (c, i, n, s) \<leftarrow> js, coalesce (map_option stat_idx_scan s) 0 = 0] =
    map unused_row [(class_relname c, nsp_nspname n, index_indrelid i,
       case s of None \<Rightarrow> NULL | Some s \<Rightarrow> Int8D (stat_idx_scan s)).
        (c, i, n, s) \<leftarrow> js, coalesce (map_option stat_idx_scan s) 0 = 0]" for js
    by (induction js) (auto simp: unused_row_def)
  then show ?thesis unfolding unused_query_eq [OF assms] unused_indexes_def by blast
qed

text \<open>The table of a droppable index is not a system table.\<close>

definition droppable :: "string \<times> string \<times> Oid \<times> datum \<Rightarrow> bool" where
  "droppable = (\<lambda>(idx, nsp, rel, scans). \<not> rel < FirstNormalObjectId)"

text \<open>
  What the pass relies on in the database system: the \<open>DROP INDEX\<close> text is one utility
  command, and that command returns no rows.
\<close>

definition drop_command_alone ::
  "advisor_env \<Rightarrow> (string \<Rightarrow> string \<Rightarrow> catalog \<Rightarrow> catalog result) \<Rightarrow> string \<Rightarrow> string \<Rightarrow> bool" where
  "drop_command_alone env drp nsp idx \<longleftrightarrow>
     env_parse env (drop_index_command (env_kw_hash env) (quote_all_identifiers env) nsp idx) =
       Inr [UtilityStmt (\<lambda>cat. bind_res (drp nsp idx cat) (\<lambda>cat'. Inr (None, cat')))]"

lemma drop_loop_skip:
  assumes "i < SPI_processed s" and "SPI_tuptable s = Some (map unused_row rows)" and "i < length rows"
    and "\<not> droppable (rows ! i)"
  shows "drop_loop env i s = drop_loop env (i + 1) (s\<lparr>SPI_result := 0\<rparr>)"
  using assms
  by (subst drop_loop.simps)
    (simp add: SPI_getvalue_def SPI_getbinval_def unused_row_def droppable_def split: prod.splits)

lemma drop_loop_drop:
  assumes "i < SPI_processed s" and "SPI_tuptable s = Some (map unused_row rows)" and "i < length rows"
    and "rows ! i = (idx, nsp, rel, scans)" and "droppable (rows ! i)"
    and "spi_ready snap s" and "drop_command_alone env drp nsp idx"
  shows "drop_loop env i s = Some (map_sum id
    (\<lambda>cat'. s\<lparr>current := cat', SPI_processed := 0, SPI_tuptable := None, SPI_result := 0\<rparr>) (drp nsp idx (current s)))"
proof -
  let ?s = "s\<lparr>SPI_result := 0\<rparr>"
  have ready: "spi_stack ?s \<noteq> []" "active_snapshots ?s \<noteq> []" using assms(6) by (auto simp: spi_ready_def)
  have stop: "drop_loop env j (t\<lparr>SPI_processed := 0, SPI_tuptable := None\<rparr>) =
      Some (Inr (t\<lparr>SPI_processed := 0, SPI_tuptable := None\<rparr>))" for j t
    by (subst drop_loop.simps) simp
  note exec = SPI_execute_utility [OF ready, of 0 "\<lambda>cat. bind_res (drp nsp idx cat) (\<lambda>cat'. Inr (None, cat'))"]
  show ?thesis
    using assms(1-5,7) exec stop
    by (subst drop_loop.simps, cases "drp nsp idx (current s)")
      (auto simp: SPI_getvalue_def SPI_getbinval_def unused_row_def droppable_def drop_command_alone_def)
qed

text \<open>From any row on, the loop drops the next droppable index and stops.\<close>

definition drop_first ::
  "(string \<Rightarrow> string \<Rightarrow> catalog \<Rightarrow> catalog result) \<Rightarrow> (string \<times> string \<times> Oid \<times> datum) list \<Rightarrow>
   catalog \<Rightarrow> catalog result" where
  "drop_first drp rows cat =
     (case List.find droppable rows of None \<Rightarrow> Inr cat | Some (idx, nsp, _, _) \<Rightarrow> drp nsp idx cat)"

lemma drop_loop_first:
  assumes "SPI_processed s = length rows" and "SPI_tuptable s = Some (map unused_row rows)"
    and "spi_ready snap s" and "\<forall>(idx, nsp, rel, scans) \<in> set rows. drop_command_alone env drp nsp idx"
    and "i \<le> length rows"
  shows "\<exists>res. drop_loop env i s = Some res \<and> map_sum id current res = drop_first drp (drop i rows) (current s) \<and>
    (\<forall>s'. res = Inr s' \<longrightarrow> frame s' = frame s)"
  using assms
proof (induction "length rows - i" arbitrary: i s)
  case 0
  then show ?case by (subst drop_loop.simps) (simp add: drop_first_def)
next
  case (Suc n)
  then have i: "i < length rows" "i < SPI_processed s" by auto
  have drop: "drop i rows = rows ! i # drop (i + 1) rows" using i by (simp add: Cons_nth_drop_Suc)
  show ?case
  proof (cases "droppable (rows ! i)")
    case True
    obtain idx nsp rel scans where r: "rows ! i = (idx, nsp, rel, scans)" by (metis prod_cases4)
    then have "(idx, nsp, rel, scans) \<in> set rows" using i by (metis nth_mem)
    then have "drop_command_alone env drp nsp idx" using Suc.prems(4) by fastforce
    from drop_loop_drop [OF i(2) Suc.prems(2) i(1) r True Suc.prems(3) this] r True drop show ?thesis
      by (cases "drp nsp idx (current s)") (auto simp: drop_first_def frame_def)
  next
    case False
    let ?s = "s\<lparr>SPI_result := 0\<rparr>"
    have "\<exists>res. drop_loop env (i + 1) ?s = Some res \<and>
        map_sum id current res = drop_first drp (drop (i + 1) rows) (current ?s) \<and>
        (\<forall>s'. res = Inr s' \<longrightarrow> frame s' = frame ?s)"
      using Suc.prems Suc.hyps(2) i by (intro Suc.hyps(1)) (auto simp: spi_ready_def)
    with drop_loop_skip [OF i(2) Suc.prems(2) i(1) False, of env] False show ?thesis
      unfolding drop by (auto simp: drop_first_def frame_def)
  qed
qed

lemma run_lifecycle_drops:
  assumes "wf_spi s" and "active_snapshots s = snap # rest" and "env_enc env \<noteq> C_I"
    and "\<forall>(idx, nsp, rel, scans) \<in> set (unused_indexes snap). drop_command_alone env drp nsp idx"
  shows "\<exists>res. autoindex_run_lifecycle env s = Some res \<and>
    map_sum id current res = drop_first drp (unused_indexes snap) (current s) \<and>
    (\<forall>s'. res = Inr s' \<longrightarrow> spi_vars s' = spi_vars s \<and> active_snapshots s' = active_snapshots s \<and> wf_spi s')"
proof -
  let ?rows = "unused_indexes snap"
  obtain s1 where s1: "SPI_connect s = Inr (SPI_OK_CONNECT, s1)" "spi_ready snap s1" "current s1 = current s"
    and fin: "\<And>t. frame t = frame s1 \<Longrightarrow> spi_vars (snd (SPI_finish t)) = spi_vars s \<and>
        active_snapshots (snd (SPI_finish t)) = active_snapshots s \<and> current (snd (SPI_finish t)) = current t \<and>
        wf_spi (snd (SPI_finish t))"
    using spi_ready_connect [OF assms(1,2)] by metis
  let ?s2 = "s1\<lparr>SPI_processed := length ?rows, SPI_tuptable := Some (map unused_row ?rows)\<rparr>"
  have select: "SPI_execute (Inr [SelectStmt (unused_query (env_enc env))]) True 0 s1 = Inr (SPI_OK_SELECT, ?s2)"
    using s1(2) SPI_execute_select [of s1 snap _ 0 "unused_query (env_enc env)", OF _ _ _ unused_query_rows [OF assms(3)]]
    by (auto simp: spi_ready_def row_limit_def)
  have "spi_ready snap ?s2" using s1(2) by (simp add: spi_ready_def)
  from drop_loop_first [OF _ _ this assms(4), of 0] obtain res where
    res: "drop_loop env 0 ?s2 = Some res" "map_sum id current res = drop_first drp ?rows (current s)"
      "\<forall>s'. res = Inr s' \<longrightarrow> frame s' = frame s1"
    using s1(3) by (auto simp: frame_def)
  have "autoindex_run_lifecycle env s = Some (map_sum id (\<lambda>s. snd (SPI_finish s)) res)"
    using s1(1) select res(1) by (simp add: autoindex_run_lifecycle_def)
  moreover have "map_sum id current (map_sum id (\<lambda>s. snd (SPI_finish s)) res) = map_sum id current res"
    using res(3) fin by (cases res) auto
  ultimately show ?thesis using res fin by (cases res) auto
qed

subsection \<open>Properties\<close>

text \<open>
  C13: The lifecycle pass returns, and it drops the first unused index in the result of
  its query whose table is not a system table, and no other: the drop resets the result
  variables over which the loop runs. When the drop fails the pass fails. Otherwise the
  SPI variables, the connection stack and the snapshots are as before. The configured
  number of idle days has no influence.
\<close>

theorem lifecycle_drops_one:
  assumes "wf_spi s" and "active_snapshots s = snap # rest" and "env_enc env \<noteq> C_I"
    and "\<forall>(idx, nsp, rel, scans) \<in> set (unused_indexes snap). drop_command_alone env drp nsp idx"
  shows "\<exists>res. autoindex_run_lifecycle env s = Some res \<and>
    map_sum id current res = drop_first drp (unused_indexes snap) (current s) \<and>
    (\<forall>s'. res = Inr s' \<longrightarrow> spi_vars s' = spi_vars s \<and> active_snapshots s' = active_snapshots s \<and> wf_spi s')"
  using assms by (rule run_lifecycle_drops)

text \<open>Two unused indexes in a small database, and a parser for the two commands.\<close>

definition drop_index :: "string \<Rightarrow> string \<Rightarrow> catalog \<Rightarrow> catalog result" where
  "drop_index nsp idx cat = Inr (cat\<lparr>pg_class := filter (\<lambda>c. class_relname c \<noteq> idx) (pg_class cat)\<rparr>)"

definition sample_drop :: "string \<Rightarrow> catalog stmt list result" where
  "sample_drop src =
     (if src = ''DROP INDEX IF EXISTS public.autoindex_t_a''
      then Inr [UtilityStmt (\<lambda>cat. bind_res (drop_index ''public'' ''autoindex_t_a'' cat) (\<lambda>cat'. Inr (None, cat')))]
      else if src = ''DROP INDEX IF EXISTS public.autoindex_t_b''
      then Inr [UtilityStmt (\<lambda>cat. bind_res (drop_index ''public'' ''autoindex_t_b'' cat) (\<lambda>cat'. Inr (None, cat')))]
      else Inl (PgError ''syntax error''))"

definition lifecycle_env :: advisor_env where
  "lifecycle_env = sample_env\<lparr>env_parse := sample_drop\<rparr>"

lemma sample_unused:
  "unused_indexes catalog_ab = [(''autoindex_t_a'', ''public'', 16384, NULL), (''autoindex_t_b'', ''public'', 16384, NULL)]"
  by (simp add: unused_indexes_def auto_joined_def catalog_ab_def catalog_a_def add_index_def sample_catalog_def
      auto_name_def left_join_def coalesce_def)

lemma sample_drop_alone:
  "drop_command_alone lifecycle_env drop_index ''public'' ''autoindex_t_a''"
  "drop_command_alone lifecycle_env drop_index ''public'' ''autoindex_t_b''"
  by (simp_all add: drop_command_alone_def lifecycle_env_def sample_env_def drop_index_command_def sample_drop_def
      quote_identifier_def safe_chars_def ScanKeywordLookup_def lower_letter_def digit_def char_code_def Let_def)

theorem lifecycle_drops_one_witness:
  "\<exists>s'. autoindex_run_lifecycle lifecycle_env (start_session catalog_ab) = Some (Inr s') \<and>
     map class_relname (pg_class (current s')) = [''t'', ''autoindex_t_b'']"
proof -
  have snap: "active_snapshots (start_session catalog_ab) = catalog_ab # []"
    "current (start_session catalog_ab) = catalog_ab" by (simp_all add: start_session_def)
  have enc: "env_enc lifecycle_env \<noteq> C_I" by (simp add: lifecycle_env_def sample_env_def)
  have "\<forall>(idx, nsp, rel, scans) \<in> set (unused_indexes catalog_ab). drop_command_alone lifecycle_env drop_index nsp idx"
    by (simp add: sample_unused sample_drop_alone)
  from lifecycle_drops_one [OF wf_start_session snap(1) enc this] obtain res where
    res: "autoindex_run_lifecycle lifecycle_env (start_session catalog_ab) = Some res"
      "map_sum id current res = drop_first drop_index (unused_indexes catalog_ab) catalog_ab"
    unfolding snap(2) by blast
  then obtain s' where "res = Inr s'"
    "current s' = catalog_ab\<lparr>pg_class := filter (\<lambda>c. class_relname c \<noteq> ''autoindex_t_a'') (pg_class catalog_ab)\<rparr>"
    by (cases res) (auto simp: sample_unused drop_first_def droppable_def FirstNormalObjectId_def drop_index_def)
  moreover have "map class_relname (filter (\<lambda>c. class_relname c \<noteq> ''autoindex_t_a'') (pg_class catalog_ab)) =
      [''t'', ''autoindex_t_b'']"
    by (simp add: catalog_ab_def catalog_a_def add_index_def sample_catalog_def)
  ultimately show ?thesis using res(1) by auto
qed

end
