(* ===== verification/Worker.thy ===== *)
theory Worker
  imports Lifecycle
begin

section \<open>The background worker (autoindex.c)\<close>

text \<open>
  The main loop of the AutoIndex worker: its signal handlers, the schedule of the two
  passes, the transaction around each pass with the error path, and how the process
  can end. One turn of the loop is a function of what happens around it: the signals
  that arrive, the entries that other backends capture and the changes they commit to the
  catalogs, the configuration it reads on a reload, the errors that are raised outside of
  the passes, and the clock. A run is a list of such turns.

  What happens around the loop is attributed to its wait. A request to terminate or to
  cancel that arrives during a pass is one that arrives in the wait before and is seen by
  the check that the pass reaches; a query captured during a pass is in the ring at the next
  wait. A commit of another backend in the middle of a pass, a \<open>SIGQUIT\<close> there, and an error
  in the start of a transaction are not modelled.
\<close>

subsection \<open>Time\<close>

definition TimestampDifferenceExceeds :: "TimestampTz \<Rightarrow> TimestampTz \<Rightarrow> int32 \<Rightarrow> bool" where
  "TimestampDifferenceExceeds start_time stop_time msec =
     (let diff = stop_time - start_time in sint (scast msec * 1000 :: int64) \<le> sint diff)"

subsection \<open>State and signals\<close>

text \<open>
  The worker's statics and local variables, its session, and the flags that signal
  handlers set. Outside a pass the session has no snapshot, no SPI connection and no
  transaction, and \<^const>\<open>current\<close> is what is committed.
\<close>

record worker =
  wk_shmem :: "AutoIndexShmemHeader option"
  wk_table :: advisor_state
  wk_session :: "catalog session"
  wk_gucs :: gucs
  last_advisor_run :: TimestampTz
  last_lifecycle_run :: TimestampTz
  ShutdownRequestPending :: bool
  ConfigReloadPending :: bool
  InterruptPending :: bool
  QueryCancelPending :: bool
  ProcDiePending :: bool

text \<open>
  How the loop goes on: another turn, the end of the loop, an exit of the process with a
  status, or a pass that does not return. An exit undoes the transaction in progress.
\<close>

datatype progress =
    Running worker
  | Finished "AutoIndexShmemHeader option" catalog
  | Exited nat "AutoIndexShmemHeader option" catalog
  | Stuck

fun and_then :: "progress \<Rightarrow> (worker \<Rightarrow> progress) \<Rightarrow> progress" where
  "and_then (Running w) f = f w"
| "and_then p f = p"

definition exit_process :: "nat \<Rightarrow> worker \<Rightarrow> progress" where
  "exit_process status w = Exited status (wk_shmem w) (current (wk_session w))"

text \<open>
  The signals for which the worker or the set-up of its process has installed a handler.
  A \<open>SIGUSR1\<close> hands on requests of other processes; its argument tells whether one of
  them sets \<^const>\<open>InterruptPending\<close>, which is all that matters to this state.
\<close>

datatype signal = SIGTERM | SIGINT | SIGHUP | SIGUSR1 bool | SIGQUIT

definition die :: "worker \<Rightarrow> worker" where
  "die w = w\<lparr>InterruptPending := True, ProcDiePending := True\<rparr>"

definition StatementCancelHandler :: "worker \<Rightarrow> worker" where
  "StatementCancelHandler w = w\<lparr>InterruptPending := True, QueryCancelPending := True\<rparr>"

definition SignalHandlerForConfigReload :: "worker \<Rightarrow> worker" where
  "SignalHandlerForConfigReload w = w\<lparr>ConfigReloadPending := True\<rparr>"

definition SignalHandlerForCrashExit :: "worker \<Rightarrow> progress" where
  "SignalHandlerForCrashExit w = exit_process 2 w"

fun deliver :: "signal \<Rightarrow> worker \<Rightarrow> progress" where
  "deliver SIGTERM w = Running (die w)"
| "deliver SIGINT w = Running (StatementCancelHandler w)"
| "deliver SIGHUP w = Running (SignalHandlerForConfigReload w)"
| "deliver (SIGUSR1 interrupt) w = Running (w\<lparr>InterruptPending := InterruptPending w \<or> interrupt\<rparr>)"
| "deliver SIGQUIT w = SignalHandlerForCrashExit w"

primrec deliver_all :: "signal list \<Rightarrow> worker \<Rightarrow> progress" where
  "deliver_all [] w = Running w"
| "deliver_all (g # gs) w = and_then (deliver g w) (deliver_all gs)"

text \<open>
  \<open>CHECK_FOR_INTERRUPTS\<close>, where a computation reaches one: a pending request to terminate
  is a FATAL error, which ends the process, a pending request to cancel an ordinary error.
  A lock timeout is such a request to cancel, sent by the process to itself. The requests
  that concern a client or a statement of one do not occur in a worker; a transaction
  timeout, which is none unless configured, is not distinguished from a request to terminate.
\<close>

datatype interrupts = Proceed worker | Cancelled worker | Terminated

definition ProcessInterrupts :: "worker \<Rightarrow> interrupts" where
  "ProcessInterrupts w =
     (let w = w\<lparr>InterruptPending := False\<rparr> in
      if ProcDiePending w then Terminated
      else if QueryCancelPending w then Cancelled (w\<lparr>QueryCancelPending := False\<rparr>)
      else Proceed w)"

definition CHECK_FOR_INTERRUPTS :: "bool \<Rightarrow> worker \<Rightarrow> interrupts" where
  "CHECK_FOR_INTERRUPTS reached w = (if reached \<and> InterruptPending w then ProcessInterrupts w else Proceed w)"

subsection \<open>One pass in its transaction\<close>

definition begin_pass :: "catalog session \<Rightarrow> catalog session" where
  "begin_pass s = (let s = StartTransactionCommand s in PushActiveSnapshot (GetTransactionSnapshot s) s)"

text \<open>The statements of the \<open>PG_CATCH\<close> block.\<close>

definition catch_error :: "catalog session \<Rightarrow> catalog session" where
  "catch_error s = AbortCurrentTransaction (if ActiveSnapshotSet s then PopActiveSnapshot s else s)"

text \<open>
  The statements behind \<open>PG_END_TRY\<close>, with an error or without one. A commit that raises
  an error does so outside of the \<open>PG_TRY\<close> block.
\<close>

definition finish_pass :: "bool \<Rightarrow> catalog session \<Rightarrow> catalog session option" where
  "finish_pass commit_raises s =
     (let s = (if ActiveSnapshotSet s then PopActiveSnapshot s else s)
      in if IsTransactionState s
         then if commit_raises then None else Some (CommitTransactionCommand s)
         else Some s)"

definition end_pass :: "bool \<Rightarrow> catalog session \<Rightarrow> catalog session result \<Rightarrow> catalog session option" where
  "end_pass commit_raises err_session res =
     finish_pass commit_raises (case res of Inl e \<Rightarrow> catch_error err_session | Inr s \<Rightarrow> s)"

subsection \<open>A turn of the loop\<close>

text \<open>
  Besides what happens around the loop, a turn says which computations reach an interrupt
  check: the executor and the commands do, and so does every message that is emitted at the
  configured level. The wait, the test of the flags and the clock do not. In the advisor's
  pass the check is before the drain, or behind it with some number of candidates handled.
\<close>

datatype check_point = No_Check | Before_Drain | After_Drain nat

text \<open>
  The result of a pass that raises an error does not say in which state the session is then:
  how many snapshots and connections the calls under way have left, and what the transaction
  has changed in the database. The turn supplies such a state, without any restriction.
\<close>

record turn =
  t_signals :: "signal list"
  t_captured :: "WorkloadEntry list"
  t_commits :: "catalog \<Rightarrow> catalog"
  t_postmaster_dead :: bool
  t_config :: "configuration option"
  t_now :: TimestampTz
  t_pass_now :: TimestampTz
  t_env :: advisor_env
  t_raised :: "catalog session"
  t_checks_reload :: bool
  t_reload_raises :: bool
  t_checks_advisor :: check_point
  t_advisor_commit_raises :: bool
  t_checks_lifecycle :: bool
  t_lifecycle_commit_raises :: bool

text \<open>
  The wait: signals arrive, other backends capture queries and commit; the process exits if
  it finds that the postmaster is gone.
\<close>

definition await :: "turn \<Rightarrow> worker \<Rightarrow> progress" where
  "await t w =
     and_then
       (deliver_all (t_signals t)
         (w\<lparr>wk_shmem := map_option (fold push_once (t_captured t)) (wk_shmem w),
            wk_session := (wk_session w)\<lparr>current := t_commits t (current (wk_session w))\<rparr>\<rparr>))
       (\<lambda>w. if t_postmaster_dead t then exit_process 1 w else Running w)"

text \<open>An error outside of a pass ends the process with status 1.\<close>

definition reload :: "turn \<Rightarrow> worker \<Rightarrow> progress" where
  "reload t w =
     (if ConfigReloadPending w then
        let w = w\<lparr>ConfigReloadPending := False, wk_gucs := ProcessConfigFile (t_config t) (wk_gucs w)\<rparr>
        in if t_reload_raises t then exit_process 1 w
           else (case CHECK_FOR_INTERRUPTS (t_checks_reload t) w of
                   Proceed w \<Rightarrow> Running w
                 | Cancelled w \<Rightarrow> exit_process 1 w
                 | Terminated \<Rightarrow> exit_process 1 w)
      else Running w)"

text \<open>The comment above the function says that it advances the head; its body is empty.\<close>

definition autoindex_drain_workload_buffer :: "worker \<Rightarrow> worker" where
  "autoindex_drain_workload_buffer w = w"

definition pass_env :: "turn \<Rightarrow> worker \<Rightarrow> advisor_env" where
  "pass_env t w = (t_env t)\<lparr>env_gucs := wk_gucs w\<rparr>"

definition raised_session :: "turn \<Rightarrow> catalog session \<Rightarrow> catalog session" where
  "raised_session t begun = (t_raised t)\<lparr>xact_start := xact_start begun\<rparr>"

text \<open>Shared memory and table when the advisor's pass reaches its check.\<close>

definition advisor_reached ::
  "check_point \<Rightarrow> advisor_env \<Rightarrow> TimestampTz \<Rightarrow> AutoIndexShmemHeader option \<Rightarrow> advisor_state \<Rightarrow> catalog session \<Rightarrow>
   AutoIndexShmemHeader option \<times> advisor_state" where
  "advisor_reached point env now shmem st s =
     (let evicted = fst (advisor_hash_evict_stale now (autoindex_workload_window_days (env_gucs env)) st);
          (drained, shmem') = drain_ring_buffer shmem evicted
      in case point of
           After_Drain k \<Rightarrow>
             (shmem',
              case SPI_connect s of
                Inl e \<Rightarrow> drained
              | Inr (ret, s) \<Rightarrow>
                  (case evaluate_slots env drained [0..<ADVISOR_HASH_SIZE] [] s of
                     Inl e \<Rightarrow> drained
                   | Inr (cands, s) \<Rightarrow> fst (process_candidates env (take k (sort_candidates cands)) drained s)))
         | _ \<Rightarrow> (shmem, evicted))"

definition cancel_error :: pg_error where
  "cancel_error = PgError ''canceling statement due to user request''"

definition advisor_ends ::
  "turn \<Rightarrow> AutoIndexShmemHeader option \<times> advisor_state \<times> catalog session result \<Rightarrow> worker \<Rightarrow> progress" where
  "advisor_ends t = (\<lambda>(shmem, table, res) w.
     let w = w\<lparr>wk_shmem := shmem, wk_table := table\<rparr>
     in case end_pass (t_advisor_commit_raises t) (raised_session t (begin_pass (wk_session w))) res of
          None \<Rightarrow> exit_process 1 w
        | Some s \<Rightarrow> Running (w\<lparr>wk_session := s, last_advisor_run := t_now t\<rparr>))"

definition advisor_turn :: "turn \<Rightarrow> worker \<Rightarrow> progress" where
  "advisor_turn t w =
     (let s = begin_pass (wk_session w);
          (shmem, table) =
            advisor_reached (t_checks_advisor t) (pass_env t w) (t_pass_now t) (wk_shmem w) (wk_table w) s
      in case CHECK_FOR_INTERRUPTS (t_checks_advisor t \<noteq> No_Check) w of
           Terminated \<Rightarrow> exit_process 1 (w\<lparr>wk_shmem := shmem\<rparr>)
         | Cancelled w \<Rightarrow> advisor_ends t (shmem, table, Inl cancel_error) w
         | Proceed w \<Rightarrow>
             advisor_ends t (autoindex_run_advisor (pass_env t w) (t_pass_now t) (wk_shmem w) (wk_table w) s) w)"

definition lifecycle_ends :: "turn \<Rightarrow> catalog session result \<Rightarrow> worker \<Rightarrow> progress" where
  "lifecycle_ends t res w =
     (case end_pass (t_lifecycle_commit_raises t) (raised_session t (begin_pass (wk_session w))) res of
        None \<Rightarrow> exit_process 1 w
      | Some s \<Rightarrow> Running (w\<lparr>wk_session := s, last_lifecycle_run := t_now t\<rparr>))"

definition lifecycle_turn :: "turn \<Rightarrow> worker \<Rightarrow> progress" where
  "lifecycle_turn t w =
     (case CHECK_FOR_INTERRUPTS (t_checks_lifecycle t) w of
        Terminated \<Rightarrow> exit_process 1 w
      | Cancelled w \<Rightarrow> lifecycle_ends t (Inl cancel_error) w
      | Proceed w \<Rightarrow>
          (case autoindex_run_lifecycle (pass_env t w) (begin_pass (wk_session w)) of
             None \<Rightarrow> Stuck
           | Some res \<Rightarrow> lifecycle_ends t res w))"

definition advisor_due :: "turn \<Rightarrow> worker \<Rightarrow> bool" where
  "advisor_due t w \<longleftrightarrow>
     TimestampDifferenceExceeds (last_advisor_run w) (t_now t) (scast (advisor_msec (wk_gucs w)))"

definition lifecycle_due :: "turn \<Rightarrow> worker \<Rightarrow> bool" where
  "lifecycle_due t w \<longleftrightarrow>
     TimestampDifferenceExceeds (last_lifecycle_run w) (t_now t) (scast (lifecycle_msec (wk_gucs w)))"

definition passes :: "turn \<Rightarrow> worker \<Rightarrow> progress" where
  "passes t w =
     and_then (if advisor_due t w then advisor_turn t w else Running w) (\<lambda>w.
       if lifecycle_due t w then lifecycle_turn t w else Running w)"

definition loop_turn :: "turn \<Rightarrow> worker \<Rightarrow> progress" where
  "loop_turn t w =
     and_then (await t w) (\<lambda>w.
       and_then (reload t w) (\<lambda>w.
         if \<not> autoindex_enabled (wk_gucs w) then Running w
         else passes t (autoindex_drain_workload_buffer w)))"

subsection \<open>The process\<close>

definition set_bgw_pid :: "int32 \<Rightarrow> AutoIndexShmemHeader option \<Rightarrow> AutoIndexShmemHeader option" where
  "set_bgw_pid pid shmem = map_option (\<lambda>shm. shm\<lparr>bgw_pid := pid\<rparr>) shmem"

fun main_loop :: "turn list \<Rightarrow> worker \<Rightarrow> progress" where
  "main_loop [] w = Running w"
| "main_loop (t # ts) w =
     (if ShutdownRequestPending w then Finished (set_bgw_pid 0 (wk_shmem w)) (current (wk_session w))
      else and_then (loop_turn t w) (main_loop ts))"

text \<open>The start of the worker in a fresh process connected to a database.\<close>

definition worker_start ::
  "AutoIndexShmemHeader option \<Rightarrow> gucs \<Rightarrow> catalog \<Rightarrow> int32 \<Rightarrow> TimestampTz \<Rightarrow> worker" where
  "worker_start shmem g cat pid now = \<lparr>
     wk_shmem = set_bgw_pid pid shmem, wk_table = advisor_init,
     wk_session = (start_session cat)\<lparr>active_snapshots := [], xact_start := None\<rparr>,
     wk_gucs = g, last_advisor_run = now, last_lifecycle_run = now,
     ShutdownRequestPending = False, ConfigReloadPending = False,
     InterruptPending = False, QueryCancelPending = False, ProcDiePending = False\<rparr>"

definition AutoIndexMain ::
  "turn list \<Rightarrow> AutoIndexShmemHeader option \<Rightarrow> gucs \<Rightarrow> catalog \<Rightarrow> int32 \<Rightarrow> TimestampTz \<Rightarrow> progress" where
  "AutoIndexMain ts shmem g cat pid now = main_loop ts (worker_start shmem g cat pid now)"

subsection \<open>What happens while the worker waits\<close>

text \<open>The worker that comes back from the wait.\<close>

definition waited :: "turn \<Rightarrow> worker \<Rightarrow> worker" where
  "waited t w = w
     \<lparr>wk_shmem := map_option (fold push_once (t_captured t)) (wk_shmem w),
      wk_session := (wk_session w)\<lparr>current := t_commits t (current (wk_session w))\<rparr>,
      ConfigReloadPending := ConfigReloadPending w \<or> SIGHUP \<in> set (t_signals t),
      InterruptPending := InterruptPending w \<or> SIGTERM \<in> set (t_signals t) \<or> SIGINT \<in> set (t_signals t) \<or>
        SIGUSR1 True \<in> set (t_signals t),
      QueryCancelPending := QueryCancelPending w \<or> SIGINT \<in> set (t_signals t),
      ProcDiePending := ProcDiePending w \<or> SIGTERM \<in> set (t_signals t)\<rparr>"

lemma deliver_all_quit: "SIGQUIT \<in> set gs \<Longrightarrow> deliver_all gs w = exit_process 2 w"
proof (induction gs arbitrary: w)
  case (Cons g gs)
  then show ?case
    by (cases g) (auto simp: SignalHandlerForCrashExit_def exit_process_def die_def StatementCancelHandler_def
        SignalHandlerForConfigReload_def)
qed simp

lemma deliver_all_flags:
  "SIGQUIT \<notin> set gs \<Longrightarrow> deliver_all gs w = Running (w
     \<lparr>ConfigReloadPending := ConfigReloadPending w \<or> SIGHUP \<in> set gs,
      InterruptPending := InterruptPending w \<or> SIGTERM \<in> set gs \<or> SIGINT \<in> set gs \<or> SIGUSR1 True \<in> set gs,
      QueryCancelPending := QueryCancelPending w \<or> SIGINT \<in> set gs,
      ProcDiePending := ProcDiePending w \<or> SIGTERM \<in> set gs\<rparr>)"
proof (induction gs arbitrary: w)
  case (Cons g gs)
  then show ?case
    by (cases w; cases g) (auto simp: die_def StatementCancelHandler_def SignalHandlerForConfigReload_def)
qed simp

lemma await_eq:
  "await t w =
     (if SIGQUIT \<in> set (t_signals t) then exit_process 2 (waited t w)
      else if t_postmaster_dead t then exit_process 1 (waited t w)
      else Running (waited t w))"
  by (simp add: await_def deliver_all_quit deliver_all_flags waited_def exit_process_def)

lemma waited_simps [simp]:
  "wk_shmem (waited t w) = map_option (fold push_once (t_captured t)) (wk_shmem w)"
  "wk_table (waited t w) = wk_table w" "wk_gucs (waited t w) = wk_gucs w"
  "wk_session (waited t w) = (wk_session w)\<lparr>current := t_commits t (current (wk_session w))\<rparr>"
  "last_advisor_run (waited t w) = last_advisor_run w" "last_lifecycle_run (waited t w) = last_lifecycle_run w"
  "ShutdownRequestPending (waited t w) = ShutdownRequestPending w"
  "ProcDiePending (waited t w) \<longleftrightarrow> ProcDiePending w \<or> SIGTERM \<in> set (t_signals t)"
  "QueryCancelPending (waited t w) \<longleftrightarrow> QueryCancelPending w \<or> SIGINT \<in> set (t_signals t)"
  "ConfigReloadPending (waited t w) \<longleftrightarrow> ConfigReloadPending w \<or> SIGHUP \<in> set (t_signals t)"
  by (simp_all add: waited_def)

subsection \<open>Interrupt checks\<close>

text \<open>A check changes the two flags only.\<close>

definition checked :: "worker \<Rightarrow> worker \<Rightarrow> bool" where
  "checked w w' \<longleftrightarrow>
     wk_shmem w' = wk_shmem w \<and> wk_table w' = wk_table w \<and> wk_session w' = wk_session w \<and>
     wk_gucs w' = wk_gucs w \<and> last_advisor_run w' = last_advisor_run w \<and>
     last_lifecycle_run w' = last_lifecycle_run w \<and> ShutdownRequestPending w' = ShutdownRequestPending w \<and>
     ProcDiePending w' = ProcDiePending w \<and> ConfigReloadPending w' = ConfigReloadPending w \<and>
     (QueryCancelPending w' \<longrightarrow> QueryCancelPending w)"

lemma CHECK_FOR_INTERRUPTS_checked:
  "CHECK_FOR_INTERRUPTS reached w = Proceed w' \<Longrightarrow> checked w w'"
  "CHECK_FOR_INTERRUPTS reached w = Cancelled w' \<Longrightarrow> checked w w'"
  by (auto simp: CHECK_FOR_INTERRUPTS_def ProcessInterrupts_def checked_def Let_def split: if_splits)

lemma pass_env_checked: "checked w w' \<Longrightarrow> pass_env t w' = pass_env t w"
  by (simp add: pass_env_def checked_def)

text \<open>Nobody has asked the worker to terminate or to cancel.\<close>

definition unasked :: "worker \<Rightarrow> bool" where
  "unasked w \<longleftrightarrow> \<not> ProcDiePending w \<and> \<not> QueryCancelPending w"

lemma CHECK_FOR_INTERRUPTS_unasked:
  assumes "unasked w"
  obtains w' where "CHECK_FOR_INTERRUPTS reached w = Proceed w'" and "checked w w'" and "unasked w'"
proof (rule that)
  let ?w = "if reached \<and> InterruptPending w then w\<lparr>InterruptPending := False\<rparr> else w"
  show eq: "CHECK_FOR_INTERRUPTS reached w = Proceed ?w"
    using assms by (simp add: CHECK_FOR_INTERRUPTS_def ProcessInterrupts_def unasked_def)
  show "checked w ?w" by (rule CHECK_FOR_INTERRUPTS_checked(1) [OF eq])
  show "unasked ?w" using assms by (simp add: unasked_def)
qed

lemma CHECK_FOR_INTERRUPTS_unreached [simp]: "CHECK_FOR_INTERRUPTS False w = Proceed w"
  by (simp add: CHECK_FOR_INTERRUPTS_def)

text \<open>The worker that comes back from a reload, apart from the flags of a check.\<close>

definition reloaded :: "turn \<Rightarrow> worker \<Rightarrow> worker" where
  "reloaded t w =
     (if ConfigReloadPending w
      then w\<lparr>ConfigReloadPending := False, wk_gucs := ProcessConfigFile (t_config t) (wk_gucs w)\<rparr> else w)"

lemma checked_refl: "checked w w"
  by (simp add: checked_def)

lemma exit_checked: "checked w w' \<Longrightarrow> exit_process status w' = exit_process status w"
  by (simp add: exit_process_def checked_def)

lemma reload_eq:
  "reload t w =
     (if ConfigReloadPending w then
        if t_reload_raises t then exit_process 1 (reloaded t w)
        else (case CHECK_FOR_INTERRUPTS (t_checks_reload t) (reloaded t w) of
                Proceed w' \<Rightarrow> Running w' | _ \<Rightarrow> exit_process 1 (reloaded t w))
      else Running w)"
  by (simp add: reload_def reloaded_def exit_checked [OF CHECK_FOR_INTERRUPTS_checked(2)] split: interrupts.split)

lemma reload_cases:
  obtains (running) w' where "reload t w = Running w'" and "checked (reloaded t w) w'"
  | (exits) "reload t w = exit_process 1 (reloaded t w)"
proof (cases "CHECK_FOR_INTERRUPTS (t_checks_reload t) (reloaded t w)")
  case (Proceed w')
  then show thesis
    using running [of w'] running [of w] exits CHECK_FOR_INTERRUPTS_checked(1) [OF Proceed] checked_refl [of w]
    unfolding reload_eq by (cases "ConfigReloadPending w"; cases "t_reload_raises t") (simp_all add: reloaded_def)
qed (use running [of w] exits checked_refl [of w] in \<open>cases "ConfigReloadPending w"; simp add: reload_eq reloaded_def\<close>)+

subsection \<open>What the passes leave as it was\<close>

lemma estimate_frame: "estimate_index_build_cost env relid s = Inr (c, s') \<Longrightarrow> frame s' = frame s"
  by (auto simp: estimate_index_build_cost_def SPI_getvalue_def frame_def Let_def split: if_splits
      dest!: SPI_execute_balanced)

lemma exists_frame: "index_already_exists relid attno s = Inr (b, s') \<Longrightarrow> frame s' = frame s"
  by (auto simp: index_already_exists_def frame_def dest!: SPI_execute_balanced)

lemma count_frame: "count_auto_indexes env relid s = Inr (n, s') \<Longrightarrow> frame s' = frame s"
  by (auto simp: count_auto_indexes_def SPI_getvalue_def frame_def Let_def split: if_splits
      dest!: SPI_execute_balanced)

lemma create_frame: "create_index_for_candidate env relid attno s = Inr s' \<Longrightarrow> frame s' = frame s"
  by (auto simp: create_index_for_candidate_def frame_def Let_def split: option.splits
      dest!: SPI_execute_balanced)

lemma evaluate_frame: "evaluate_slots env st slots cands s = Inr (cands', s') \<Longrightarrow> frame s' = frame s"
  by (induction slots arbitrary: cands s)
    (auto simp: Let_def split: if_splits dest!: estimate_frame)

lemma process_frame: "process_candidates env cands st s = (st', Inr s') \<Longrightarrow> frame s' = frame s"
  by (induction cands arbitrary: st s)
    (auto split: if_splits sum.splits prod.splits dest!: count_frame exists_frame create_frame)

lemma drop_loop_frame:
  assumes "drop_loop env i s = Some (Inr s')"
  shows "frame s' = frame s"
proof -
  have "\<forall>s'. res = Inr s' \<longrightarrow> frame s' = frame s" if "drop_loop env i s = Some res" for res
    by (rule drop_loop.raw_induct [where P = "\<lambda>env i s res. \<forall>s'. res = Inr s' \<longrightarrow> frame s' = frame s", OF _ that])
      (fastforce simp: SPI_getvalue_def SPI_getbinval_def Let_def frame_def split: if_splits sum.splits
        dest!: SPI_execute_balanced)
  with assms show ?thesis by blast
qed

lemma map_sum_Inr_iff: "map_sum f g r = Inr y \<longleftrightarrow> (\<exists>x. r = Inr x \<and> y = g x)"
  by (cases r) auto

text \<open>Between two passes no snapshot is active, no connection open and no transaction in progress.\<close>

definition idle :: "'c session \<Rightarrow> bool" where
  "idle s \<longleftrightarrow> active_snapshots s = [] \<and> spi_stack s = [] \<and> xact_start s = None"

lemma begin_pass_simps [simp]:
  "current (begin_pass s) = current s" "spi_stack (begin_pass s) = spi_stack s" "wf_spi (begin_pass s) = wf_spi s"
  "active_snapshots (begin_pass s) = current s # active_snapshots s" "xact_start (begin_pass s) = Some (current s)"
  by (simp_all add: begin_pass_def StartTransactionCommand_def GetTransactionSnapshot_def wf_spi_def)

lemma idle_wf: "idle s \<Longrightarrow> wf_spi s"
  by (simp add: idle_def wf_spi_def)

text \<open>Whatever state the error is raised in, the catch block ends the transaction and undoes it.\<close>

lemma catch_error_idle:
  assumes "xact_start s = Some c"
  shows "idle (catch_error s) \<and> current (catch_error s) = c"
proof -
  have "xact_start (if ActiveSnapshotSet s then PopActiveSnapshot s else s) = Some c" using assms by simp
  from AbortCurrentTransaction_simps [OF this] show ?thesis by (simp add: catch_error_def idle_def)
qed

lemma finish_pass_idle:
  assumes "finish_pass raises s = Some s'" and "xact_start s \<noteq> None \<or> idle s"
  shows "idle s' \<and> current s' = current s"
  using assms by (auto simp: finish_pass_def IsTransactionState_def idle_def ActiveSnapshotSet_def Let_def split: if_splits)

lemma end_pass_idle:
  assumes "end_pass raises (raised_session t (begin_pass s)) res = Some s'"
    and "\<And>s1. res = Inr s1 \<Longrightarrow> xact_start s1 \<noteq> None"
  shows "idle s'"
proof (cases res)
  case (Inl e)
  have "xact_start (raised_session t (begin_pass s)) = Some (current s)" by (simp add: raised_session_def)
  from catch_error_idle [OF this] assms(1) Inl show ?thesis by (auto simp: end_pass_def dest!: finish_pass_idle)
qed (use assms in \<open>auto simp: end_pass_def dest!: finish_pass_idle\<close>)

lemma end_pass_total: "\<not> raises \<Longrightarrow> \<exists>s'. end_pass raises errs res = Some s'"
  by (simp add: end_pass_def finish_pass_def Let_def)

lemma end_pass_failed:
  "\<exists>s'. end_pass raises (raised_session t (begin_pass s)) (Inl e) = Some s' \<and> current s' = current s"
proof -
  have "xact_start (raised_session t (begin_pass s)) = Some (current s)" by (simp add: raised_session_def)
  from catch_error_idle [OF this] show ?thesis
    by (simp add: end_pass_def finish_pass_def idle_def IsTransactionState_def ActiveSnapshotSet_def)
qed

lemma run_advisor_xact:
  assumes "wf_spi s" and "active_snapshots s = snap # rest"
    and "autoindex_run_advisor env now shmem st s = (shmem', st', Inr s')"
  shows "xact_start s' = xact_start s"
proof -
  let ?st = "drained_table env now shmem st"
  obtain s1 where s1: "SPI_connect s = Inr (SPI_OK_CONNECT, s1)"
    using spi_ready_connect [OF assms(1,2)] by metis
  obtain shmem1 where drain: "drain_ring_buffer shmem
      (fst (advisor_hash_evict_stale now (autoindex_workload_window_days (env_gucs env)) st)) = (?st, shmem1)"
    unfolding drained_table_def by (metis prod.collapse)
  show ?thesis
  proof (cases "any_used ?st")
    case False
    with assms(3) show ?thesis by (simp add: autoindex_run_advisor_def drain Let_def)
  next
    case True
    with assms(3) s1 obtain cands s2 s3 where "evaluate_slots env ?st [0..<ADVISOR_HASH_SIZE] [] s1 = Inr (cands, s2)"
      "process_candidates env (sort_candidates cands) ?st s2 = (st', Inr s3)" "s' = snd (SPI_finish s3)"
      by (auto simp: autoindex_run_advisor_def drain Let_def split: sum.splits prod.splits)
    with evaluate_frame process_frame have "frame s3 = frame s1" "s' = snd (SPI_finish s3)" by metis+
    with SPI_connect_xact [OF s1] show ?thesis by (simp add: frame_def)
  qed
qed

lemma run_lifecycle_xact:
  assumes "wf_spi s" and "active_snapshots s = snap # rest" and "autoindex_run_lifecycle env s = Some (Inr s')"
  shows "xact_start s' = xact_start s"
proof -
  obtain s1 where s1: "SPI_connect s = Inr (SPI_OK_CONNECT, s1)"
    using spi_ready_connect [OF assms(1,2)] by metis
  from assms(3) s1 obtain ret s2 where s2: "SPI_execute (Inr [SelectStmt (unused_query (env_enc env))]) True 0 s1 = Inr (ret, s2)"
    "s' = snd (SPI_finish s2) \<or> (\<exists>s3. drop_loop env 0 s2 = Some (Inr s3) \<and> s' = snd (SPI_finish s3))"
    by (auto simp: autoindex_run_lifecycle_def map_sum_Inr_iff split: sum.splits if_splits)
  have "frame s2 = frame s1" using SPI_execute_balanced [OF s2(1)] by (simp add: frame_def)
  with s2(2) drop_loop_frame obtain s3 where "s' = snd (SPI_finish s3)" "frame s3 = frame s1" by metis
  with SPI_connect_xact [OF s1] show ?thesis by (simp add: frame_def)
qed

subsection \<open>Invariants of the loop\<close>

text \<open>
  What holds of every way the loop can go on: an invariant of the worker while it runs, and
  of the status and the shared memory when it exits; it does not leave the loop.
\<close>

definition holds :: "(worker \<Rightarrow> bool) \<Rightarrow> (nat \<Rightarrow> AutoIndexShmemHeader option \<Rightarrow> bool) \<Rightarrow> progress \<Rightarrow> bool" where
  "holds good exit_ok p =
     (case p of
        Running w \<Rightarrow> good w
      | Finished shmem cat \<Rightarrow> False
      | Exited status shmem cat \<Rightarrow> exit_ok status shmem
      | Stuck \<Rightarrow> True)"

lemma holds_simps [simp]:
  "holds good exit_ok (Running w) = good w"
  "holds good exit_ok (Exited status shmem cat) = exit_ok status shmem"
  "holds good exit_ok (exit_process status w) = exit_ok status (wk_shmem w)"
  "holds good exit_ok Stuck" "\<not> holds good exit_ok (Finished shmem cat)"
  by (simp_all add: holds_def exit_process_def)

lemma holds_and_then: "holds good exit_ok p \<Longrightarrow> (\<And>w. good w \<Longrightarrow> holds good exit_ok (f w)) \<Longrightarrow> holds good exit_ok (and_then p f)"
  by (cases p) auto

lemma holds_mono:
  assumes "holds good exit_ok p" and "\<And>w. good w \<Longrightarrow> good' w"
    and "\<And>status shmem. exit_ok status shmem \<Longrightarrow> exit_ok' status shmem"
  shows "holds good' exit_ok' p"
  using assms by (cases p) auto

locale worker_invariant =
  fixes good :: "worker \<Rightarrow> bool"
    and exit_ok :: "nat \<Rightarrow> AutoIndexShmemHeader option \<Rightarrow> bool"
    and allowed :: "turn \<Rightarrow> bool"
  assumes good_runs: "good w \<Longrightarrow> \<not> ShutdownRequestPending w"
    and good_await: "good w \<Longrightarrow> allowed t \<Longrightarrow> holds good exit_ok (await t w)"
    and good_reload: "good w \<Longrightarrow> allowed t \<Longrightarrow> holds good exit_ok (reload t w)"
    and good_advisor: "good w \<Longrightarrow> allowed t \<Longrightarrow> holds good exit_ok (advisor_turn t w)"
    and good_lifecycle: "good w \<Longrightarrow> allowed t \<Longrightarrow> holds good exit_ok (lifecycle_turn t w)"
begin

lemma good_passes: "good w \<Longrightarrow> allowed t \<Longrightarrow> holds good exit_ok (passes t w)"
  unfolding passes_def by (intro holds_and_then) (auto simp: good_advisor good_lifecycle)

lemma good_turn: "good w \<Longrightarrow> allowed t \<Longrightarrow> holds good exit_ok (loop_turn t w)"
  unfolding loop_turn_def
  by (intro holds_and_then) (auto simp: good_await good_reload good_passes autoindex_drain_workload_buffer_def)

lemma good_loop: "good w \<Longrightarrow> list_all allowed ts \<Longrightarrow> holds good exit_ok (main_loop ts w)"
  by (induction ts arbitrary: w) (auto simp: good_runs intro!: holds_and_then good_turn)

end

subsection \<open>What a pass keeps\<close>

definition emptied :: "AutoIndexShmemHeader \<Rightarrow> AutoIndexShmemHeader" where
  "emptied shm = shm\<lparr>shm_ring := (shm_ring shm)\<lparr>ring_head := ring_tail (shm_ring shm)\<rparr>\<rparr>"

lemma emptied_simps [simp]: "ring_items (emptied shm) = []" "wf_ring (emptied shm)" "bgw_pid (emptied shm) = bgw_pid shm"
  by (simp_all add: emptied_def ring_items_def wf_ring_def ring_count_def)

lemma drain_shmem: "snd (drain_ring_buffer shmem st) = map_option emptied shmem"
  by (simp add: drain_ring_buffer_def ring_drain_fold emptied_def split: option.split)

lemma run_advisor_shmem:
  "autoindex_run_advisor env now shmem st s = (shmem', st', res) \<Longrightarrow> shmem' = map_option emptied shmem"
  using drain_shmem by (auto simp: autoindex_run_advisor_def Let_def case_prod_beta split: if_splits sum.splits)

text \<open>
  The ring is as before or emptied, the configuration and the requests of the postmaster are
  as before, and an idle session is idle again, whether the pass succeeds, fails or is cancelled.
\<close>

definition drained_or_same :: "AutoIndexShmemHeader option \<Rightarrow> AutoIndexShmemHeader option \<Rightarrow> bool" where
  "drained_or_same shmem shmem' \<longleftrightarrow> shmem' = shmem \<or> shmem' = map_option emptied shmem"

definition kept :: "worker \<Rightarrow> worker \<Rightarrow> bool" where
  "kept w w' \<longleftrightarrow>
     drained_or_same (wk_shmem w) (wk_shmem w') \<and> wk_gucs w' = wk_gucs w \<and>
     ConfigReloadPending w' = ConfigReloadPending w \<and> ShutdownRequestPending w' = ShutdownRequestPending w \<and>
     (idle (wk_session w) \<longrightarrow> idle (wk_session w'))"

lemma advisor_reached_shmem: "drained_or_same shmem (fst (advisor_reached point env now shmem st s))"
  using drain_shmem by (auto simp: advisor_reached_def drained_or_same_def Let_def case_prod_beta split: check_point.split)

lemma advisor_ends_kept:
  assumes "checked w w'" and "drained_or_same (wk_shmem w) shmem"
    and "\<And>s'. res = Inr s' \<Longrightarrow> idle (wk_session w) \<Longrightarrow> xact_start s' \<noteq> None"
  shows "holds (kept w) (\<lambda>status shmem. status = 1 \<and> drained_or_same (wk_shmem w) shmem)
    (advisor_ends t (shmem, table, res) w')"
proof (cases "end_pass (t_advisor_commit_raises t) (raised_session t (begin_pass (wk_session w))) res")
  case (Some s)
  with end_pass_idle [OF this] assms show ?thesis
    by (auto simp: advisor_ends_def kept_def checked_def Let_def)
qed (use assms in \<open>simp add: advisor_ends_def checked_def Let_def\<close>)

lemma advisor_turn_kept:
  "holds (kept w) (\<lambda>status shmem. status = 1 \<and> drained_or_same (wk_shmem w) shmem) (advisor_turn t w)"
proof -
  let ?s = "begin_pass (wk_session w)" and ?env = "pass_env t w"
  let ?r = "advisor_reached (t_checks_advisor t) ?env (t_pass_now t) (wk_shmem w) (wk_table w) ?s"
  obtain shmem st where r: "?r = (shmem, st)" by (metis prod.collapse)
  have sh: "drained_or_same (wk_shmem w) shmem"
    using advisor_reached_shmem [of "wk_shmem w" "t_checks_advisor t" ?env "t_pass_now t" "wk_table w" ?s] r by simp
  obtain shmem' st' res where run: "autoindex_run_advisor ?env (t_pass_now t) (wk_shmem w) (wk_table w) ?s = (shmem', st', res)"
    by (metis prod_cases3)
  have sh': "drained_or_same (wk_shmem w) shmem'" using run_advisor_shmem [OF run] by (simp add: drained_or_same_def)
  have xact: "xact_start s' \<noteq> None" if "res = Inr s'" "idle (wk_session w)" for s'
    using run_advisor_xact [of ?s "current (wk_session w)" "[]"] run that by (auto simp: idle_wf) (simp add: idle_def)
  show ?thesis
  proof (cases "CHECK_FOR_INTERRUPTS (t_checks_advisor t \<noteq> No_Check) w")
    case (Proceed w')
    note same = CHECK_FOR_INTERRUPTS_checked(1) [OF Proceed]
    from Proceed advisor_ends_kept [OF same sh' xact] run same show ?thesis
      by (simp add: advisor_turn_def r pass_env_checked [OF same] Let_def) (simp add: checked_def)
  next
    case (Cancelled w')
    from Cancelled advisor_ends_kept [OF CHECK_FOR_INTERRUPTS_checked(2) [OF Cancelled] sh, of "Inl cancel_error" t st]
    show ?thesis by (simp add: advisor_turn_def r Let_def)
  next
    case Terminated
    with sh show ?thesis by (simp add: advisor_turn_def r Let_def)
  qed
qed

lemma lifecycle_ends_kept:
  assumes "checked w w'" and "\<And>s'. res = Inr s' \<Longrightarrow> idle (wk_session w) \<Longrightarrow> xact_start s' \<noteq> None"
  shows "holds (kept w) (\<lambda>status shmem. status = 1 \<and> drained_or_same (wk_shmem w) shmem) (lifecycle_ends t res w')"
proof (cases "end_pass (t_lifecycle_commit_raises t) (raised_session t (begin_pass (wk_session w))) res")
  case (Some s)
  with end_pass_idle [OF this] assms show ?thesis
    by (auto simp: lifecycle_ends_def kept_def checked_def drained_or_same_def Let_def)
qed (use assms in \<open>simp add: lifecycle_ends_def checked_def drained_or_same_def Let_def\<close>)

lemma lifecycle_turn_kept:
  "holds (kept w) (\<lambda>status shmem. status = 1 \<and> drained_or_same (wk_shmem w) shmem) (lifecycle_turn t w)"
proof (cases "CHECK_FOR_INTERRUPTS (t_checks_lifecycle t) w")
  case (Proceed w')
  note same = CHECK_FOR_INTERRUPTS_checked(1) [OF Proceed]
  let ?s = "begin_pass (wk_session w)"
  show ?thesis
  proof (cases "autoindex_run_lifecycle (pass_env t w) ?s")
    case None
    with Proceed same show ?thesis by (simp add: lifecycle_turn_def pass_env_checked [OF same]) (simp add: checked_def)
  next
    case run: (Some res)
    have xact: "xact_start s' \<noteq> None" if "res = Inr s'" "idle (wk_session w)" for s'
      using run_lifecycle_xact [of ?s "current (wk_session w)" "[]"] run that by (auto simp: idle_wf) (simp add: idle_def)
    from Proceed lifecycle_ends_kept [OF same xact] run same show ?thesis
      by (simp add: lifecycle_turn_def pass_env_checked [OF same]) (simp add: checked_def)
  qed
next
  case (Cancelled w')
  from Cancelled lifecycle_ends_kept [OF CHECK_FOR_INTERRUPTS_checked(2) [OF Cancelled], of "Inl cancel_error" t]
  show ?thesis by (simp add: lifecycle_turn_def)
qed (simp add: lifecycle_turn_def drained_or_same_def)

subsection \<open>The state between two turns is well formed\<close>

definition ring_ok :: "AutoIndexShmemHeader option \<Rightarrow> bool" where
  "ring_ok shmem \<longleftrightarrow> (\<forall>shm. shmem = Some shm \<longrightarrow> wf_ring shm \<and> list_all wf_entry (ring_items shm))"

lemma ring_ok_drained: "ring_ok shmem \<Longrightarrow> drained_or_same shmem shmem' \<Longrightarrow> ring_ok shmem'"
  by (cases shmem) (auto simp: ring_ok_def drained_or_same_def)

lemma ring_ok_captured:
  assumes "ring_ok shmem" and "list_all wf_entry es"
  shows "ring_ok (map_option (fold push_once es) shmem)"
  using assms by (auto simp: ring_ok_def ringq.wf_push_all ringq.items_push_all list_all_iff dest!: in_set_takeD)

definition wf_worker :: "worker \<Rightarrow> bool" where
  "wf_worker w \<longleftrightarrow> idle (wk_session w) \<and> wf_gucs (wk_gucs w) \<and> ring_ok (wk_shmem w) \<and> \<not> ShutdownRequestPending w"

definition wf_turn :: "turn \<Rightarrow> bool" where
  "wf_turn t \<longleftrightarrow> list_all wf_entry (t_captured t)"

lemma wf_waited: "wf_worker w \<Longrightarrow> wf_turn t \<Longrightarrow> wf_worker (waited t w)"
  by (simp add: wf_worker_def wf_turn_def idle_def ring_ok_captured)

lemma reloaded_simps [simp]:
  "wk_shmem (reloaded t w) = wk_shmem w" "wk_table (reloaded t w) = wk_table w" "wk_session (reloaded t w) = wk_session w"
  "last_advisor_run (reloaded t w) = last_advisor_run w" "last_lifecycle_run (reloaded t w) = last_lifecycle_run w"
  "ShutdownRequestPending (reloaded t w) = ShutdownRequestPending w" "\<not> ConfigReloadPending (reloaded t w)"
  "unasked (reloaded t w) = unasked w" "ProcDiePending (reloaded t w) = ProcDiePending w"
  "wk_gucs (reloaded t w) = (if ConfigReloadPending w then ProcessConfigFile (t_config t) (wk_gucs w) else wk_gucs w)"
  by (simp_all add: reloaded_def unasked_def)

lemma wf_checked_reload: "wf_worker w \<Longrightarrow> checked (reloaded t w) w' \<Longrightarrow> wf_worker w'"
  by (auto simp: wf_worker_def checked_def wf_reloaded)

lemma wf_kept: "wf_worker w \<Longrightarrow> kept w w' \<Longrightarrow> wf_worker w'"
  by (auto simp: wf_worker_def kept_def intro: ring_ok_drained)

interpretation wfw: worker_invariant wf_worker "\<lambda>_. ring_ok" wf_turn
proof unfold_locales
  fix w t assume w: "wf_worker w" and t: "wf_turn t"
  then have ring: "ring_ok (wk_shmem w)" "ring_ok (wk_shmem (waited t w))"
    using wf_waited [OF w t] by (simp_all add: wf_worker_def)
  show "holds wf_worker (\<lambda>_. ring_ok) (await t w)" using wf_waited [OF w t] ring(2) unfolding await_eq by simp
  show "holds wf_worker (\<lambda>_. ring_ok) (reload t w)"
    by (rule reload_cases [of t w]) (use w ring wf_checked_reload in auto)
  show "holds wf_worker (\<lambda>_. ring_ok) (advisor_turn t w)" "holds wf_worker (\<lambda>_. ring_ok) (lifecycle_turn t w)"
    by (rule holds_mono [OF advisor_turn_kept] holds_mono [OF lifecycle_turn_kept];
        use w ring wf_kept ring_ok_drained in blast)+
qed (simp add: wf_worker_def)

lemma ring_items_set_pid [simp]: "ring_items (shm\<lparr>bgw_pid := pid\<rparr>) = ring_items shm" "wf_ring (shm\<lparr>bgw_pid := pid\<rparr>) = wf_ring shm"
  by (simp_all add: ring_items_def wf_ring_def)

lemma wf_worker_start: "ring_ok shmem \<Longrightarrow> wf_gucs g \<Longrightarrow> wf_worker (worker_start shmem g cat pid now)"
  by (auto simp: wf_worker_def worker_start_def ring_ok_def set_bgw_pid_def idle_def start_session_def)


subsection \<open>The process id stays in shared memory\<close>

definition pid_of :: "AutoIndexShmemHeader option \<Rightarrow> int32 option" where
  "pid_of shmem = map_option bgw_pid shmem"

lemma bgw_pid_push_once [simp]: "bgw_pid (push_once e shm) = bgw_pid shm"
  by (simp add: push_once_def ring_store_def)

lemma bgw_pid_pushes [simp]: "bgw_pid (fold push_once es shm) = bgw_pid shm"
  by (induction es arbitrary: shm) auto

lemma pid_of_simps [simp]: "pid_of (map_option (fold push_once es) shmem) = pid_of shmem"
  "pid_of (map_option emptied shmem) = pid_of shmem"
  by (cases shmem; simp add: pid_of_def)+

lemma pid_of_drained: "drained_or_same shmem shmem' \<Longrightarrow> pid_of shmem' = pid_of shmem"
  by (auto simp: drained_or_same_def)

interpretation pidw: worker_invariant "\<lambda>w. pid_of (wk_shmem w) = pid \<and> \<not> ShutdownRequestPending w"
  "\<lambda>status shmem. status \<in> {1, 2} \<and> pid_of shmem = pid" "\<lambda>_. True" for pid
proof unfold_locales
  let ?good = "\<lambda>w. pid_of (wk_shmem w) = pid \<and> \<not> ShutdownRequestPending w"
  let ?exit_ok = "\<lambda>status shmem. status \<in> {1, 2} \<and> pid_of shmem = pid"
  fix w :: worker and t assume w: "?good w"
  then show "holds ?good ?exit_ok (await t w)" unfolding await_eq by simp
  show "holds ?good ?exit_ok (reload t w)"
    by (rule reload_cases [of t w]) (use w in \<open>auto simp: checked_def\<close>)
  show "holds ?good ?exit_ok (advisor_turn t w)" "holds ?good ?exit_ok (lifecycle_turn t w)"
    by (rule holds_mono [OF advisor_turn_kept] holds_mono [OF lifecycle_turn_kept];
        use w pid_of_drained in \<open>auto simp: kept_def\<close>)+
qed simp

subsection \<open>The schedule\<close>

text \<open>
  What the worker relies on in the database system: every \<open>DROP INDEX\<close> text of the lifecycle
  pass is one utility command without a result.
\<close>

definition drops_alone :: "advisor_env \<Rightarrow> bool" where
  "drops_alone env \<longleftrightarrow> env_enc env \<noteq> C_I \<and> (\<exists>drp. \<forall>nsp idx. drop_command_alone env drp nsp idx)"

lemma drops_alone_pass_env [simp]: "drops_alone (pass_env t w) = drops_alone (t_env t)"
  by (simp add: drops_alone_def drop_command_alone_def pass_env_def)

lemma lifecycle_returns:
  assumes "wf_spi s" and "active_snapshots s \<noteq> []" and "drops_alone env"
  shows "\<exists>res. autoindex_run_lifecycle env s = Some res"
proof -
  obtain drp where "env_enc env \<noteq> C_I" "\<forall>nsp idx. drop_command_alone env drp nsp idx"
    using assms(3) by (auto simp: drops_alone_def)
  moreover obtain snap rest where "active_snapshots s = snap # rest" using assms(2) by (cases "active_snapshots s") auto
  ultimately show ?thesis using run_lifecycle_drops [OF assms(1), of snap rest env drp] by auto
qed

text \<open>The comparison of the clock, with the casts carried out.\<close>

lemma exceeds_iff:
  fixes ms :: int64
  assumes "0 \<le> sint ms" and "sint ms < 2 ^ 31"
  shows "TimestampDifferenceExceeds start stop (scast ms) \<longleftrightarrow> sint ms * 1000 \<le> sint (stop - start)"
proof -
  have ms: "sint (scast ms :: int32) = sint ms"
    using assms sint_word_of_int_in_bounds [of "sint ms"] by (simp only: scast_eq)
  have "sint (scast (scast ms :: int32) * word_of_int 1000 :: int64) = sint (scast ms :: int32) * 1000"
    using assms by (intro sint_scast_mult [of 0 "2 ^ 31"]) (auto simp: in_bounds_def ms)
  then show ?thesis unfolding ms by (simp add: TimestampDifferenceExceeds_def)
qed

lemma due_iff:
  assumes "wf_gucs (wk_gucs w)"
  shows "advisor_due t w \<longleftrightarrow>
      sint (autoindex_advisor_interval (wk_gucs w)) * 1000000 \<le> sint (t_now t - last_advisor_run w)"
    and "lifecycle_due t w \<longleftrightarrow>
      sint (autoindex_lifecycle_interval (wk_gucs w)) * 3600000000 \<le> sint (t_now t - last_lifecycle_run w)"
proof -
  note ms = msec_values [OF assms]
  have b: "in_bounds 10 86400 (autoindex_advisor_interval (wk_gucs w))"
    "in_bounds 1 168 (autoindex_lifecycle_interval (wk_gucs w))"
    using assms by (simp_all add: wf_gucs_def)
  show "advisor_due t w \<longleftrightarrow>
      sint (autoindex_advisor_interval (wk_gucs w)) * 1000000 \<le> sint (t_now t - last_advisor_run w)"
    unfolding advisor_due_def using b ms by (subst exceeds_iff) (simp_all add: in_bounds_def mult.commute)
  show "lifecycle_due t w \<longleftrightarrow>
      sint (autoindex_lifecycle_interval (wk_gucs w)) * 3600000000 \<le> sint (t_now t - last_lifecycle_run w)"
    unfolding lifecycle_due_def using b ms by (subst exceeds_iff) (simp_all add: in_bounds_def mult.commute)
qed

lemma not_due_now:
  assumes "wf_gucs (wk_gucs w)"
  shows "last_advisor_run w = t_now t \<Longrightarrow> \<not> advisor_due t w"
    and "last_lifecycle_run w = t_now t \<Longrightarrow> \<not> lifecycle_due t w"
  using assms by (auto simp: due_iff wf_gucs_def in_bounds_def)

text \<open>
  The turns that the schedule is promised for: nobody asks the worker to terminate, to
  cancel or to quit, the postmaster is alive, no error is raised outside of the passes'
  \<open>PG_TRY\<close> blocks, that is by a reload or by a commit, and the drops are commands of their own.
\<close>

definition undisturbed :: "turn \<Rightarrow> bool" where
  "undisturbed t \<longleftrightarrow>
     SIGTERM \<notin> set (t_signals t) \<and> SIGINT \<notin> set (t_signals t) \<and> SIGQUIT \<notin> set (t_signals t) \<and>
     \<not> t_postmaster_dead t \<and> \<not> t_reload_raises t \<and> \<not> t_advisor_commit_raises t \<and>
     \<not> t_lifecycle_commit_raises t \<and> drops_alone (t_env t)"

lemma advisor_turn_returns:
  assumes "unasked w" and "\<not> t_advisor_commit_raises t"
  obtains w' where "advisor_turn t w = Running w'" and "last_advisor_run w' = t_now t"
    and "wk_shmem w' = map_option emptied (wk_shmem w)" and "wk_gucs w' = wk_gucs w"
    and "last_lifecycle_run w' = last_lifecycle_run w" and "unasked w'"
proof -
  obtain shmem st res where run: "autoindex_run_advisor (pass_env t w) (t_pass_now t) (wk_shmem w) (wk_table w)
      (begin_pass (wk_session w)) = (shmem, st, res)" by (metis prod_cases3)
  obtain w1 where w1: "CHECK_FOR_INTERRUPTS (t_checks_advisor t \<noteq> No_Check) w = Proceed w1" "checked w w1" "unasked w1"
    using CHECK_FOR_INTERRUPTS_unasked [OF assms(1)] by metis
  obtain s where s: "end_pass (t_advisor_commit_raises t) (raised_session t (begin_pass (wk_session w))) res = Some s"
    using end_pass_total [OF assms(2)] by blast
  let ?w = "w1\<lparr>wk_shmem := shmem, wk_table := st, wk_session := s, last_advisor_run := t_now t\<rparr>"
  have "wk_shmem w1 = wk_shmem w" "wk_table w1 = wk_table w" "wk_session w1 = wk_session w" using w1(2) by (simp_all add: checked_def)
  then have "advisor_turn t w = Running ?w"
    using w1(1) s run by (simp add: advisor_turn_def advisor_ends_def pass_env_checked [OF w1(2)] Let_def case_prod_beta)
  then show thesis by (rule that) (use w1(2,3) run_advisor_shmem [OF run] in \<open>simp_all add: checked_def unasked_def\<close>)
qed

lemma lifecycle_turn_returns:
  assumes "unasked w" and "idle (wk_session w)" and "undisturbed t"
  obtains w' where "lifecycle_turn t w = Running w'" and "last_lifecycle_run w' = t_now t"
    and "wk_shmem w' = wk_shmem w" and "wk_gucs w' = wk_gucs w"
    and "last_advisor_run w' = last_advisor_run w" and "unasked w'"
proof -
  obtain w1 where w1: "CHECK_FOR_INTERRUPTS (t_checks_lifecycle t) w = Proceed w1" "checked w w1" "unasked w1"
    using CHECK_FOR_INTERRUPTS_unasked [OF assms(1)] by metis
  obtain res where run: "autoindex_run_lifecycle (pass_env t w1) (begin_pass (wk_session w)) = Some res"
    using lifecycle_returns [of "begin_pass (wk_session w)" "pass_env t w1"] assms(2,3) by (auto simp: idle_wf undisturbed_def)
  obtain s where s: "end_pass (t_lifecycle_commit_raises t) (raised_session t (begin_pass (wk_session w))) res = Some s"
    using end_pass_total assms(3) unfolding undisturbed_def by blast
  let ?w = "w1\<lparr>wk_session := s, last_lifecycle_run := t_now t\<rparr>"
  have "wk_session w1 = wk_session w" using w1(2) by (simp add: checked_def)
  then have "lifecycle_turn t w = Running ?w" using w1(1) s run by (simp add: lifecycle_turn_def lifecycle_ends_def)
  then show thesis by (rule that) (use w1(2,3) in \<open>simp_all add: checked_def unasked_def\<close>)
qed

text \<open>What a turn of an enabled worker does: it runs the passes that are due.\<close>

lemma passes_run:
  assumes "wf_worker w" and "unasked w" and "undisturbed t"
  obtains w' where "passes t w = Running w'" and "\<not> advisor_due t w'" and "\<not> lifecycle_due t w'"
    and "wk_shmem w' = (if advisor_due t w then map_option emptied (wk_shmem w) else wk_shmem w)"
    and "unasked w'" and "wk_gucs w' = wk_gucs w"
proof -
  obtain w1 where w1: "(if advisor_due t w then advisor_turn t w else Running w) = Running w1" "\<not> advisor_due t w1"
    "wk_shmem w1 = (if advisor_due t w then map_option emptied (wk_shmem w) else wk_shmem w)"
    "unasked w1" "wk_gucs w1 = wk_gucs w"
    using advisor_turn_returns [OF assms(2), of t] not_due_now(1) assms unfolding wf_worker_def undisturbed_def by metis
  have "holds wf_worker (\<lambda>_ _. True) (advisor_turn t w)" by (rule holds_mono [OF advisor_turn_kept wf_kept [OF assms(1)]]) auto
  with w1(1) assms(1) have "wf_worker w1" by (auto split: if_splits)
  then have g: "wf_gucs (wk_gucs w1)" "idle (wk_session w1)" by (simp_all add: wf_worker_def)
  obtain w2 where w2: "(if lifecycle_due t w1 then lifecycle_turn t w1 else Running w1) = Running w2"
    "\<not> lifecycle_due t w2" "wk_shmem w2 = wk_shmem w1" "wk_gucs w2 = wk_gucs w1"
    "last_advisor_run w2 = last_advisor_run w1" "unasked w2"
    using lifecycle_turn_returns [OF w1(4) g(2) assms(3)] not_due_now(2) g(1) w1(4) by metis
  have "passes t w = Running w2" unfolding passes_def w1(1) using w2(1) by simp
  moreover have "\<not> advisor_due t w2" using w1(2) w2(4,5) by (simp add: advisor_due_def)
  ultimately show thesis using that w1 w2 by simp
qed

lemma reload_undisturbed:
  assumes "unasked w" and "\<not> t_reload_raises t"
  obtains w' where "reload t w = Running w'" and "checked (reloaded t w) w'" and "unasked w'"
proof (cases "ConfigReloadPending w")
  case True
  obtain w' where "CHECK_FOR_INTERRUPTS (t_checks_reload t) (reloaded t w) = Proceed w'" "checked (reloaded t w) w'" "unasked w'"
    using CHECK_FOR_INTERRUPTS_unasked [of "reloaded t w"] assms(1) by (metis reloaded_simps(8))
  with that True assms(2) show thesis by (simp add: reload_eq)
next
  case False
  then show thesis using that [of w] assms(1) by (simp add: reload_eq reloaded_def checked_refl)
qed

lemma turn_runs:
  assumes "wf_worker w" and "wf_turn t" and "unasked w" and "undisturbed t"
  obtains w' where "loop_turn t w = Running w'" and "unasked w'" and "wf_worker w'"
    and "autoindex_enabled (wk_gucs w') \<Longrightarrow> \<not> advisor_due t w' \<and> \<not> lifecycle_due t w' \<and>
      wk_shmem w' = map_option (\<lambda>shm.
        (if sint (autoindex_advisor_interval (wk_gucs w')) * 1000000 \<le> sint (t_now t - last_advisor_run w)
         then emptied else id) (fold push_once (t_captured t) shm)) (wk_shmem w)"
proof -
  have "unasked (waited t w)" using assms(3,4) by (simp add: unasked_def undisturbed_def)
  then obtain w1 where w1: "reload t (waited t w) = Running w1" "checked (reloaded t (waited t w)) w1" "unasked w1"
    using reload_undisturbed assms(4) unfolding undisturbed_def by metis
  have await: "await t w = Running (waited t w)" using assms(4) by (simp add: await_eq undisturbed_def)
  have wf1: "wf_worker w1" by (rule wf_checked_reload [OF wf_waited [OF assms(1,2)] w1(2)])
  have same: "wk_shmem w1 = map_option (fold push_once (t_captured t)) (wk_shmem w)" "last_advisor_run w1 = last_advisor_run w"
    using w1(2) by (simp_all add: checked_def)
  show thesis
  proof (cases "autoindex_enabled (wk_gucs w1)")
    case False
    with w1 await have "loop_turn t w = Running w1" by (simp add: loop_turn_def)
    with that [OF this w1(3) wf1] False show thesis by simp
  next
    case True
    obtain w2 where w2: "passes t w1 = Running w2" "\<not> advisor_due t w2" "\<not> lifecycle_due t w2"
      "wk_shmem w2 = (if advisor_due t w1 then map_option emptied (wk_shmem w1) else wk_shmem w1)"
      "unasked w2" "wk_gucs w2 = wk_gucs w1"
      using passes_run [OF wf1 w1(3) assms(4)] by metis
    have run: "loop_turn t w = Running w2"
      using w1 w2(1) True await by (simp add: loop_turn_def autoindex_drain_workload_buffer_def)
    have wf2: "wf_worker w2" using wfw.good_turn [OF assms(1,2)] run by simp
    have due: "advisor_due t w1 \<longleftrightarrow>
        sint (autoindex_advisor_interval (wk_gucs w2)) * 1000000 \<le> sint (t_now t - last_advisor_run w)"
      using wf1 same w2(6) by (simp add: due_iff wf_worker_def)
    show thesis
      by (rule that [OF run w2(5) wf2]) (use w2 same due in \<open>auto simp: option.map_comp comp_def\<close>)
  qed
qed

lemma and_then_assoc: "and_then (and_then p f) g = and_then p (\<lambda>w. and_then (f w) g)"
  by (cases p) auto

lemma main_loop_append: "main_loop (ts @ us) w = and_then (main_loop ts w) (main_loop us)"
proof (induction ts arbitrary: w)
  case (Cons t ts)
  then have "main_loop (ts @ us) = (\<lambda>w. and_then (main_loop ts w) (main_loop us))" by blast
  then show ?case by (simp add: and_then_assoc)
qed simp

lemma main_loop_runs:
  assumes "wf_worker w" and "unasked w" and "list_all (\<lambda>t. wf_turn t \<and> undisturbed t) ts"
  shows "\<exists>w'. main_loop ts w = Running w' \<and> wf_worker w' \<and> unasked w'"
  using assms
proof (induction ts arbitrary: w)
  case (Cons t ts)
  then obtain w1 where w1: "loop_turn t w = Running w1" "wf_worker w1" "unasked w1"
    by (auto elim: turn_runs [of w t])
  with Cons.IH [OF w1(2,3)] Cons.prems show ?case by (simp add: wf_worker_def)
qed simp

subsection \<open>A disabled worker\<close>

text \<open>
  Turns of a worker that has been disabled: the process is not killed, and a reload, if there
  is one, reads a file that leaves the worker disabled and neither raises an error nor
  reaches an interrupt check.
\<close>

definition stays_disabled :: "turn \<Rightarrow> bool" where
  "stays_disabled t \<longleftrightarrow>
     SIGQUIT \<notin> set (t_signals t) \<and> \<not> t_postmaster_dead t \<and>
     (SIGHUP \<notin> set (t_signals t) \<or>
      \<not> t_reload_raises t \<and> \<not> t_checks_reload t \<and>
      (case t_config t of None \<Rightarrow> True | Some conf \<Rightarrow> conf_bool conf ''autoindex.enabled'' = Some False))"

lemma disabled_turn:
  assumes "\<not> autoindex_enabled (wk_gucs w)" and "\<not> ConfigReloadPending w" and "stays_disabled t"
  obtains w' where "loop_turn t w = Running w'" and "\<not> autoindex_enabled (wk_gucs w')"
    and "\<not> ConfigReloadPending w'" and "ProcDiePending w' \<longleftrightarrow> ProcDiePending w \<or> SIGTERM \<in> set (t_signals t)"
    and "ShutdownRequestPending w' = ShutdownRequestPending w"
proof -
  let ?w = "reloaded t (waited t w)"
  have "await t w = Running (waited t w)" using assms(3) by (simp add: await_eq stays_disabled_def)
  moreover have "reload t (waited t w) = Running ?w"
    using assms(2,3) by (auto simp: reload_eq stays_disabled_def, simp_all add: reloaded_def)
  moreover have "\<not> autoindex_enabled (wk_gucs ?w)"
    using assms by (auto simp: stays_disabled_def enabled_reloaded split: option.splits)
  ultimately have "loop_turn t w = Running ?w" by (simp add: loop_turn_def)
  with that [of ?w] \<open>\<not> autoindex_enabled (wk_gucs ?w)\<close> show thesis by simp
qed

lemma disabled_loop:
  assumes "\<not> autoindex_enabled (wk_gucs w)" and "\<not> ConfigReloadPending w" and "\<not> ShutdownRequestPending w"
    and "list_all stays_disabled ts"
  shows "\<exists>w'. main_loop ts w = Running w' \<and>
    (ProcDiePending w' \<longleftrightarrow> ProcDiePending w \<or> list_ex (\<lambda>t. SIGTERM \<in> set (t_signals t)) ts)"
  using assms
proof (induction ts arbitrary: w)
  case (Cons t ts)
  then obtain w1 where w1: "loop_turn t w = Running w1" "\<not> autoindex_enabled (wk_gucs w1)" "\<not> ConfigReloadPending w1"
    "ProcDiePending w1 \<longleftrightarrow> ProcDiePending w \<or> SIGTERM \<in> set (t_signals t)" "\<not> ShutdownRequestPending w1"
    by (auto elim: disabled_turn [of w t])
  from Cons.IH [OF w1(2,3,5)] Cons.prems w1 show ?case by auto
qed simp

subsection \<open>A pass that fails\<close>

lemma advise_success:
  "advise env snap cands st cat = (st', Inr cat') \<Longrightarrow>
   st' = fold remove_column (filter (\<lambda>c. decision env snap c \<noteq> Keep) cands) st"
  by (induction cands arbitrary: st cat) (auto split: outcome.splits sum.splits)

lemma advise_failure:
  assumes "advise env snap before st cat = (st1, Inr cat1)" and "decision env snap c = Create"
    and "create_effect env c cat1 = Inl e"
  shows "advise env snap (before @ c # after) st cat = (st1, Inl e)"
  using assms by (induction before arbitrary: st cat) (auto split: outcome.splits sum.splits)

text \<open>The worker behind a failing pass: it turns on, with the database as before and the table as left.\<close>

lemma failing_turn_returns:
  fixes w :: worker and t :: turn
  defines "env \<equiv> pass_env t w" and "cat \<equiv> current (wk_session w)"
    and "st \<equiv> drained_table (pass_env t w) (t_pass_now t) (wk_shmem w) (wk_table w)"
  assumes "wf_worker w" and "unasked w" and "env_enc env \<noteq> C_I" and "countable_catalog cat" and "any_used st"
    and "advise env cat (sort_candidates (selected env cat st [0..<ADVISOR_HASH_SIZE])) st cat = (st1, Inl e)"
  obtains w' where "advisor_turn t w = Running w'" and "current (wk_session w') = cat" and "wk_table w' = st1"
    and "wk_gucs w' = wk_gucs w" and "last_lifecycle_run w' = last_lifecycle_run w"
proof -
  let ?s = "begin_pass (wk_session w)"
  have s: "wf_spi ?s" "active_snapshots ?s = cat # []" "current ?s = cat"
    using assms(4) by (simp_all add: wf_worker_def idle_wf cat_def) (simp add: idle_def)
  obtain shmem' st' res where run: "autoindex_run_advisor env (t_pass_now t) (wk_shmem w) (wk_table w) ?s = (shmem', st', res)"
    and "(st', map_sum id current res) = (st1, Inl e)"
    using run_advisor_advises [OF s(1,2) assms(6,7), of "t_pass_now t" "wk_shmem w" "wk_table w"] assms(8,9)
    unfolding s(3) st_def env_def by auto
  then have res: "st' = st1" "res = Inl e" by (cases res; simp)+
  obtain w1 where w1: "CHECK_FOR_INTERRUPTS (t_checks_advisor t \<noteq> No_Check) w = Proceed w1" "checked w w1"
    using CHECK_FOR_INTERRUPTS_unasked [OF assms(5)] by metis
  obtain s' where s': "end_pass (t_advisor_commit_raises t) (raised_session t (begin_pass (wk_session w))) (Inl e) = Some s'"
    "current s' = cat" using end_pass_failed cat_def by blast
  let ?w = "w1\<lparr>wk_shmem := shmem', wk_table := st1, wk_session := s', last_advisor_run := t_now t\<rparr>"
  have same: "wk_shmem w1 = wk_shmem w" "wk_table w1 = wk_table w" "wk_session w1 = wk_session w" "pass_env t w1 = env"
    using w1(2) by (simp_all add: checked_def pass_env_checked env_def)
  have "advisor_turn t w = Running ?w"
    using w1(1) s'(1) run by (simp add: advisor_turn_def advisor_ends_def same res Let_def case_prod_beta)
  then show thesis by (rule that) (use w1(2) s'(2) in \<open>simp_all add: checked_def\<close>)
qed

subsection \<open>Properties\<close>

text \<open>
  C4: From its start in a registered configuration, and from every well-formed state, the
  worker keeps its state well formed, whatever happens in its turns: signals, captured
  entries of the recorded form, commits, reloads with any file, cancelled passes, and passes
  that fail in any state of the session. Between two turns no snapshot is active, no SPI
  connection is open and no transaction is in progress, also after a pass that failed; the
  configuration is within its bounds; the ring holds at most 4095 entries, each of the
  recorded form. When the process exits, the ring it leaves is well formed too. A lifecycle
  pass that does not return has no state after it.
\<close>

theorem worker_state_well_formed:
  assumes "list_all wf_turn ts"
  shows "(ring_ok shmem \<longrightarrow> holds wf_worker (\<lambda>status. ring_ok)
      (AutoIndexMain ts shmem (fold ProcessConfigFile files (autoindex_register_gucs conf)) cat pid now)) \<and>
    (\<forall>w. wf_worker w \<longrightarrow> holds wf_worker (\<lambda>status. ring_ok) (main_loop ts w))"
  unfolding AutoIndexMain_def using wfw.good_loop [OF _ assms] wf_worker_start wf_configured by blast

text \<open>
  C5: The schedule is kept by a worker that nobody asks to terminate, to cancel or to quit,
  as long as the postmaster is alive, no reload or commit raises an error and the drops are
  commands of their own: the worker keeps running, and after every turn in which it is
  enabled neither pass is overdue. A turn whose clock is at least the advisor's interval
  past the last advisor pass empties the ring; any other turn drains nothing, it only
  appends what was captured, up to the capacity of the ring.
\<close>

theorem worker_keeps_schedule:
  assumes "ring_ok shmem" and "wf_gucs g" and "list_all (\<lambda>t. wf_turn t \<and> undisturbed t) (ts @ [t])"
  shows "\<exists>w w'. AutoIndexMain ts shmem g cat pid now = Running w \<and>
    AutoIndexMain (ts @ [t]) shmem g cat pid now = Running w' \<and>
    (autoindex_enabled (wk_gucs w') \<longrightarrow>
       sint (t_now t - last_advisor_run w') < sint (autoindex_advisor_interval (wk_gucs w')) * 1000000 \<and>
       sint (t_now t - last_lifecycle_run w') < sint (autoindex_lifecycle_interval (wk_gucs w')) * 3600000000 \<and>
       (\<forall>shm'. wk_shmem w' = Some shm' \<longrightarrow>
          (\<exists>shm. wk_shmem w = Some shm \<and>
             ring_items shm' =
               (if sint (autoindex_advisor_interval (wk_gucs w')) * 1000000 \<le> sint (t_now t - last_advisor_run w)
                then [] else take 4095 (ring_items shm @ t_captured t)))))"
proof -
  let ?w0 = "worker_start shmem g cat pid now"
  have "unasked ?w0" by (simp add: worker_start_def unasked_def)
  with main_loop_runs [OF wf_worker_start [OF assms(1,2)]] assms(3) obtain w where
    w: "main_loop ts ?w0 = Running w" "wf_worker w" "unasked w" by (metis list_all_append)
  from assms(3) have t: "wf_turn t" "undisturbed t" by auto
  obtain w' where w': "loop_turn t w = Running w'" "wf_worker w'"
    and sched: "autoindex_enabled (wk_gucs w') \<Longrightarrow> \<not> advisor_due t w' \<and> \<not> lifecycle_due t w' \<and>
      wk_shmem w' = map_option (\<lambda>shm.
        (if sint (autoindex_advisor_interval (wk_gucs w')) * 1000000 \<le> sint (t_now t - last_advisor_run w)
         then emptied else id) (fold push_once (t_captured t) shm)) (wk_shmem w)"
    using turn_runs [OF w(2) t(1) w(3) t(2)] by metis
  have "main_loop (ts @ [t]) ?w0 = Running w'"
    using w(1,2) w'(1) by (simp add: main_loop_append wf_worker_def)
  moreover have "ring_items (fold push_once (t_captured t) shm) = take 4095 (ring_items shm @ t_captured t)"
    if "wk_shmem w = Some shm" for shm
    using that w(2) by (intro ringq.items_push_all) (auto simp: wf_worker_def ring_ok_def)
  moreover have "wf_gucs (wk_gucs w')" using w'(2) by (simp add: wf_worker_def)
  ultimately show ?thesis using w(1) sched by (auto simp: AutoIndexMain_def due_iff not_le)
qed

text \<open>
  C16: A request to terminate is not obeyed by the loop. Nothing that happens in the turns,
  no signal and no error, makes it leave the loop, so the code behind it, which resets the
  process id in shared memory, never runs: the worker ends only by an exit from within a
  turn, with status 1 or 2, and leaves its id there. A worker that is disabled and stays so
  does not even exit on a request: unless the process is killed with a \<open>SIGQUIT\<close>, the
  postmaster dies, or a reload raises an error or reaches an interrupt check, it goes on
  turning, and the request stays pending.
\<close>

theorem termination_request_pending:
  "(\<forall>shmem' cat'. AutoIndexMain ts shmem g cat pid now \<noteq> Finished shmem' cat') \<and>
   (\<forall>status shmem' cat'. AutoIndexMain ts shmem g cat pid now = Exited status shmem' cat' \<longrightarrow>
      status \<in> {1, 2} \<and> pid_of shmem' = map_option (\<lambda>_. pid) shmem) \<and>
   (\<not> autoindex_enabled g \<and> list_all stays_disabled ts \<longrightarrow>
      (\<exists>w. AutoIndexMain ts shmem g cat pid now = Running w \<and>
         (ProcDiePending w \<longleftrightarrow> list_ex (\<lambda>t. SIGTERM \<in> set (t_signals t)) ts)))"
proof -
  let ?w = "worker_start shmem g cat pid now" and ?pid = "map_option (\<lambda>_. pid) shmem"
  have "holds (\<lambda>w. pid_of (wk_shmem w) = ?pid \<and> \<not> ShutdownRequestPending w)
      (\<lambda>status shmem. status \<in> {1, 2} \<and> pid_of shmem = ?pid) (main_loop ts ?w)"
    by (rule pidw.good_loop)
      (simp_all add: worker_start_def list_all_iff pid_of_def set_bgw_pid_def option.map_comp comp_def)
  then have "main_loop ts ?w \<noteq> Finished shmem' cat'"
    "main_loop ts ?w = Exited status shmem' cat' \<Longrightarrow> status \<in> {1, 2} \<and> pid_of shmem' = ?pid" for status shmem' cat'
    by auto
  moreover have "\<exists>w. main_loop ts ?w = Running w \<and> (ProcDiePending w \<longleftrightarrow> list_ex (\<lambda>t. SIGTERM \<in> set (t_signals t)) ts)"
    if "\<not> autoindex_enabled g" "list_all stays_disabled ts"
    using disabled_loop [of ?w ts] that by (simp add: worker_start_def)
  ultimately show ?thesis unfolding AutoIndexMain_def by blast
qed

text \<open>
  C18: A pass that nobody asks to stop and that fails at a candidate is rolled back in the database but not in the
  worker: the indexes that it created for the candidates before are undone, and their
  columns, with the rent they had accumulated, are gone from the table all the same.
\<close>

theorem failed_pass_loses_statistics:
  fixes t :: turn and w :: worker
  defines "cat \<equiv> current (wk_session w)"
    and "env \<equiv> pass_env t w"
    and "st \<equiv> drained_table (pass_env t w) (t_pass_now t) (wk_shmem w) (wk_table w)"
  assumes "wf_worker w" and "unasked w" and "env_enc (t_env t) \<noteq> C_I" and "countable_catalog cat"
    and "any_used st" and "sort_candidates (selected env cat st [0..<ADVISOR_HASH_SIZE]) = before @ c # after"
    and "advise env cat before st cat = (st1, Inr cat1)" and "decision env cat c = Create"
    and "create_effect env c cat1 = Inl e"
  shows "\<exists>w'. advisor_turn t w = Running w' \<and> current (wk_session w') = cat \<and>
    wk_table w' = fold remove_column (filter (\<lambda>c. decision env cat c \<noteq> Keep) before) st"
proof -
  have enc: "env_enc env \<noteq> C_I" using assms(6) by (simp add: env_def pass_env_def)
  have "advise env cat (sort_candidates (selected env cat st [0..<ADVISOR_HASH_SIZE])) st cat = (st1, Inl e)"
    unfolding assms(9) by (rule advise_failure [OF assms(10-12)])
  then obtain w' where "advisor_turn t w = Running w'" "current (wk_session w') = cat" "wk_table w' = st1"
    using failing_turn_returns [OF assms(4,5)] enc assms(7,8) unfolding cat_def env_def st_def by blast
  with advise_success [OF assms(10)] show ?thesis by simp
qed

subsection \<open>Runs\<close>

text \<open>The configuration stays as it is without a reload.\<close>

interpretation gucsw: worker_invariant
  "\<lambda>w. wk_gucs w = g \<and> \<not> ConfigReloadPending w \<and> \<not> ShutdownRequestPending w" "\<lambda>_ _. True"
  "\<lambda>t. SIGHUP \<notin> set (t_signals t)" for g
proof unfold_locales
  let ?good = "\<lambda>w. wk_gucs w = g \<and> \<not> ConfigReloadPending w \<and> \<not> ShutdownRequestPending w"
  fix w :: worker and t :: turn assume w: "?good w"
  then show "SIGHUP \<notin> set (t_signals t) \<Longrightarrow> holds ?good (\<lambda>_ _. True) (await t w)" unfolding await_eq by simp
  show "holds ?good (\<lambda>_ _. True) (reload t w)" using w by (simp add: reload_eq)
  show "holds ?good (\<lambda>_ _. True) (advisor_turn t w)" "holds ?good (\<lambda>_ _. True) (lifecycle_turn t w)"
    by (rule holds_mono [OF advisor_turn_kept] holds_mono [OF lifecycle_turn_kept]; use w in \<open>auto simp: kept_def\<close>)+
qed simp

lemma wf_initial_gucs: "wf_gucs initial_gucs"
  by (simp add: wf_gucs_def initial_gucs_def in_bounds_def INT_MAX_def)

definition sample_turn :: "signal list \<Rightarrow> WorkloadEntry list \<Rightarrow> TimestampTz \<Rightarrow> turn" where
  "sample_turn signals captured now = \<lparr>t_signals = signals, t_captured = captured, t_commits = id,
     t_postmaster_dead = False, t_config = None, t_now = now, t_pass_now = now,
     t_env = sample_env\<lparr>env_parse := \<lambda>_. Inr [UtilityStmt (\<lambda>cat. Inr (None, cat))]\<rparr>,
     t_raised = start_session sample_catalog, t_checks_reload = False, t_reload_raises = False,
     t_checks_advisor = After_Drain 0, t_advisor_commit_raises = False,
     t_checks_lifecycle = True, t_lifecycle_commit_raises = False\<rparr>"

lemma wf_sample_entry: "wf_entry sample_entry"
  by (simp add: sample_entry_def wf_entry_def zero_entry_def limits)

lemma wf_sample_turn: "list_all wf_entry captured \<Longrightarrow> wf_turn (sample_turn signals captured now)"
  by (simp add: wf_turn_def sample_turn_def)

lemma sample_undisturbed: "undisturbed (sample_turn [] captured now)"
  by (auto simp: undisturbed_def drops_alone_def sample_turn_def drop_command_alone_def sample_env_def
      intro!: exI [of _ "\<lambda>nsp idx. Inr"])

lemma ring_ok_init: "ring_ok (Some autoindex_shmem_init)"
  by (simp add: ring_ok_def wf_shmem_init ring_items_init)

lemma quiet_turn:
  assumes "SIGQUIT \<notin> set (t_signals t)" and "SIGHUP \<notin> set (t_signals t)" and "\<not> t_postmaster_dead t"
    and "\<not> ConfigReloadPending w"
  shows "loop_turn t w = (if autoindex_enabled (wk_gucs w) then passes t (waited t w) else Running (waited t w))"
  using assms by (simp add: loop_turn_def await_eq reload_eq autoindex_drain_workload_buffer_def)

theorem worker_keeps_schedule_witness:
  "\<exists>w w'. AutoIndexMain [sample_turn [] [sample_entry] 1] (Some autoindex_shmem_init) initial_gucs sample_catalog 4711 0 =
       Running w \<and> last_advisor_run w = 0 \<and>
     AutoIndexMain ([sample_turn [] [sample_entry] 1] @ [sample_turn [] [] 300000000]) (Some autoindex_shmem_init)
       initial_gucs sample_catalog 4711 0 = Running w' \<and>
     (\<forall>shm'. wk_shmem w' = Some shm' \<longrightarrow> ring_items shm' = [])"
proof -
  let ?main = "\<lambda>ts. AutoIndexMain ts (Some autoindex_shmem_init) initial_gucs sample_catalog 4711 0"
  let ?t1 = "sample_turn [] [sample_entry] 1" and ?t2 = "sample_turn [] [] 300000000"
  have ok: "list_all (\<lambda>t. wf_turn t \<and> undisturbed t) ([?t1] @ [?t2])"
    using sample_undisturbed wf_sample_turn wf_sample_entry by simp
  have hup: "SIGHUP \<notin> set (t_signals ?t1)" "SIGHUP \<notin> set (t_signals ?t2)" by (simp_all add: sample_turn_def)
  obtain w w' where w: "?main [?t1] = Running w" "?main ([?t1] @ [?t2]) = Running w'"
    and sched: "autoindex_enabled (wk_gucs w') \<Longrightarrow> (\<forall>shm'. wk_shmem w' = Some shm' \<longrightarrow>
      (\<exists>shm. wk_shmem w = Some shm \<and> ring_items shm' =
        (if sint (autoindex_advisor_interval (wk_gucs w')) * 1000000 \<le> sint (t_now ?t2 - last_advisor_run w)
         then [] else take 4095 (ring_items shm @ t_captured ?t2))))"
    using worker_keeps_schedule [OF ring_ok_init wf_initial_gucs ok] by blast
  have g: "wk_gucs w' = initial_gucs"
    using gucsw.good_loop [of "worker_start (Some autoindex_shmem_init) initial_gucs sample_catalog 4711 0"
        initial_gucs "[?t1] @ [?t2]"] w(2) hup
    by (simp add: AutoIndexMain_def worker_start_def)
  let ?w0 = "worker_start (Some autoindex_shmem_init) initial_gucs sample_catalog 4711 0"
  have w0: "wk_gucs ?w0 = initial_gucs" "last_advisor_run ?w0 = 0" "last_lifecycle_run ?w0 = 0"
    "\<not> ConfigReloadPending ?w0" "\<not> ShutdownRequestPending ?w0" by (simp_all add: worker_start_def)
  have "\<not> advisor_due ?t1 (waited ?t1 ?w0)" "\<not> lifecycle_due ?t1 (waited ?t1 ?w0)"
    using w0 by (simp_all add: due_iff wf_initial_gucs) (simp_all add: initial_gucs_def sample_turn_def)
  then have "loop_turn ?t1 ?w0 = Running (waited ?t1 ?w0)"
    using quiet_turn [of ?t1 ?w0] w0(4) hup by (simp add: passes_def sample_turn_def)
  with w(1) w0 have "last_advisor_run w = 0" by (auto simp: AutoIndexMain_def)
  with w sched g show ?thesis by (auto simp: initial_gucs_def sample_turn_def)
qed

theorem termination_request_pending_witness:
  "\<exists>w. AutoIndexMain [sample_turn [SIGTERM] [] 1, sample_turn [SIGTERM] [] 300000000] (Some autoindex_shmem_init)
     (initial_gucs\<lparr>autoindex_enabled := False\<rparr>) sample_catalog 4711 0 = Running w \<and> ProcDiePending w"
  using termination_request_pending [of "[sample_turn [SIGTERM] [] 1, sample_turn [SIGTERM] [] 300000000]"
      "Some autoindex_shmem_init" "initial_gucs\<lparr>autoindex_enabled := False\<rparr>" sample_catalog 4711 0]
  by (simp add: stays_disabled_def sample_turn_def)

text \<open>
  A worker that tracks a column of a table and a column of a table that has been dropped. The
  error of its pass is raised with an index created, two snapshots active and a connection open.
\<close>

definition dropped_key :: ColStatsKey where
  "dropped_key = \<lparr>key_relid = 16500, key_attnum = 1, key_usage = USAGE_PREDICATE\<rparr>"

definition two_columns :: advisor_state where
  "two_columns = put_slot (key_hash dropped_key)
     \<lparr>cs_key = dropped_key, exec_count = 5, cumulative_rent = 400, last_seen = 0\<rparr> sample_table"

definition failing_worker :: worker where
  "failing_worker = (worker_start None (env_gucs sample_env) sample_catalog 4711 0)\<lparr>wk_table := two_columns\<rparr>"

definition failing_turn :: turn where
  "failing_turn = (sample_turn [] [] 300000000)\<lparr>t_env := sample_env, t_pass_now := 0,
     t_raised := sample_session\<lparr>current := catalog_a, active_snapshots := [catalog_a, sample_catalog]\<rparr>\<rparr>"

lemma two_hashes: "key_hash sample_key = 143" "key_hash dropped_key = 1027"
  by (simp_all add: sample_key_def dropped_key_def key_hash_def advisor_hash_fn_def hash_mask_2047)

lemma filter_upt_two: "k < l \<Longrightarrow> l < n \<Longrightarrow> filter (\<lambda>i. i = k \<or> i = l) [0..<n] = [k, l]"
proof (induction n)
  case (Suc n)
  show ?case
  proof (cases "l = n")
    case True
    have "filter (\<lambda>i. i = k \<or> i = n) [0..<n] = filter (\<lambda>i. i = k) [0..<n]" by (rule filter_cong) auto
    with Suc.prems True show ?thesis by (simp add: filter_upt_eq)
  qed (use Suc in auto)
qed simp

lemma two_selected:
  "selected sample_env sample_catalog two_columns [0..<ADVISOR_HASH_SIZE] = [sample_candidate 1, dropped_candidate]"
proof -
  have freq: "autoindex_min_exec_freq (env_gucs sample_env) = 1" by (simp add: sample_env_def)
  have cost: "snapshot_cost sample_env sample_catalog 16384 = 100" "snapshot_cost sample_env sample_catalog 16500 = 100"
    by (simp_all add: snapshot_cost_def SearchSysCache_RELOID_def sample_catalog_def build_cost_def sample_env_def Let_def)
  have "filter (\<lambda>i. hash_used two_columns i \<and> worth_estimating (env_gucs sample_env) (hash_slots two_columns i) \<and>
      snapshot_cost sample_env sample_catalog (key_relid (cs_key (hash_slots two_columns i))) \<le>
        cumulative_rent (hash_slots two_columns i)) [0..<ADVISOR_HASH_SIZE] =
      filter (\<lambda>i. i = 143 \<or> i = 1027) [0..<ADVISOR_HASH_SIZE]"
    by (rule filter_cong) (auto simp: two_columns_def sample_table_def put_slot_def advisor_init_def worth_estimating_def
        sample_key_def dropped_key_def two_hashes [unfolded sample_key_def dropped_key_def] freq cost)
  also have "\<dots> = [143, 1027]" by (rule filter_upt_two) (simp_all add: ADVISOR_HASH_SIZE_def)
  finally show ?thesis
    by (simp add: selected_def cost two_columns_def sample_table_def put_slot_def two_hashes make_candidate_def
        sample_candidate_def dropped_candidate_def)
      (simp add: sample_key_def dropped_key_def cost)
qed

lemma two_drained: "drained_table sample_env 0 None two_columns = two_columns"
proof -
  have "\<not> evicts 0 age two_columns i" for age i
    by (auto simp: evicts_def is_stale_def two_columns_def sample_table_def put_slot_def advisor_init_def)
  then show ?thesis by (simp add: drained_table_def drain_ring_buffer_def evict_stale_spec Let_def)
qed

lemma two_sorted: "sort_candidates [sample_candidate 1, dropped_candidate] = [sample_candidate 1] @ dropped_candidate # []"
  by (simp add: sort_candidates_def exchange_row_def exchange_def sample_candidate_def dropped_candidate_def)

lemma two_used: "any_used two_columns"
  by (auto simp: any_used_def list_ex_iff two_columns_def put_slot_def two_hashes ADVISOR_HASH_SIZE_def intro!: exI [of _ 1027])

lemma first_advised: "advise sample_env sample_catalog [sample_candidate 1] two_columns sample_catalog =
    (remove_column (sample_candidate 1) two_columns, Inr catalog_a)"
  by (simp add: sample_decision sample_effects)

lemma dropped_effect: "\<exists>e. create_effect sample_env dropped_candidate catalog_a = Inl e"
  by (simp add: create_effect_def dropped_candidate_def sample_candidate_def get_attname_def SearchSysCache_ATTNUM_def
      catalog_a_def add_index_def sample_catalog_def)

lemma failing_simps:
  "pass_env failing_turn failing_worker = sample_env" "current (wk_session failing_worker) = sample_catalog"
  "wk_shmem failing_worker = None" "wk_table failing_worker = two_columns" "t_pass_now failing_turn = 0"
  "env_enc (t_env failing_turn) \<noteq> C_I" "unasked failing_worker"
  by (simp_all add: failing_worker_def worker_start_def start_session_def failing_turn_def set_bgw_pid_def sample_enc
      pass_env_def unasked_def)

lemma wf_failing_worker: "wf_worker failing_worker"
  by (simp add: wf_worker_def failing_worker_def worker_start_def idle_def start_session_def ring_ok_def set_bgw_pid_def
      sample_env_def) (simp add: wf_gucs_def initial_gucs_def in_bounds_def INT_MAX_def)

theorem failed_pass_loses_statistics_witness:
  "\<exists>w'. advisor_turn failing_turn failing_worker = Running w' \<and> current (wk_session w') = sample_catalog \<and>
     wk_table w' = remove_column (sample_candidate 1) two_columns"
proof -
  obtain e where "create_effect sample_env dropped_candidate catalog_a = Inl e" using dropped_effect by blast
  with failed_pass_loses_statistics [of failing_worker failing_turn "[sample_candidate 1]" dropped_candidate "[]"
      "remove_column (sample_candidate 1) two_columns" catalog_a e] wf_failing_worker first_advised two_used two_sorted
  show ?thesis by (simp add: failing_simps two_drained two_selected sample_decision sample_countable)
qed

text \<open>The turn of that pass, which leaves the worker as the first property says.\<close>

lemma failing_turn_runs:
  obtains w where "main_loop [failing_turn] failing_worker = Running w" and "current (wk_session w) = sample_catalog"
    and "wk_table w = remove_column (sample_candidate 1) two_columns"
proof -
  obtain e where e: "create_effect sample_env dropped_candidate catalog_a = Inl e" using dropped_effect by blast
  have "advise sample_env sample_catalog (sort_candidates [sample_candidate 1, dropped_candidate]) two_columns sample_catalog =
      (remove_column (sample_candidate 1) two_columns, Inl e)"
    unfolding two_sorted by (rule advise_failure [OF first_advised sample_decision e])
  then obtain w where w: "advisor_turn failing_turn failing_worker = Running w" "current (wk_session w) = sample_catalog"
    "wk_table w = remove_column (sample_candidate 1) two_columns" "wk_gucs w = wk_gucs failing_worker"
    "last_lifecycle_run w = last_lifecycle_run failing_worker"
    using failing_turn_returns [OF wf_failing_worker failing_simps(7), of failing_turn] two_used
    by (auto simp: failing_simps two_drained two_selected sample_countable sample_enc)
  have waited: "waited failing_turn failing_worker = failing_worker"
    by (simp add: waited_def failing_turn_def sample_turn_def failing_worker_def worker_start_def set_bgw_pid_def)
  have g: "wf_gucs (wk_gucs failing_worker)" "wf_gucs (wk_gucs w)" using wf_failing_worker w(4) by (simp_all add: wf_worker_def)
  have "advisor_due failing_turn failing_worker" "\<not> lifecycle_due failing_turn w"
    unfolding due_iff(1) [OF g(1)] due_iff(2) [OF g(2)] w(4,5)
    by (simp_all add: failing_worker_def worker_start_def sample_env_def initial_gucs_def failing_turn_def sample_turn_def)
  moreover have "loop_turn failing_turn failing_worker = passes failing_turn failing_worker"
    by (subst quiet_turn) (simp_all add: waited, simp_all add: failing_turn_def sample_turn_def failing_worker_def
        worker_start_def sample_env_def initial_gucs_def)
  ultimately have "loop_turn failing_turn failing_worker = Running w" using w(1) by (simp add: passes_def)
  moreover have "\<not> ShutdownRequestPending failing_worker" using wf_failing_worker by (simp add: wf_worker_def)
  ultimately show thesis using that w(2,3) by simp
qed

theorem worker_state_well_formed_witness:
  "\<exists>w. main_loop [failing_turn] failing_worker = Running w \<and> idle (wk_session w) \<and>
     current (wk_session w) = sample_catalog \<and> wk_table w = remove_column (sample_candidate 1) two_columns"
proof -
  obtain w where w: "main_loop [failing_turn] failing_worker = Running w" "current (wk_session w) = sample_catalog"
    "wk_table w = remove_column (sample_candidate 1) two_columns" by (rule failing_turn_runs)
  have "list_all wf_turn [failing_turn]" by (simp add: wf_turn_def failing_turn_def sample_turn_def)
  from worker_state_well_formed [OF this] wf_failing_worker w(1) have "wf_worker w" by fastforce
  with w show ?thesis by (simp add: wf_worker_def)
qed

end
