(* ===== verification/Postmaster.thy ===== *)
theory Postmaster
  imports Bgworker Worker
begin

section \<open>Starting and restarting background workers (postmaster.c, autoindex.c)\<close>

text \<open>
  How the postmaster starts the registered workers, what it does when one exits, and the
  registration of the AutoIndex worker. The theory shows that registry and shared memory
  stay consistent in every sequence of operations, and when the AutoIndex worker is started
  again. The postmaster's own state changes and its other children are left out, except for
  the state it is in and the flag of a crash.
\<close>

subsection \<open>State\<close>

datatype PMState =
    PM_INIT | PM_STARTUP | PM_RECOVERY | PM_HOT_STANDBY | PM_RUN | PM_STOP_BACKENDS | PM_WAIT_BACKENDS
  | PM_WAIT_XLOG_SHUTDOWN | PM_WAIT_XLOG_ARCHIVAL | PM_WAIT_IO_WORKERS | PM_WAIT_CHECKPOINTER
  | PM_WAIT_DEAD_END | PM_NO_CHILDREN

record postmaster =
  pm_registry :: registry
  pmState :: PMState
  FatalError :: bool
  StartWorkerNeeded :: bool
  HaveCrashedWorker :: bool

subsection \<open>Starting\<close>

text \<open>What becomes of an attempt to launch a child: a child slot or a process may be lacking.\<close>

datatype launch = No_Child_Slot | Fork_Failed | Forked int32

definition StartBackgroundWorker :: "launch \<Rightarrow> TimestampTz \<Rightarrow> nat \<Rightarrow> registry \<Rightarrow> bool \<times> registry" where
  "StartBackgroundWorker attempt now i r =
     (case attempt of
        Forked worker_pid \<Rightarrow> (True, ReportBackgroundWorkerPID i (upd_rw i (\<lambda>rw. rw\<lparr>rw_pid := worker_pid\<rparr>) r))
      | _ \<Rightarrow> (False, upd_rw i (\<lambda>rw. rw\<lparr>rw_crashed_at := now\<rparr>) r))"

definition bgworker_should_start_now :: "PMState \<Rightarrow> BgWorkerStartTime \<Rightarrow> bool" where
  "bgworker_should_start_now state start_time =
     (if state = PM_RUN \<and> start_time = BgWorkerStart_RecoveryFinished then True
      else if (state = PM_RUN \<or> state = PM_HOT_STANDBY) \<and> start_time = BgWorkerStart_ConsistentState then True
      else (state = PM_RUN \<or> state = PM_HOT_STANDBY \<or> state = PM_RECOVERY \<or> state = PM_STARTUP \<or> state = PM_INIT) \<and>
           start_time = BgWorkerStart_PostmasterStart)"

definition MAX_BGWORKERS_TO_LAUNCH :: nat where "MAX_BGWORKERS_TO_LAUNCH = 100"

text \<open>
  The loop over the list: the number of cells that are left, the index of the current one,
  and the number of workers launched, by which the outcomes of the attempts are numbered.
  The product of the restart time is an \<open>int\<close>.
\<close>

fun start_loop :: "(nat \<Rightarrow> launch) \<Rightarrow> TimestampTz \<Rightarrow> nat \<Rightarrow> nat \<Rightarrow> nat \<Rightarrow> postmaster \<Rightarrow> postmaster" where
  "start_loop attempts now 0 i num_launched pm = pm"
| "start_loop attempts now (Suc todo) i num_launched pm =
     (let r = pm_registry pm; rw = BackgroundWorkerList r ! i in
      if rw_pid rw \<noteq> 0 then start_loop attempts now todo (Suc i) num_launched pm
      else if rw_terminate rw then
        start_loop attempts now todo i num_launched (pm\<lparr>pm_registry := ForgetBackgroundWorker i r\<rparr>)
      else if rw_crashed_at rw \<noteq> 0 \<and> bgw_restart_time (rw_worker rw) = BGW_NEVER_RESTART then
        start_loop attempts now todo i num_launched
          (pm\<lparr>pm_registry := notify (bgw_notify_pid (rw_worker rw)) (ForgetBackgroundWorker i r)\<rparr>)
      else if rw_crashed_at rw \<noteq> 0 \<and>
              \<not> TimestampDifferenceExceeds (rw_crashed_at rw) now (bgw_restart_time (rw_worker rw) * 1000) then
        start_loop attempts now todo (Suc i) num_launched (pm\<lparr>HaveCrashedWorker := True\<rparr>)
      else if bgworker_should_start_now (pmState pm) (bgw_start_time (rw_worker rw)) then
        let (started, r) = StartBackgroundWorker (attempts num_launched) now i (upd_rw i (\<lambda>rw. rw\<lparr>rw_crashed_at := 0\<rparr>) r);
            pm = pm\<lparr>pm_registry := r\<rparr>
        in if \<not> started \<or> MAX_BGWORKERS_TO_LAUNCH \<le> Suc num_launched then pm\<lparr>StartWorkerNeeded := True\<rparr>
           else start_loop attempts now todo (Suc i) (Suc num_launched) pm
      else start_loop attempts now todo (Suc i) num_launched pm)"

definition maybe_start_bgworkers :: "(nat \<Rightarrow> launch) \<Rightarrow> TimestampTz \<Rightarrow> postmaster \<Rightarrow> postmaster" where
  "maybe_start_bgworkers attempts now pm =
     (let pm' = pm\<lparr>StartWorkerNeeded := False, HaveCrashedWorker := False\<rparr>
      in if FatalError pm then pm'
         else start_loop attempts now (length (BackgroundWorkerList (pm_registry pm))) 0 0 pm')"

subsection \<open>The exit of a worker\<close>

text \<open>
  How a worker ends: with status 0 or 1, or in any other way, which counts as a crash of the
  server. The list is then left to the reinitialisation.
\<close>

datatype exit_status = Exit_0 | Exit_1 | Crash

definition exit_rw :: "exit_status \<Rightarrow> TimestampTz \<Rightarrow> RegisteredBgWorker \<Rightarrow> RegisteredBgWorker" where
  "exit_rw status now rw =
     (if status = Exit_0 then rw\<lparr>rw_crashed_at := 0, rw_terminate := True, rw_pid := 0\<rparr>
      else rw\<lparr>rw_crashed_at := now, rw_pid := 0\<rparr>)"

definition HandleFatalError :: "postmaster \<Rightarrow> postmaster" where
  "HandleFatalError pm = pm\<lparr>FatalError := True,
     pmState :=
       (if pmState pm \<in> {PM_RECOVERY, PM_HOT_STANDBY, PM_RUN, PM_STOP_BACKENDS} then PM_WAIT_BACKENDS
        else if pmState pm \<in> {PM_WAIT_XLOG_SHUTDOWN, PM_WAIT_XLOG_ARCHIVAL, PM_WAIT_CHECKPOINTER, PM_WAIT_IO_WORKERS}
        then PM_WAIT_DEAD_END
        else pmState pm)\<rparr>"

definition HandleChildCrash :: "bool \<Rightarrow> postmaster \<Rightarrow> postmaster" where
  "HandleChildCrash ImmediateShutdown pm = (if FatalError pm \<or> ImmediateShutdown then pm else HandleFatalError pm)"

definition CleanupBackend :: "bool \<Rightarrow> bool \<Rightarrow> exit_status \<Rightarrow> TimestampTz \<Rightarrow> nat \<Rightarrow> postmaster \<Rightarrow> postmaster" where
  "CleanupBackend ImmediateShutdown bgworker_notify status now i pm =
     (if status = Crash then HandleChildCrash ImmediateShutdown pm
      else
        let r = pm_registry pm;
            r = (if bgworker_notify
                 then BackgroundWorkerStopNotifications (rw_pid (BackgroundWorkerList r ! i)) r else r)
        in pm\<lparr>pm_registry := ReportBackgroundWorkerExit i (upd_rw i (exit_rw status now) r),
              HaveCrashedWorker := True\<rparr>)"

text \<open>The reinitialisation after a crash, when all children are gone, on new memory.\<close>

definition reinitialise :: "BackgroundWorkerSlot list \<Rightarrow> postmaster \<Rightarrow> postmaster" where
  "reinitialise memory pm =
     (if FatalError pm \<and> pmState pm = PM_NO_CHILDREN
      then pm\<lparr>pm_registry := BackgroundWorkerShmemInit memory (ResetBackgroundWorkerCrashTimes (pm_registry pm)),
              pmState := PM_STARTUP\<rparr>
      else pm)"

text \<open>The request of a backend to look at the slots; new workers are refused in a shutdown.\<close>

definition worker_change :: "(int32 \<Rightarrow> bool) \<Rightarrow> (nat \<Rightarrow> bool) \<Rightarrow> postmaster \<Rightarrow> postmaster" where
  "worker_change known alloc pm = pm\<lparr>
     pm_registry := BackgroundWorkerStateChange
       (pmState pm \<in> {PM_INIT, PM_STARTUP, PM_RECOVERY, PM_HOT_STANDBY, PM_RUN}) known alloc (pm_registry pm),
     StartWorkerNeeded := True\<rparr>"

subsection \<open>The AutoIndex worker\<close>

definition autoindex_worker :: BackgroundWorker where
  "autoindex_worker = \<lparr>
     bgw_name = take (BGW_MAXLEN - 1) ''autoindex worker'',
     bgw_type = take (BGW_MAXLEN - 1) ''autoindex worker'',
     bgw_flags = BGWORKER_SHMEM_ACCESS OR BGWORKER_BACKEND_DATABASE_CONNECTION,
     bgw_start_time = BgWorkerStart_RecoveryFinished,
     bgw_restart_time = 10,
     bgw_library_name = take (MAXPGPATH - 1) ''postgres'',
     bgw_function_name = take (BGW_MAXLEN - 1) ''AutoIndexMain'',
     bgw_main_arg = 0, bgw_extra = [], bgw_notify_pid = 0\<rparr>"

definition AutoIndexRegister ::
  "bool \<Rightarrow> configuration \<Rightarrow> bool \<Rightarrow> bool \<Rightarrow> bool \<Rightarrow> gucs \<times> registry \<Rightarrow> (gucs \<times> registry) result" where
  "AutoIndexRegister IsBinaryUpgrade conf IsUnderPostmaster IsPostmasterEnvironment alloc = (\<lambda>(g, r).
     if IsBinaryUpgrade then Inr (g, r)
     else
       let g = autoindex_register_gucs conf
       in bind_res (RegisterBackgroundWorker IsUnderPostmaster IsPostmasterEnvironment alloc autoindex_worker r)
            (\<lambda>r. Inr (g, r)))"

subsection \<open>Sequences of operations\<close>

text \<open>
  What backends and the postmaster do, in any order: requests and terminations, the notice
  of changes, exits of running workers, starts, the cancellation of unstarted workers in a
  shutdown, the reinitialisation, and changes of the postmaster's state for other reasons.
\<close>

datatype pm_op =
    Request uint32 BackgroundWorker
  | Terminate BackgroundWorkerHandle
  | Terminate_Database "int32 \<Rightarrow> Oid option" Oid
  | Notice "int32 \<Rightarrow> bool" "nat \<Rightarrow> bool"
  | Child_Exit bool bool exit_status TimestampTz nat
  | Start "nat \<Rightarrow> launch" TimestampTz
  | Cancel_Unstarted
  | Reinitialise "BackgroundWorkerSlot list"
  | Change_State PMState bool

fun pm_step :: "pm_op \<Rightarrow> postmaster \<Rightarrow> postmaster" where
  "pm_step (Request max_parallel worker) pm =
     (case RegisterDynamicBackgroundWorker True max_parallel worker (pm_registry pm) of
        Inl _ \<Rightarrow> pm
      | Inr (_, r) \<Rightarrow> pm\<lparr>pm_registry := r\<rparr>)"
| "pm_step (Terminate handle) pm = pm\<lparr>pm_registry := TerminateBackgroundWorker handle (pm_registry pm)\<rparr>"
| "pm_step (Terminate_Database database_of db) pm =
     pm\<lparr>pm_registry := TerminateBackgroundWorkersForDatabase database_of db (pm_registry pm)\<rparr>"
| "pm_step (Notice known alloc) pm = worker_change known alloc pm"
| "pm_step (Child_Exit immediate bp_notify status now i) pm = CleanupBackend immediate bp_notify status now i pm"
| "pm_step (Start attempts now) pm = maybe_start_bgworkers attempts now pm"
| "pm_step Cancel_Unstarted pm = pm\<lparr>pm_registry := ForgetUnstartedBackgroundWorkers (pm_registry pm)\<rparr>"
| "pm_step (Reinitialise memory) pm = reinitialise memory pm"
| "pm_step (Change_State state fatal) pm = pm\<lparr>pmState := state, FatalError := fatal\<rparr>"

text \<open>
  The operations that can occur: handles name existing slots, a forked process has a process
  id, only a registered worker exits, and the memory has the size of the array.
\<close>

definition can_occur :: "pm_op \<Rightarrow> postmaster \<Rightarrow> bool" where
  "can_occur p pm =
     (case p of
        Terminate handle \<Rightarrow> handle_slot handle < max_worker_processes (pm_registry pm)
      | Child_Exit immediate bp_notify status now i \<Rightarrow> i < length (BackgroundWorkerList (pm_registry pm))
      | Start attempts now \<Rightarrow> (\<forall>n pid. attempts n = Forked pid \<longrightarrow> pid \<noteq> 0)
      | Reinitialise memory \<Rightarrow> length memory = max_worker_processes (pm_registry pm)
      | _ \<Rightarrow> True)"

inductive pm_reachable :: "nat \<Rightarrow> postmaster \<Rightarrow> postmaster \<Rightarrow> bool" for limit and pm where
  pm_start: "pm_reachable limit pm pm"
| pm_more: "pm_reachable limit pm pm' \<Longrightarrow> can_occur p pm' \<Longrightarrow>
    (\<forall>max_parallel worker. p = Request max_parallel worker \<longrightarrow> unat max_parallel \<le> limit) \<Longrightarrow>
    pm_reachable limit pm (pm_step p pm')"

subsection \<open>The registry stays consistent\<close>

lemma wf_report_exit:
  assumes "wf_registry limit r" and "i < length (BackgroundWorkerList r)"
  shows "wf_registry limit (ReportBackgroundWorkerExit i (upd_rw i (exit_rw status now) r))"
proof -
  let ?rw = "exit_rw status now (BackgroundWorkerList r ! i)"
  let ?r = "change_rw i (exit_rw status now) (\<lambda>slot. slot\<lparr>slot_pid := 0\<rparr>) r"
  have ident: "keeps_identity (BackgroundWorkerList r ! i) ?rw" by (simp add: keeps_identity_def exit_rw_def)
  have pid: "rw_pid ?rw = 0" by (simp add: exit_rw_def)
  have r: "wf_registry limit ?r" using assms ident pid by (intro wf_change) auto
  have forget: "wf_registry limit (ForgetBackgroundWorker i ?r)" using assms(2) by (intro wf_forget [OF r]) simp
  have slot: "rw_shmem_slot ?rw = rw_shmem_slot (BackgroundWorkerList r ! i)" using ident by (simp add: keeps_identity_def)
  have "ReportBackgroundWorkerExit i (upd_rw i (exit_rw status now) r) =
      notify (bgw_notify_pid (rw_worker ?rw))
        (if rw_terminate ?rw \<or> bgw_restart_time (rw_worker ?rw) = BGW_NEVER_RESTART then ForgetBackgroundWorker i ?r else ?r)"
    using assms(2) pid slot by (simp add: ReportBackgroundWorkerExit_def change_rw_def Let_def)
  with r forget show ?thesis by simp
qed

lemma max_keeps [simp]:
  "max_worker_processes (ReportBackgroundWorkerPID i r) = max_worker_processes r"
  "max_worker_processes (ReportBackgroundWorkerExit i r) = max_worker_processes r"
  "max_worker_processes (BackgroundWorkerStopNotifications pid r) = max_worker_processes r"
  "max_worker_processes (TerminateBackgroundWorker handle r) = max_worker_processes r"
  "max_worker_processes (snd (StartBackgroundWorker attempt now i r)) = max_worker_processes r"
  by (simp_all add: ReportBackgroundWorkerPID_def ReportBackgroundWorkerExit_def BackgroundWorkerStopNotifications_def
      TerminateBackgroundWorker_def StartBackgroundWorker_def Let_def split: launch.split)

lemma length_stop_notifications [simp]:
  "length (BackgroundWorkerList (BackgroundWorkerStopNotifications pid r)) = length (BackgroundWorkerList r)"
  by (simp add: BackgroundWorkerStopNotifications_def)

lemma wf_cleanup:
  assumes "wf_registry limit (pm_registry pm)" and "i < length (BackgroundWorkerList (pm_registry pm))"
  shows "wf_registry limit (pm_registry (CleanupBackend immediate bp_notify status now i pm)) \<and>
    max_worker_processes (pm_registry (CleanupBackend immediate bp_notify status now i pm)) =
      max_worker_processes (pm_registry pm)"
  using assms
  by (auto simp: CleanupBackend_def HandleChildCrash_def HandleFatalError_def Let_def
      intro!: wf_report_exit wf_stop_notifications)

lemma wf_start_worker:
  assumes "wf_registry limit r" and "i < length (BackgroundWorkerList r)" and "rw_pid (BackgroundWorkerList r ! i) = 0"
    and "\<And>pid. attempt = Forked pid \<Longrightarrow> pid \<noteq> 0"
  shows "wf_registry limit (snd (StartBackgroundWorker attempt now i r))"
proof (cases attempt)
  case (Forked pid)
  let ?f = "\<lambda>rw. rw\<lparr>rw_pid := pid\<rparr>"
  have ident: "keeps_identity (BackgroundWorkerList r ! i) (?f (BackgroundWorkerList r ! i))" by (simp add: keeps_identity_def)
  have "wf_registry limit (change_rw i ?f (\<lambda>slot. slot\<lparr>slot_pid := pid\<rparr>) r)"
    using assms(1,2,4) Forked ident by (intro wf_change) auto
  then show ?thesis using Forked report_pid_change [OF assms(2), of ?f, OF ident] by (simp add: StartBackgroundWorker_def)
qed (use assms in \<open>auto simp: StartBackgroundWorker_def keeps_identity_def intro!: wf_upd_rw\<close>)

lemma length_start_worker [simp]:
  "length (BackgroundWorkerList (snd (StartBackgroundWorker attempt now i r))) = length (BackgroundWorkerList r)"
  by (simp add: StartBackgroundWorker_def ReportBackgroundWorkerPID_def Let_def split: launch.split)

lemma wf_start_loop:
  assumes attempts: "\<And>n pid. attempts n = Forked pid \<Longrightarrow> pid \<noteq> 0"
    and "wf_registry limit (pm_registry pm)" and "i + todo \<le> length (BackgroundWorkerList (pm_registry pm))"
  shows "wf_registry limit (pm_registry (start_loop attempts now todo i n pm)) \<and>
    max_worker_processes (pm_registry (start_loop attempts now todo i n pm)) = max_worker_processes (pm_registry pm)"
  using assms(2,3)
proof (induction todo arbitrary: i n pm)
  case (Suc todo)
  let ?r = "pm_registry pm"
  let ?rw = "BackgroundWorkerList ?r ! i"
  let ?reset = "upd_rw i (\<lambda>rw. rw\<lparr>rw_crashed_at := 0\<rparr>) ?r"
  have i: "i < length (BackgroundWorkerList ?r)" using Suc.prems(2) by simp
  define P where "P pm' \<longleftrightarrow> wf_registry limit (pm_registry pm') \<and>
    max_worker_processes (pm_registry pm') = max_worker_processes ?r" for pm' :: postmaster
  have skip: "P (start_loop attempts now todo (Suc i) n pm')" if "pm_registry pm' = ?r" for pm'
    unfolding P_def using Suc.IH [of pm' "Suc i" n] Suc.prems that by simp
  have forget: "P (start_loop attempts now todo i n (pm\<lparr>pm_registry := ForgetBackgroundWorker i ?r\<rparr>))"
    "P (start_loop attempts now todo i n (pm\<lparr>pm_registry := notify pid (ForgetBackgroundWorker i ?r)\<rparr>))" for pid
    unfolding P_def
    using Suc.IH [of "pm\<lparr>pm_registry := ForgetBackgroundWorker i ?r\<rparr>" i n]
      Suc.IH [of "pm\<lparr>pm_registry := notify pid (ForgetBackgroundWorker i ?r)\<rparr>" i n] Suc.prems i wf_forget [OF Suc.prems(1) i]
    by simp_all
  obtain started r' where st: "StartBackgroundWorker (attempts n) now i ?reset = (started, r')" by fastforce
  have len: "length (BackgroundWorkerList r') = length (BackgroundWorkerList ?r)" "max_worker_processes r' = max_worker_processes ?r"
    using length_start_worker [of "attempts n" now i ?reset] max_keeps(5) [of "attempts n" now i ?reset] st by simp_all
  have "wf_registry limit ?reset" using Suc.prems(1) i by (intro wf_upd_rw) (auto simp: keeps_identity_def)
  then have r': "wf_registry limit r'" if "rw_pid ?rw = 0"
    using wf_start_worker [of limit ?reset i "attempts n" now] st i that attempts by auto
  have launch: "P (start_loop attempts now todo (Suc i) (Suc n) (pm\<lparr>pm_registry := r'\<rparr>))"
    "P (pm\<lparr>pm_registry := r', StartWorkerNeeded := True\<rparr>)" if "rw_pid ?rw = 0"
    unfolding P_def using Suc.IH [of "pm\<lparr>pm_registry := r'\<rparr>" "Suc i" "Suc n"] r' [OF that] len Suc.prems by simp_all
  have "P (start_loop attempts now (Suc todo) i n pm)"
    using skip forget launch st by (simp add: Let_def del: upd_rw_simps)
  then show ?case by (simp only: P_def)
qed simp

lemma wf_maybe_start:
  assumes "\<And>n pid. attempts n = Forked pid \<Longrightarrow> pid \<noteq> 0" and "wf_registry limit (pm_registry pm)"
  shows "wf_registry limit (pm_registry (maybe_start_bgworkers attempts now pm)) \<and>
    max_worker_processes (pm_registry (maybe_start_bgworkers attempts now pm)) = max_worker_processes (pm_registry pm)"
proof -
  let ?pm = "pm\<lparr>StartWorkerNeeded := False, HaveCrashedWorker := False\<rparr>"
  show ?thesis
    using wf_start_loop [of attempts limit ?pm 0 "length (BackgroundWorkerList (pm_registry pm))" now 0] assms
    by (simp add: maybe_start_bgworkers_def Let_def)
qed

lemma wf_reinitialise:
  assumes "wf_registry limit (pm_registry pm)" and "length memory = max_worker_processes (pm_registry pm)"
  shows "wf_registry limit (pm_registry (reinitialise memory pm)) \<and>
    max_worker_processes (pm_registry (reinitialise memory pm)) = max_worker_processes (pm_registry pm)"
proof -
  let ?r = "pm_registry pm"
  let ?reset = "ResetBackgroundWorkerCrashTimes ?r"
  obtain d where d: "wf_array limit (max_worker_processes ?r) d" "wf_list d (BackgroundWorkerList ?r)"
    "length (slots d) = max_worker_processes ?r"
    using wf_registryE [OF assms(1)] by blast
  have par: "\<not> has_flag BGWORKER_CLASS_PARALLEL (rw_worker rw)" if "rw \<in> set (BackgroundWorkerList ?r)" "may_restart rw" for rw
  proof -
    let ?slot = "slots d ! rw_shmem_slot rw"
    have m: "rw_matches d rw" using d(2) that(1) by (simp add: wf_list_def)
    then have "?slot \<in> set (slots d)" "in_use ?slot" "bgw_flags (slot_worker ?slot) = bgw_flags (rw_worker rw)"
      "bgw_restart_time (slot_worker ?slot) = bgw_restart_time (rw_worker rw)"
      by (auto simp: rw_matches_def Let_def)
    with d(1) that(2) show ?thesis unfolding wf_array_def may_restart_def is_parallel_def has_flag_def by metis
  qed
  have "length (BackgroundWorkerList ?r) \<le> length (slots d)"
  proof -
    have "rw_shmem_slot ` set (BackgroundWorkerList ?r) \<subseteq> {..<length (slots d)}"
      using d(2) by (auto simp: wf_list_def rw_matches_def)
    then have "card (set (map rw_shmem_slot (BackgroundWorkerList ?r))) \<le> length (slots d)"
      by (metis card_lessThan card_mono finite_lessThan list.set_map)
    with d(2) show ?thesis by (simp add: wf_list_def distinct_card del: set_map)
  qed
  then have "length (BackgroundWorkerList ?reset) \<le> max_worker_processes ?reset"
    unfolding list_reset_crash_times length_map
    using d(3) length_filter_le [of may_restart "BackgroundWorkerList ?r"] by linarith
  moreover have "\<forall>rw \<in> set (BackgroundWorkerList ?reset). \<not> has_flag BGWORKER_CLASS_PARALLEL (rw_worker rw) \<and> rw_pid rw = 0"
    using par by (auto simp: list_reset_crash_times reset_rw_def has_flag_def)
  ultimately have "wf_registry limit (BackgroundWorkerShmemInit memory ?reset) \<and>
      max_worker_processes (BackgroundWorkerShmemInit memory ?reset) = max_worker_processes ?reset"
    using assms(2) by (intro wf_bgw_shmem_init) (auto simp: list_reset_crash_times)
  then show ?thesis using assms(1) by (simp add: reinitialise_def list_reset_crash_times)
qed

lemma max_forget_unstarted: "max_worker_processes (ForgetUnstartedBackgroundWorkers r) = max_worker_processes r"
proof -
  have "max_worker_processes (forget_unstarted_loop todo i r) = max_worker_processes r" for todo i
    by (induction todo i r rule: forget_unstarted_loop.induct) (auto simp: Let_def)
  then show ?thesis by (simp add: ForgetUnstartedBackgroundWorkers_def)
qed

lemma wf_worker_change:
  "wf_registry limit (pm_registry pm) \<Longrightarrow>
   wf_registry limit (pm_registry (worker_change known alloc pm)) \<and>
   max_worker_processes (pm_registry (worker_change known alloc pm)) = max_worker_processes (pm_registry pm)"
  by (simp add: worker_change_def BackgroundWorkerStateChange_def wf_state_change_loop)

lemma wf_request:
  assumes "wf_registry limit (pm_registry pm)" and "max_worker_processes (pm_registry pm) < 2 ^ 32" and "unat m \<le> limit"
  shows "wf_registry limit (pm_registry (pm_step (Request m worker) pm)) \<and>
    max_worker_processes (pm_registry (pm_step (Request m worker) pm)) = max_worker_processes (pm_registry pm)"
  using wf_register_dynamic [OF assms(1) _ assms(2,3)] assms(1)
  by (cases "RegisterDynamicBackgroundWorker True m worker (pm_registry pm)") (auto split: prod.splits)

lemma wf_pm_step:
  assumes "wf_registry limit (pm_registry pm)" and "can_occur p pm" and "max_worker_processes (pm_registry pm) < 2 ^ 32"
    and "\<forall>m worker. p = Request m worker \<longrightarrow> unat m \<le> limit"
  shows "wf_registry limit (pm_registry (pm_step p pm)) \<and>
    max_worker_processes (pm_registry (pm_step p pm)) = max_worker_processes (pm_registry pm)"
proof (cases p)
  case (Request m worker)
  with wf_request assms show ?thesis by blast
next
  case (Child_Exit immediate bp_notify status now i)
  with wf_cleanup assms(1,2) show ?thesis by (simp add: can_occur_def)
next
  case (Start attempts now)
  with wf_maybe_start [of attempts limit pm now] assms(1,2) show ?thesis by (simp add: can_occur_def)
next
  case (Reinitialise memory)
  with wf_reinitialise assms(1,2) show ?thesis by (simp add: can_occur_def)
qed (use assms(1,2) in \<open>auto simp: can_occur_def wf_terminate wf_terminate_database wf_worker_change wf_forget_unstarted max_forget_unstarted\<close>)

lemma wf_reachable:
  assumes "pm_reachable limit pm pm'" and "wf_registry limit (pm_registry pm)"
    and "max_worker_processes (pm_registry pm) < 2 ^ 32"
  shows "wf_registry limit (pm_registry pm') \<and> max_worker_processes (pm_registry pm') = max_worker_processes (pm_registry pm)"
  using assms(1)
proof induction
  case (pm_more pm' p)
  with wf_pm_step [of limit pm' p] assms(2,3) show ?case by simp
qed (use assms in simp)

text \<open>The static registrations at the start of the postmaster, before shared memory exists.\<close>

definition empty_registry :: "nat \<Rightarrow> registry" where
  "empty_registry n = \<lparr>BackgroundWorkerList = [], BackgroundWorkerData = None, numworkers = 0,
     max_worker_processes = n, kills = []\<rparr>"

definition register_static :: "BackgroundWorker \<Rightarrow> registry \<Rightarrow> registry" where
  "register_static worker r =
     (case RegisterBackgroundWorker False True True worker r of Inl _ \<Rightarrow> r | Inr r' \<Rightarrow> r')"

definition static_ok :: "nat \<Rightarrow> registry \<Rightarrow> bool" where
  "static_ok n r \<longleftrightarrow> BackgroundWorkerData r = None \<and> max_worker_processes r = n \<and>
     length (BackgroundWorkerList r) \<le> numworkers r \<and> length (BackgroundWorkerList r) \<le> n \<and>
     (\<forall>rw \<in> set (BackgroundWorkerList r). \<not> has_flag BGWORKER_CLASS_PARALLEL (rw_worker rw) \<and> rw_pid rw = 0)"

lemma register_static_ok:
  assumes "static_ok n r" and "\<not> has_flag BGWORKER_CLASS_PARALLEL worker"
  shows "static_ok n (register_static worker r)"
proof (cases "SanityCheckBackgroundWorker worker")
  case (Inr worker')
  then have "\<not> has_flag BGWORKER_CLASS_PARALLEL worker'"
    using sanity_check_parallel [OF Inr] assms(2) by (simp add: has_flag_def)
  with Inr assms(1) show ?thesis
    by (auto simp: register_static_def RegisterBackgroundWorker_def static_ok_def Let_def)
qed (use assms in \<open>simp add: register_static_def RegisterBackgroundWorker_def static_ok_def\<close>)

lemma static_registrations_ok:
  "\<forall>w \<in> set ws. \<not> has_flag BGWORKER_CLASS_PARALLEL w \<Longrightarrow> static_ok n r \<Longrightarrow> static_ok n (fold register_static ws r)"
  by (induction ws arbitrary: r) (auto simp: register_static_ok)

subsection \<open>Restart\<close>

text \<open>The loop leaves the cells before the current one alone and does not withdraw the request to come back.\<close>

lemma start_loop_prefix:
  assumes "p < i" and "i + todo \<le> length (BackgroundWorkerList (pm_registry pm))"
  shows "p < length (BackgroundWorkerList (pm_registry (start_loop attempts now todo i n pm))) \<and>
    BackgroundWorkerList (pm_registry (start_loop attempts now todo i n pm)) ! p = BackgroundWorkerList (pm_registry pm) ! p"
  using assms
proof (induction todo arbitrary: i n pm)
  case (Suc todo)
  let ?r = "pm_registry pm"
  define P where "P pm' \<longleftrightarrow> p < length (BackgroundWorkerList (pm_registry pm')) \<and>
    BackgroundWorkerList (pm_registry pm') ! p = BackgroundWorkerList ?r ! p" for pm' :: postmaster
  let ?reset = "upd_rw i (\<lambda>rw. rw\<lparr>rw_crashed_at := 0\<rparr>) ?r"
  obtain started r' where st: "StartBackgroundWorker (attempts n) now i ?reset = (started, r')" by fastforce
  have skip: "P (start_loop attempts now todo (Suc i) m pm')"
    if "BackgroundWorkerList (pm_registry pm') ! p = BackgroundWorkerList ?r ! p"
      "length (BackgroundWorkerList (pm_registry pm')) = length (BackgroundWorkerList ?r)" for pm' m
    unfolding P_def using Suc.IH [of "Suc i" pm' m] Suc.prems that by simp
  have forget: "P (start_loop attempts now todo i n (pm\<lparr>pm_registry := ForgetBackgroundWorker i ?r\<rparr>))"
    "P (start_loop attempts now todo i n (pm\<lparr>pm_registry := notify pid (ForgetBackgroundWorker i ?r)\<rparr>))" for pid
    unfolding P_def using Suc.IH [of i "pm\<lparr>pm_registry := ForgetBackgroundWorker i ?r\<rparr>" n]
      Suc.IH [of i "pm\<lparr>pm_registry := notify pid (ForgetBackgroundWorker i ?r)\<rparr>" n] Suc.prems
    by (auto simp: list_forget nth_append)
  have r': "BackgroundWorkerList r' ! p = BackgroundWorkerList ?r ! p"
    "length (BackgroundWorkerList r') = length (BackgroundWorkerList ?r)"
    using st Suc.prems(1) by (auto simp: StartBackgroundWorker_def ReportBackgroundWorkerPID_def Let_def split: launch.splits)
  then have launch: "P (start_loop attempts now todo (Suc i) (Suc n) (pm\<lparr>pm_registry := r'\<rparr>))"
    "P (pm\<lparr>pm_registry := r', StartWorkerNeeded := True\<rparr>)"
    using skip [of "pm\<lparr>pm_registry := r'\<rparr>" "Suc n"] Suc.prems unfolding P_def by simp_all
  have "P (start_loop attempts now (Suc todo) i n pm)"
    using skip forget launch st by (simp add: Let_def del: upd_rw_simps)
  then show ?case by (simp only: P_def)
qed simp

lemma start_loop_crashed: "HaveCrashedWorker pm \<Longrightarrow> HaveCrashedWorker (start_loop attempts now todo i n pm)"
  by (induction attempts now todo i n pm rule: start_loop.induct) (auto simp: Let_def split: prod.splits)

definition waiting :: "TimestampTz \<Rightarrow> RegisteredBgWorker \<Rightarrow> bool" where
  "waiting t rw \<longleftrightarrow> rw_worker rw = autoindex_worker \<and> rw_pid rw = 0 \<and> \<not> rw_terminate rw \<and> rw_crashed_at rw = t"

definition restarted :: "TimestampTz \<Rightarrow> TimestampTz \<Rightarrow> nat \<Rightarrow> postmaster \<Rightarrow> bool" where
  "restarted t now k pm \<longleftrightarrow>
     (\<exists>rw \<in> set (BackgroundWorkerList (pm_registry pm)). rw_worker rw = autoindex_worker \<and> rw_shmem_slot rw = k \<and>
        (if 10000000 \<le> sint (now - t) then rw_pid rw \<noteq> 0 else waiting t rw \<and> HaveCrashedWorker pm))"

lemma autoindex_worker_times: "bgw_restart_time autoindex_worker \<noteq> BGW_NEVER_RESTART"
  "TimestampDifferenceExceeds t now (bgw_restart_time autoindex_worker * 1000) \<longleftrightarrow> 10000000 \<le> sint (now - t)"
  "bgworker_should_start_now PM_RUN (bgw_start_time autoindex_worker)"
  by (simp_all add: autoindex_worker_def BGW_NEVER_RESTART_def TimestampDifferenceExceeds_def bgworker_should_start_now_def)

lemma restart_cell:
  assumes "\<And>m. \<exists>pid. attempts m = Forked pid \<and> pid \<noteq> 0" and "t \<noteq> 0"
    and "i + Suc todo \<le> length (BackgroundWorkerList (pm_registry pm))" and "Suc n + todo < MAX_BGWORKERS_TO_LAUNCH"
    and "pmState pm = PM_RUN" and "waiting t (BackgroundWorkerList (pm_registry pm) ! i)"
  shows "restarted t now (rw_shmem_slot (BackgroundWorkerList (pm_registry pm) ! i)) (start_loop attempts now (Suc todo) i n pm)"
proof -
  let ?r = "pm_registry pm"
  let ?rw = "BackgroundWorkerList ?r ! i"
  have rw: "rw_worker ?rw = autoindex_worker" "rw_pid ?rw = 0" "\<not> rw_terminate ?rw" "rw_crashed_at ?rw = t"
    using assms(6) by (simp_all add: waiting_def)
  show ?thesis
  proof (cases "10000000 \<le> sint (now - t)")
    case False
    let ?pm = "pm\<lparr>HaveCrashedWorker := True\<rparr>"
    let ?last = "start_loop attempts now todo (Suc i) n ?pm"
    have "start_loop attempts now (Suc todo) i n pm = ?last"
      using False rw assms(2) autoindex_worker_times by (simp add: Let_def)
    moreover have "i < length (BackgroundWorkerList (pm_registry ?last))" "BackgroundWorkerList (pm_registry ?last) ! i = ?rw"
      using start_loop_prefix [of i "Suc i" todo ?pm attempts now n] assms(3) by simp_all
    moreover have "HaveCrashedWorker ?last" by (rule start_loop_crashed) simp
    ultimately show ?thesis using False assms(6) rw(1) unfolding restarted_def by (metis nth_mem)
  next
    case True
    obtain pid where pid: "attempts n = Forked pid" "pid \<noteq> 0" using assms(1) by blast
    let ?cell = "?rw\<lparr>rw_crashed_at := 0, rw_pid := pid\<rparr>"
    obtain r' where r': "StartBackgroundWorker (attempts n) now i (upd_rw i (\<lambda>rw. rw\<lparr>rw_crashed_at := 0\<rparr>) ?r) = (True, r')"
      "BackgroundWorkerList r' = (BackgroundWorkerList ?r)[i := ?cell]"
      using assms(3) by (simp add: StartBackgroundWorker_def pid ReportBackgroundWorkerPID_def Let_def)
    let ?last = "start_loop attempts now todo (Suc i) (Suc n) (pm\<lparr>pm_registry := r'\<rparr>)"
    have "start_loop attempts now (Suc todo) i n pm = ?last"
      using True rw assms(2,4,5) autoindex_worker_times r'(1) by (simp add: Let_def del: upd_rw_simps)
    moreover have "i < length (BackgroundWorkerList (pm_registry ?last))" "BackgroundWorkerList (pm_registry ?last) ! i = ?cell"
      using start_loop_prefix [of i "Suc i" todo "pm\<lparr>pm_registry := r'\<rparr>" attempts now "Suc n"] assms(3) r'(2) by simp_all
    moreover have "rw_worker ?cell = autoindex_worker" "rw_shmem_slot ?cell = rw_shmem_slot ?rw" "rw_pid ?cell \<noteq> 0"
      using rw(1) pid(2) by simp_all
    ultimately show ?thesis using True unfolding restarted_def by (metis nth_mem)
  qed
qed

lemma restart_in_loop:
  assumes "\<And>m. \<exists>pid. attempts m = Forked pid \<and> pid \<noteq> 0" and "t \<noteq> 0"
    and "i + todo \<le> length (BackgroundWorkerList (pm_registry pm))" and "n + todo < MAX_BGWORKERS_TO_LAUNCH"
    and "pmState pm = PM_RUN" and "p < todo" and "waiting t (BackgroundWorkerList (pm_registry pm) ! (i + p))"
  shows "restarted t now (rw_shmem_slot (BackgroundWorkerList (pm_registry pm) ! (i + p))) (start_loop attempts now todo i n pm)"
  using assms(3-7)
proof (induction todo arbitrary: i n p pm)
  case (Suc todo)
  let ?r = "pm_registry pm"
  let ?cell = "BackgroundWorkerList ?r ! (i + p)"
  show ?case
  proof (cases p)
    case 0
    with restart_cell [OF assms(1,2), of i todo pm n now] Suc.prems show ?thesis by simp
  next
    case (Suc q)
    define P where "P pm' \<longleftrightarrow> restarted t now (rw_shmem_slot ?cell) pm'" for pm' :: postmaster
    let ?reset = "upd_rw i (\<lambda>rw. rw\<lparr>rw_crashed_at := 0\<rparr>) ?r"
    obtain pid where pid: "attempts n = Forked pid" using assms(1) by blast
    obtain r' where st: "StartBackgroundWorker (attempts n) now i ?reset = (True, r')"
      by (simp add: StartBackgroundWorker_def pid)
    have skip: "P (start_loop attempts now todo (Suc i) m pm')"
      if "BackgroundWorkerList (pm_registry pm') ! (i + p) = ?cell" "pmState pm' = PM_RUN"
        "length (BackgroundWorkerList (pm_registry pm')) = length (BackgroundWorkerList ?r)" "m \<le> Suc n" for pm' m
      unfolding P_def using Suc.IH [of "Suc i" pm' m q] Suc.prems Suc that by simp
    have forget: "P (start_loop attempts now todo i n (pm\<lparr>pm_registry := ForgetBackgroundWorker i ?r\<rparr>))"
      "P (start_loop attempts now todo i n (pm\<lparr>pm_registry := notify pid (ForgetBackgroundWorker i ?r)\<rparr>))" for pid
      unfolding P_def using Suc.IH [of i "pm\<lparr>pm_registry := ForgetBackgroundWorker i ?r\<rparr>" n q]
        Suc.IH [of i "pm\<lparr>pm_registry := notify pid (ForgetBackgroundWorker i ?r)\<rparr>" n q] Suc.prems Suc
      by (auto simp: list_forget nth_append)
    have "BackgroundWorkerList r' ! (i + p) = ?cell" "length (BackgroundWorkerList r') = length (BackgroundWorkerList ?r)"
      using st Suc by (auto simp: StartBackgroundWorker_def ReportBackgroundWorkerPID_def Let_def pid)
    then have launch: "P (start_loop attempts now todo (Suc i) (Suc n) (pm\<lparr>pm_registry := r'\<rparr>))"
      using skip [of "pm\<lparr>pm_registry := r'\<rparr>" "Suc n"] Suc.prems by simp
    have few: "\<not> MAX_BGWORKERS_TO_LAUNCH \<le> Suc n" using Suc.prems(2) by simp
    have "P (start_loop attempts now (Suc todo) i n pm)"
      using skip forget launch st few Suc.prems(3) by (simp add: Let_def del: upd_rw_simps)
    then show ?thesis by (simp only: P_def)
  qed
qed simp

lemma cleanup_waiting:
  fixes pm :: postmaster and t :: TimestampTz and immediate bp_notify :: bool
  assumes "i < length (BackgroundWorkerList (pm_registry pm))"
    and "rw_worker (BackgroundWorkerList (pm_registry pm) ! i) = autoindex_worker"
    and "rw_pid (BackgroundWorkerList (pm_registry pm) ! i) \<noteq> 0"
    and "\<not> rw_terminate (BackgroundWorkerList (pm_registry pm) ! i)"
  defines "pm' \<equiv> CleanupBackend immediate bp_notify Exit_1 t i pm"
  shows "waiting t (BackgroundWorkerList (pm_registry pm') ! i)"
    and "rw_shmem_slot (BackgroundWorkerList (pm_registry pm') ! i) = rw_shmem_slot (BackgroundWorkerList (pm_registry pm) ! i)"
    and "length (BackgroundWorkerList (pm_registry pm')) = length (BackgroundWorkerList (pm_registry pm))"
    and "pmState pm' = pmState pm" and "FatalError pm' = FatalError pm"
proof -
  let ?r = "pm_registry pm"
  let ?rw = "BackgroundWorkerList ?r ! i"
  define r1 where "r1 = (if bp_notify then BackgroundWorkerStopNotifications (rw_pid ?rw) ?r else ?r)"
  have r1: "BackgroundWorkerList r1 ! i = ?rw" "length (BackgroundWorkerList r1) = length (BackgroundWorkerList ?r)"
    using assms(1-3) by (auto simp: r1_def BackgroundWorkerStopNotifications_def autoindex_worker_def)
  have "BackgroundWorkerList (ReportBackgroundWorkerExit i (upd_rw i (exit_rw Exit_1 t) r1)) =
      (BackgroundWorkerList r1)[i := exit_rw Exit_1 t ?rw]"
    using assms(1,2,4) r1 autoindex_worker_times(1) by (simp add: ReportBackgroundWorkerExit_def exit_rw_def Let_def)
  then have "BackgroundWorkerList (pm_registry pm') = (BackgroundWorkerList r1)[i := exit_rw Exit_1 t ?rw]"
    by (simp add: pm'_def CleanupBackend_def r1_def Let_def)
  with assms(1,2,4) r1 show "waiting t (BackgroundWorkerList (pm_registry pm') ! i)"
    "rw_shmem_slot (BackgroundWorkerList (pm_registry pm') ! i) = rw_shmem_slot ?rw"
    "length (BackgroundWorkerList (pm_registry pm')) = length (BackgroundWorkerList ?r)"
    by (simp_all add: waiting_def exit_rw_def)
  show "pmState pm' = pmState pm" "FatalError pm' = FatalError pm" by (simp_all add: pm'_def CleanupBackend_def Let_def)
qed

lemma cleanup_exit_0:
  assumes "i < length (BackgroundWorkerList (pm_registry pm))"
  shows "BackgroundWorkerList (pm_registry (CleanupBackend immediate False Exit_0 t i pm)) =
    take i (BackgroundWorkerList (pm_registry pm)) @ drop (Suc i) (BackgroundWorkerList (pm_registry pm))"
  using assms by (simp add: CleanupBackend_def ReportBackgroundWorkerExit_def exit_rw_def list_forget Let_def)

subsection \<open>Properties\<close>

text \<open>
  C14: In every sequence of requests, terminations, starts, exits and reinitialisations that
  begins with static registrations of workers that are not parallel workers, list and array
  agree: no two cells share a slot, the slot of a cell is in use and shows the process id of
  a running worker. The difference of the two unsigned counters is the number of parallel
  workers, and this never exceeds the limit under which they were requested. A handle
  that is reported as started belongs to a running worker with the reported process id.
\<close>

theorem bgworker_registry_consistent:
  assumes "\<forall>w \<in> set ws. \<not> has_flag BGWORKER_CLASS_PARALLEL w" and "length memory = n" and "n < 2 ^ 32"
    and "pm_registry pm0 = BackgroundWorkerShmemInit memory (fold register_static ws (empty_registry n))"
    and "pm_reachable limit pm0 pm"
  shows "\<exists>d. BackgroundWorkerData (pm_registry pm) = Some d \<and>
    distinct (map rw_shmem_slot (BackgroundWorkerList (pm_registry pm))) \<and>
    (\<forall>rw \<in> set (BackgroundWorkerList (pm_registry pm)).
       in_use (slots d ! rw_shmem_slot rw) \<and> (rw_pid rw \<noteq> 0 \<longrightarrow> slot_pid (slots d ! rw_shmem_slot rw) = rw_pid rw)) \<and>
    parallel_register_count d - parallel_terminate_count d = of_nat (length (filter is_parallel (slots d))) \<and>
    length (filter is_parallel (slots d)) \<le> limit \<and>
    (\<forall>handle pid. handle_slot handle < n \<and> GetBackgroundWorkerPid handle (pm_registry pm) = BGWH_STARTED pid \<longrightarrow>
       (\<exists>rw \<in> set (BackgroundWorkerList (pm_registry pm)). rw_shmem_slot rw = handle_slot handle \<and> rw_pid rw = pid))"
proof -
  let ?r = "pm_registry pm"
  have "static_ok n (empty_registry n)" by (simp add: static_ok_def empty_registry_def)
  then have ok: "static_ok n (fold register_static ws (empty_registry n))" using static_registrations_ok [OF assms(1)] by blast
  then have "wf_registry limit (pm_registry pm0) \<and> max_worker_processes (pm_registry pm0) = n"
    using wf_bgw_shmem_init [of memory "fold register_static ws (empty_registry n)" limit] assms(2)
    unfolding assms(4) static_ok_def by simp
  with wf_reachable [OF assms(5)] assms(3) have r: "wf_registry limit ?r" "max_worker_processes ?r = n" by auto
  then obtain d where d: "BackgroundWorkerData ?r = Some d" "wf_array limit n d" "wf_list d (BackgroundWorkerList ?r)"
    "length (slots d) = n"
    using wf_registryE by blast
  have rw: "in_use (slots d ! rw_shmem_slot rw) \<and> (if rw_pid rw = 0 then slot_pid (slots d ! rw_shmem_slot rw) = 0 \<or>
      slot_pid (slots d ! rw_shmem_slot rw) = InvalidPid else slot_pid (slots d ! rw_shmem_slot rw) = rw_pid rw)"
    if "rw \<in> set (BackgroundWorkerList ?r)" for rw
    using d(3) that by (auto simp: wf_list_def rw_matches_def Let_def)
  have "\<exists>rw \<in> set (BackgroundWorkerList ?r). rw_shmem_slot rw = handle_slot handle \<and> rw_pid rw = pid"
    if "handle_slot handle < n" "GetBackgroundWorkerPid handle ?r = BGWH_STARTED pid" for handle pid
  proof -
    let ?slot = "slots d ! handle_slot handle"
    have slot: "in_use ?slot" "slot_pid ?slot = pid" "pid \<noteq> 0" "pid \<noteq> InvalidPid"
      using that(2) d(1) by (auto simp: GetBackgroundWorkerPid_def Let_def split: if_splits)
    with d(3,4) that(1) have "handle_slot handle \<in> rw_shmem_slot ` set (BackgroundWorkerList ?r)"
      by (auto simp: wf_list_def unregistered_ok_def)
    then obtain rw' where "rw' \<in> set (BackgroundWorkerList ?r)" "rw_shmem_slot rw' = handle_slot handle" by auto
    with rw [of rw'] slot show ?thesis by (auto split: if_splits)
  qed
  with d rw show ?thesis by (auto simp: wf_array_def wf_list_def parallel_slots_def split: if_splits)
qed

text \<open>
  C15: The AutoIndex worker is registered unless the server has too many workers, and its
  entry point is the main function of the server. When it exits with status 1, as after a
  request to terminate, the postmaster keeps it and starts it again, in its slot, as soon as
  ten seconds have passed and not before; until then it remembers to come back. An exit
  with status 0 would remove it for good.
\<close>

theorem autoindex_worker_restarts:
  fixes pm :: postmaster and r :: registry
  assumes "BackgroundWorkerData r = None" and "numworkers r < max_worker_processes r"
    and "i < length (BackgroundWorkerList (pm_registry pm))"
    and "rw_worker (BackgroundWorkerList (pm_registry pm) ! i) = autoindex_worker"
    and "rw_pid (BackgroundWorkerList (pm_registry pm) ! i) \<noteq> 0"
    and "\<not> rw_terminate (BackgroundWorkerList (pm_registry pm) ! i)"
    and "length (BackgroundWorkerList (pm_registry pm)) < MAX_BGWORKERS_TO_LAUNCH"
    and "pmState pm = PM_RUN" and "\<not> FatalError pm" and "t \<noteq> 0"
    and "\<And>m. \<exists>pid. attempts m = Forked pid \<and> pid \<noteq> 0"
  shows "AutoIndexRegister False conf False True True (g, r) =
      Inr (autoindex_register_gucs conf, r\<lparr>numworkers := numworkers r + 1, BackgroundWorkerList :=
        \<lparr>rw_worker = autoindex_worker, rw_pid = 0, rw_crashed_at = 0, rw_shmem_slot = 0, rw_terminate = False\<rparr> #
        BackgroundWorkerList r\<rparr>) \<and>
    LookupBackgroundWorkerFunction (bgw_library_name autoindex_worker) (bgw_function_name autoindex_worker) =
      Inr (Internal ''AutoIndexMain'') \<and>
    (let pm' = maybe_start_bgworkers attempts now (CleanupBackend immediate bp_notify Exit_1 t i pm) in
     \<exists>rw \<in> set (BackgroundWorkerList (pm_registry pm')).
       rw_worker rw = autoindex_worker \<and> rw_shmem_slot rw = rw_shmem_slot (BackgroundWorkerList (pm_registry pm) ! i) \<and>
       (if 10000000 \<le> sint (now - t) then rw_pid rw \<noteq> 0
        else rw_pid rw = 0 \<and> rw_crashed_at rw = t \<and> HaveCrashedWorker pm')) \<and>
    BackgroundWorkerList (pm_registry (CleanupBackend immediate False Exit_0 t i pm)) =
      take i (BackgroundWorkerList (pm_registry pm)) @ drop (Suc i) (BackgroundWorkerList (pm_registry pm))"
proof -
  let ?pm = "CleanupBackend immediate bp_notify Exit_1 t i pm"
  note cl = cleanup_waiting [OF assms(3-6), where t = t and immediate = immediate and bp_notify = bp_notify]
  let ?pm1 = "?pm\<lparr>StartWorkerNeeded := False, HaveCrashedWorker := False\<rparr>"
  have "restarted t now (rw_shmem_slot (BackgroundWorkerList (pm_registry ?pm1) ! (0 + i)))
      (start_loop attempts now (length (BackgroundWorkerList (pm_registry ?pm))) 0 0 ?pm1)"
    using assms(3,7,8) cl by (intro restart_in_loop [OF assms(11,10)]) auto
  then have "restarted t now (rw_shmem_slot (BackgroundWorkerList (pm_registry pm) ! i)) (maybe_start_bgworkers attempts now ?pm)"
    using assms(9) cl by (simp add: maybe_start_bgworkers_def)
  moreover have "SanityCheckBackgroundWorker autoindex_worker = Inr autoindex_worker"
    by (simp add: SanityCheckBackgroundWorker_def autoindex_worker_def has_flag_def BGWORKER_SHMEM_ACCESS_def
        BGWORKER_BACKEND_DATABASE_CONNECTION_def BGWORKER_INTERRUPTIBLE_def BGWORKER_CLASS_PARALLEL_def BGW_MAXLEN_def)
  then have "AutoIndexRegister False conf False True True (g, r) =
      Inr (autoindex_register_gucs conf, r\<lparr>numworkers := numworkers r + 1, BackgroundWorkerList :=
        \<lparr>rw_worker = autoindex_worker, rw_pid = 0, rw_crashed_at = 0, rw_shmem_slot = 0, rw_terminate = False\<rparr> #
        BackgroundWorkerList r\<rparr>)"
    using assms(1,2) by (simp add: AutoIndexRegister_def RegisterBackgroundWorker_def) (simp add: autoindex_worker_def)
  moreover have "LookupBackgroundWorkerFunction (bgw_library_name autoindex_worker) (bgw_function_name autoindex_worker) =
      Inr (Internal ''AutoIndexMain'')"
    by (simp add: LookupBackgroundWorkerFunction_def autoindex_worker_def BGW_MAXLEN_def MAXPGPATH_def InternalBGWorkers_def)
  ultimately show ?thesis using cleanup_exit_0 [OF assms(3), of immediate t]
    unfolding restarted_def waiting_def Let_def by auto
qed

text \<open>A server with the AutoIndex worker and one parallel worker.\<close>

definition parallel_worker :: BackgroundWorker where
  "parallel_worker = autoindex_worker\<lparr>bgw_flags := bgw_flags autoindex_worker OR BGWORKER_CLASS_PARALLEL,
     bgw_restart_time := BGW_NEVER_RESTART, bgw_function_name := ''ParallelWorkerMain''\<rparr>"

definition free_memory :: "BackgroundWorkerSlot list" where
  "free_memory = replicate 8 \<lparr>in_use = False, slot_terminate = False, slot_pid = 0, generation = 0,
     slot_worker = autoindex_worker\<rparr>"

definition small_server :: postmaster where
  "small_server = \<lparr>
     pm_registry = BackgroundWorkerShmemInit free_memory (fold register_static [autoindex_worker] (empty_registry 8)),
     pmState = PM_RUN, FatalError = False, StartWorkerNeeded = True, HaveCrashedWorker = False\<rparr>"

definition small_run :: "pm_op list" where
  "small_run = [Request 2 parallel_worker, Notice (\<lambda>_. True) (\<lambda>_. True), Start (\<lambda>_. Forked 100) 5]"

lemma autoindex_worker_not_parallel: "\<not> has_flag BGWORKER_CLASS_PARALLEL autoindex_worker"
  by (simp add: has_flag_def autoindex_worker_def BGWORKER_CLASS_PARALLEL_def BGWORKER_SHMEM_ACCESS_def
      BGWORKER_BACKEND_DATABASE_CONNECTION_def)

lemma small_run_reachable: "pm_reachable 2 small_server (fold pm_step small_run small_server)"
  unfolding small_run_def
  by (simp del: pm_step.simps) (intro pm_more pm_start; simp add: can_occur_def del: pm_step.simps)

theorem bgworker_registry_consistent_witness:
  "\<exists>d. BackgroundWorkerData (pm_registry (fold pm_step small_run small_server)) = Some d \<and>
     length (filter is_parallel (slots d)) \<le> 2 \<and>
     parallel_register_count d - parallel_terminate_count d = of_nat (length (filter is_parallel (slots d)))"
proof -
  have "\<forall>w \<in> set [autoindex_worker]. \<not> has_flag BGWORKER_CLASS_PARALLEL w" by (simp add: autoindex_worker_not_parallel)
  moreover have "length free_memory = 8" by (simp add: free_memory_def)
  moreover have "pm_registry small_server =
      BackgroundWorkerShmemInit free_memory (fold register_static [autoindex_worker] (empty_registry 8))"
    by (simp add: small_server_def)
  ultimately show ?thesis
    using bgworker_registry_consistent [of "[autoindex_worker]" free_memory 8 small_server 2, OF _ _ _ _ small_run_reachable]
    by fastforce
qed

definition running_server :: postmaster where
  "running_server = small_server\<lparr>pm_registry := (pm_registry small_server)\<lparr>BackgroundWorkerList :=
     [\<lparr>rw_worker = autoindex_worker, rw_pid = 100, rw_crashed_at = 0, rw_shmem_slot = 0, rw_terminate = False\<rparr>]\<rparr>\<rparr>"

theorem autoindex_worker_restarts_witness:
  "(\<exists>rw \<in> set (BackgroundWorkerList (pm_registry
       (maybe_start_bgworkers (\<lambda>_. Forked 101) 10000007 (CleanupBackend False False Exit_1 7 0 running_server)))).
     rw_worker rw = autoindex_worker \<and> rw_pid rw \<noteq> 0) \<and>
   (\<exists>rw \<in> set (BackgroundWorkerList (pm_registry
       (maybe_start_bgworkers (\<lambda>_. Forked 101) 10000006 (CleanupBackend False False Exit_1 7 0 running_server)))).
     rw_worker rw = autoindex_worker \<and> rw_pid rw = 0)"
proof -
  let ?cell = "BackgroundWorkerList (pm_registry running_server) ! 0"
  have server: "0 < length (BackgroundWorkerList (pm_registry running_server))" "rw_worker ?cell = autoindex_worker"
    "rw_pid ?cell \<noteq> 0" "\<not> rw_terminate ?cell"
    "length (BackgroundWorkerList (pm_registry running_server)) < MAX_BGWORKERS_TO_LAUNCH"
    "pmState running_server = PM_RUN" "\<not> FatalError running_server"
    by (simp_all add: running_server_def small_server_def MAX_BGWORKERS_TO_LAUNCH_def)
  have r: "BackgroundWorkerData (empty_registry 8) = None" "numworkers (empty_registry 8) < max_worker_processes (empty_registry 8)"
    by (simp_all add: empty_registry_def)
  have "\<exists>pid. Forked 101 = Forked pid \<and> pid \<noteq> 0" by simp
  then show ?thesis
    using autoindex_worker_restarts [OF r server, of 7 "\<lambda>_. Forked 101" _ _ 10000007 False False]
      autoindex_worker_restarts [OF r server, of 7 "\<lambda>_. Forked 101" _ _ 10000006 False False]
    by (simp add: Let_def) blast
qed

end
