(* ===== verification/Snprintf.thy ===== *)
theory Snprintf
  imports Numutils
begin

section \<open>Formatted output (snprintf.c)\<close>

text \<open>
  The server's own \<open>snprintf\<close>, which the string buffers and all of AutoIndex's command
  and query texts go through: the output target, padding, the conversions of integers,
  strings, characters, pointers and floating-point numbers, the scan of a conversion
  specification, arguments in the order of the call or by position, and the entry
  points that write into a buffer. A buffer is memory, a function from offsets to
  characters, so that a write behind its end would be visible. The C library's
  conversion of floating-point numbers and pointers and its error messages are a
  parameter. Targets with a stream are left out: the entry points below have none.
\<close>

subsection \<open>The target\<close>

record PrintfTarget =
  bufptr :: nat
  bufmem :: "nat \<Rightarrow> char"
  bufend :: "nat option"
  nchars :: int32
  failed :: bool

definition memmove :: "nat \<Rightarrow> string \<Rightarrow> (nat \<Rightarrow> char) \<Rightarrow> nat \<Rightarrow> char" where
  "memmove p s m = (\<lambda>i. if p \<le> i \<and> i < p + length s then s ! (i - p) else m i)"

definition dopr_outch :: "char \<Rightarrow> PrintfTarget \<Rightarrow> PrintfTarget" where
  "dopr_outch c target =
     (if bufend target \<noteq> None \<and> the (bufend target) \<le> bufptr target
      then target\<lparr>nchars := nchars target + 1\<rparr>
      else target\<lparr>bufmem := (bufmem target)(bufptr target := c), bufptr := bufptr target + 1\<rparr>)"

text \<open>The space left, as the \<open>int\<close> that the pointer difference is converted to.\<close>

definition avail_space :: "int32 \<Rightarrow> PrintfTarget \<Rightarrow> int32" where
  "avail_space slen target =
     (case bufend target of Some e \<Rightarrow> word_of_int (int e - int (bufptr target)) | None \<Rightarrow> slen)"

lemma sint_diff_pos:
  fixes a b :: "'a::len word"
  assumes "0 < sint a" and "sint a \<le> sint b"
  shows "sint (b - a) = sint b - sint a"
proof -
  have "sint b < 2 ^ (LENGTH('a) - 1)" by (rule sint_lt)
  with assms show ?thesis
    by (simp add: sint_word_ariths signed_take_bit_int_eq_self)
qed

function dostr_loop :: "string \<Rightarrow> int32 \<Rightarrow> PrintfTarget \<Rightarrow> PrintfTarget" where
  "dostr_loop str slen target =
     (if sint slen \<le> 0 then target
      else
        let avail = avail_space slen target in
        if sint avail \<le> 0 then target\<lparr>nchars := nchars target + slen\<rparr>
        else
          let avail = (if sint avail < sint slen then avail else slen) in
          dostr_loop (drop (unat avail) str) (slen - avail)
            (target\<lparr>bufmem := memmove (bufptr target) (take (unat avail) str) (bufmem target),
                    bufptr := bufptr target + unat avail\<rparr>))"
  by pat_completeness auto
termination
  by (relation "measure (\<lambda>(str, slen, target). nat (sint slen))")
    (auto simp: Let_def sint_diff_pos split: if_splits)

declare dostr_loop.simps [simp del]

definition dostr :: "string \<Rightarrow> int32 \<Rightarrow> PrintfTarget \<Rightarrow> PrintfTarget" where
  "dostr str slen target =
     (if slen = 1 then dopr_outch (hd str) target else dostr_loop str slen target)"

function outchmulti_loop :: "char \<Rightarrow> int32 \<Rightarrow> PrintfTarget \<Rightarrow> PrintfTarget" where
  "outchmulti_loop c slen target =
     (if sint slen \<le> 0 then target
      else
        let avail = avail_space slen target in
        if sint avail \<le> 0 then target\<lparr>nchars := nchars target + slen\<rparr>
        else
          let avail = (if sint avail < sint slen then avail else slen) in
          outchmulti_loop c (slen - avail)
            (target\<lparr>bufmem := memmove (bufptr target) (replicate (unat avail) c) (bufmem target),
                    bufptr := bufptr target + unat avail\<rparr>))"
  by pat_completeness auto
termination
  by (relation "measure (\<lambda>(c, slen, target). nat (sint slen))")
    (auto simp: Let_def sint_diff_pos split: if_splits)

declare outchmulti_loop.simps [simp del]

definition dopr_outchmulti :: "char \<Rightarrow> int32 \<Rightarrow> PrintfTarget \<Rightarrow> PrintfTarget" where
  "dopr_outchmulti c slen target =
     (if slen = 1 then dopr_outch c target else outchmulti_loop c slen target)"

subsection \<open>Signs and padding\<close>

text \<open>A sign or fill character of 0 is \<^const>\<open>None\<close>.\<close>

definition adjust_sign :: "bool \<Rightarrow> bool \<Rightarrow> char option \<Rightarrow> bool \<times> char option" where
  "adjust_sign is_negative forcesign signvalue =
     (if is_negative then (True, Some CHR ''-'')
      else if forcesign then (False, Some CHR ''+'')
      else (False, signvalue))"

definition compute_padlen :: "int32 \<Rightarrow> int32 \<Rightarrow> bool \<Rightarrow> int32" where
  "compute_padlen minlen vallen leftjust =
     (let padlen = minlen - vallen;
          padlen = (if sint padlen < 0 then 0 else padlen)
      in if leftjust then - padlen else padlen)"

definition leading_pad :: "char option \<Rightarrow> char option \<Rightarrow> int32 \<Rightarrow> PrintfTarget \<Rightarrow> int32 \<times> PrintfTarget" where
  "leading_pad zpad signvalue padlen target =
     (let (signvalue, padlen, target) =
        (if 0 < sint padlen \<and> zpad \<noteq> None then
           let (signvalue, padlen, target) =
             (case signvalue of
                Some s \<Rightarrow> (None, padlen - 1, dopr_outch s target)
              | None \<Rightarrow> (signvalue, padlen, target))
           in if 0 < sint padlen then (signvalue, 0, dopr_outchmulti (the zpad) padlen target)
              else (signvalue, padlen, target)
         else (signvalue, padlen, target));
          maxpad = (if signvalue \<noteq> None then 1 else 0);
          (padlen, target) =
        (if sint maxpad < sint padlen then (maxpad, dopr_outchmulti CHR '' '' (padlen - maxpad) target)
         else (padlen, target))
      in case signvalue of
           Some s \<Rightarrow> (if 0 < sint padlen then padlen - 1 else if sint padlen < 0 then padlen + 1 else padlen,
                       dopr_outch s target)
         | None \<Rightarrow> (padlen, target))"

definition trailing_pad :: "int32 \<Rightarrow> PrintfTarget \<Rightarrow> PrintfTarget" where
  "trailing_pad padlen target =
     (if sint padlen < 0 then dopr_outchmulti CHR '' '' (- padlen) target else target)"

subsection \<open>Conversions\<close>

text \<open>
  A floating-point value as the code distinguishes it; the sign of a finite value is
  kept apart because of minus zero. The C library's part: the text of a non-negative
  finite value under a format with an optional precision, and of a pointer, both with
  the returned length, and the message for the saved error number.
\<close>

datatype double = NaN | Infinite bool | Finite bool real

record libc =
  libc_double :: "string \<Rightarrow> int32 option \<Rightarrow> real \<Rightarrow> int32 \<times> string"
  libc_pointer :: "uint64 \<Rightarrow> int32 \<times> string"
  libc_strerror :: string

definition fmtstr :: "string \<Rightarrow> bool \<Rightarrow> int32 \<Rightarrow> int32 \<Rightarrow> bool \<Rightarrow> PrintfTarget \<Rightarrow> PrintfTarget" where
  "fmtstr val leftjust minlen maxwidth pointflag target =
     (let vallen =
        (if pointflag then of_nat (min (length val) (unat (scast maxwidth :: uint64)))
         else of_nat (length val));
          padlen = compute_padlen minlen vallen leftjust;
          (padlen, target) =
        (if 0 < sint padlen then (0, dopr_outchmulti CHR '' '' padlen target) else (padlen, target));
          target = dostr val vallen target
      in trailing_pad padlen target)"

definition fmtptr :: "libc \<Rightarrow> uint64 \<Rightarrow> PrintfTarget \<Rightarrow> PrintfTarget" where
  "fmtptr c val target =
     (let (vallen, convert) = libc_pointer c val
      in if sint vallen < 0 then target\<lparr>failed := True\<rparr> else dostr convert vallen target)"

text \<open>
  The digits, from the last to the first; the scratch array is filled from its end.
  The base is 8, 10 or 16; for a base of at most 1 the loop would not end.
\<close>

function convert_loop :: "uint64 \<Rightarrow> string \<Rightarrow> uint64 \<Rightarrow> string \<Rightarrow> string" where
  "convert_loop base cvt uvalue convert =
     (let convert = cvt ! unat (uvalue mod base) # convert;
          uvalue' = uvalue div base
      in if uvalue' \<noteq> 0 \<and> 1 < base then convert_loop base cvt uvalue' convert else convert)"
  by pat_completeness auto
termination
proof (relation "measure (\<lambda>(base, cvt, uvalue, convert). unat uvalue)")
  fix base :: uint64 and cvt :: string and uvalue :: uint64 and convert x y
  assume "x = cvt ! unat (uvalue mod base) # convert" "y = uvalue div base" "y \<noteq> 0 \<and> 1 < base"
  then have "uvalue \<noteq> 0" "1 < unat base" by (auto simp: word_less_nat_alt)
  then have "unat (uvalue div base) < unat uvalue" by (simp add: unat_div unat_gt_0)
  then show "((base, cvt, y, x), base, cvt, uvalue, convert) \<in> measure (\<lambda>(base, cvt, uvalue, convert). unat uvalue)"
    by (simp add: \<open>y = uvalue div base\<close>)
qed simp

declare convert_loop.simps [simp del]

definition int_conversion :: "char \<Rightarrow> (uint64 \<times> bool \<times> string) option" where
  "int_conversion type =
     (if type = CHR ''d'' \<or> type = CHR ''i'' then Some (10, True, ''0123456789abcdef'')
      else if type = CHR ''o'' then Some (8, False, ''0123456789abcdef'')
      else if type = CHR ''u'' then Some (10, False, ''0123456789abcdef'')
      else if type = CHR ''x'' then Some (16, False, ''0123456789abcdef'')
      else if type = CHR ''X'' then Some (16, False, ''0123456789ABCDEF'')
      else None)"

definition fmtint ::
  "int64 \<Rightarrow> char \<Rightarrow> bool \<Rightarrow> bool \<Rightarrow> int32 \<Rightarrow> char option \<Rightarrow> int32 \<Rightarrow> bool \<Rightarrow> PrintfTarget \<Rightarrow> PrintfTarget" where
  "fmtint val type forcesign leftjust minlen zpad precision pointflag target =
     (case int_conversion type of
        None \<Rightarrow> target
      | Some (base, dosign, cvt) \<Rightarrow>
          let (negate, signvalue) =
                (if dosign then adjust_sign (sint val < 0) forcesign None else (False, None));
              uvalue = (if negate then - val else val);
              convert =
                (if val = 0 \<and> pointflag \<and> precision = 0 then [] else convert_loop base cvt uvalue []);
              vallen = of_nat (length convert);
              zeropad = (if sint (precision - vallen) < 0 then 0 else precision - vallen);
              padlen = compute_padlen minlen (vallen + zeropad) leftjust;
              (padlen, target) = leading_pad zpad signvalue padlen target;
              target = (if 0 < sint zeropad then dopr_outchmulti CHR ''0'' zeropad target else target);
              target = dostr convert vallen target
          in trailing_pad padlen target)"

definition fmtchar :: "char \<Rightarrow> bool \<Rightarrow> int32 \<Rightarrow> PrintfTarget \<Rightarrow> PrintfTarget" where
  "fmtchar val leftjust minlen target =
     (let padlen = compute_padlen minlen 1 leftjust;
          (padlen, target) =
        (if 0 < sint padlen then (0, dopr_outchmulti CHR '' '' padlen target) else (padlen, target));
          target = dopr_outch val target
      in trailing_pad padlen target)"

text \<open>\<open>strrchr\<close>: the position of the last occurrence.\<close>

definition strrchr :: "string \<Rightarrow> char \<Rightarrow> nat option" where
  "strrchr s c = (if c \<in> set s then Some (length s - 1 - length (takeWhile (\<lambda>d. d \<noteq> c) (rev s))) else None)"

text \<open>
  The conversion of one value: its sign, its text with the returned length, and the
  number of zeros by which the requested precision exceeds the library's limit.
\<close>

definition float_text ::
  "libc \<Rightarrow> double \<Rightarrow> char \<Rightarrow> bool \<Rightarrow> int32 \<Rightarrow> bool \<Rightarrow> (char option \<times> int32 \<times> string \<times> int32)" where
  "float_text c val type forcesign precision pointflag =
     (let precision = (if sint precision < 0 then 0 else precision);
          prec = (if sint precision < 350 then precision else 350)
      in case val of
           NaN \<Rightarrow> (None, 3, ''NaN'', 0)
         | Infinite neg \<Rightarrow> (snd (adjust_sign neg forcesign None), 8, ''Infinity'', 0)
         | Finite neg x \<Rightarrow>
             let signvalue = snd (adjust_sign neg forcesign None) in
             if pointflag
             then let (vallen, convert) = libc_double c [CHR ''%'', CHR ''.'', CHR ''*'', type] (Some prec) \<bar>x\<bar>
                  in (signvalue, vallen, convert, precision - prec)
             else let (vallen, convert) = libc_double c [CHR ''%'', type] None \<bar>x\<bar>
                  in (signvalue, vallen, convert, 0))"

definition fmtfloat ::
  "libc \<Rightarrow> double \<Rightarrow> char \<Rightarrow> bool \<Rightarrow> bool \<Rightarrow> int32 \<Rightarrow> char option \<Rightarrow> int32 \<Rightarrow> bool \<Rightarrow> PrintfTarget \<Rightarrow>
   PrintfTarget" where
  "fmtfloat c val type forcesign leftjust minlen zpad precision pointflag target =
     (let (signvalue, vallen, convert, zeropadlen) = float_text c val type forcesign precision pointflag
      in if sint vallen < 0 then target\<lparr>failed := True\<rparr>
         else
           let padlen = compute_padlen minlen (vallen + zeropadlen) leftjust;
               (padlen, target) = leading_pad zpad signvalue padlen target;
               target =
                 (if 0 < sint zeropadlen then
                    (case (case strrchr convert CHR ''e'' of None \<Rightarrow> strrchr convert CHR ''E'' | e \<Rightarrow> e) of
                       Some epos \<Rightarrow>
                         dostr (drop epos convert) (vallen - of_nat epos)
                           (dopr_outchmulti CHR ''0'' zeropadlen (dostr convert (of_nat epos) target))
                     | None \<Rightarrow> dopr_outchmulti CHR ''0'' zeropadlen (dostr convert vallen target))
                  else dostr convert vallen target)
           in trailing_pad padlen target)"

subsection \<open>Arguments\<close>

text \<open>
  An argument of the call. A pointer is an address, 0 for \<open>NULL\<close>, and the string it
  points to. Fetching an argument of another type than the one passed, or more
  arguments than were passed, has no defined result.
\<close>

datatype PrintfArgValue =
    ArgInt int32
  | ArgLong int64
  | ArgLongLong int64
  | ArgDouble double
  | ArgCharPtr uint64 string

datatype PrintfArgType = ATYPE_NONE | ATYPE_INT | ATYPE_LONG | ATYPE_LONGLONG | ATYPE_DOUBLE | ATYPE_CHARPTR

fun type_of_arg :: "PrintfArgValue \<Rightarrow> PrintfArgType" where
  "type_of_arg (ArgInt i) = ATYPE_INT"
| "type_of_arg (ArgLong l) = ATYPE_LONG"
| "type_of_arg (ArgLongLong ll) = ATYPE_LONGLONG"
| "type_of_arg (ArgDouble d) = ATYPE_DOUBLE"
| "type_of_arg (ArgCharPtr a s) = ATYPE_CHARPTR"

fun va_arg :: "PrintfArgType \<Rightarrow> PrintfArgValue list \<Rightarrow> (PrintfArgValue \<times> PrintfArgValue list) option" where
  "va_arg ty [] = None"
| "va_arg ty (a # args) = (if type_of_arg a = ty then Some (a, args) else None)"

definition PG_NL_ARGMAX :: nat where
  "PG_NL_ARGMAX = 31"

text \<open>
  \<open>find_arguments\<close>: a type for every position that a conversion or a star names. The
  state is the array of types and the last position; \<^const>\<open>None\<close> is the result false.
\<close>

type_synonym arg_types = "PrintfArgType list \<times> nat"

definition note_type :: "nat \<Rightarrow> PrintfArgType \<Rightarrow> arg_types \<Rightarrow> arg_types option" where
  "note_type pos ty st =
     (let (argtypes, last_dollar) = st in
      if argtypes ! pos \<noteq> ATYPE_NONE \<and> argtypes ! pos \<noteq> ty then None
      else Some (argtypes[pos := ty], max last_dollar pos))"

definition note_conversion :: "nat \<Rightarrow> PrintfArgType \<Rightarrow> arg_types \<Rightarrow> arg_types option" where
  "note_conversion fmtpos ty st = (if fmtpos \<noteq> 0 then note_type fmtpos ty st else None)"

definition int_arg_type :: "bool \<Rightarrow> bool \<Rightarrow> PrintfArgType" where
  "int_arg_type longflag longlongflag =
     (if longlongflag then ATYPE_LONGLONG else if longflag then ATYPE_LONG else ATYPE_INT)"

definition digit_value :: "char \<Rightarrow> int32" where
  "digit_value c = of_nat (char_code c - 48)"

primrec nextch1 ::
  "string \<Rightarrow> int32 \<Rightarrow> nat \<Rightarrow> bool \<Rightarrow> bool \<Rightarrow> bool \<Rightarrow> arg_types \<Rightarrow> (string \<times> bool \<times> arg_types) option" where
  "nextch1 [] accum fmtpos afterstar longflag longlongflag st = None"
| "nextch1 (ch # format) accum fmtpos afterstar longflag longlongflag st =
     (if ch = CHR ''-'' \<or> ch = CHR ''+'' then nextch1 format accum fmtpos afterstar longflag longlongflag st
      else if digit ch then nextch1 format (accum * 10 + digit_value ch) fmtpos afterstar longflag longlongflag st
      else if ch = CHR ''.'' then nextch1 format 0 fmtpos afterstar longflag longlongflag st
      else if ch = CHR ''*'' then
        (if afterstar then None else nextch1 format 0 fmtpos True longflag longlongflag st)
      else if ch = CHR ''$'' then
        (if sint accum \<le> 0 \<or> int PG_NL_ARGMAX < sint accum then None
         else if afterstar then
           (case note_type (unat accum) ATYPE_INT st of
              None \<Rightarrow> None
            | Some st \<Rightarrow> nextch1 format 0 fmtpos False longflag longlongflag st)
         else nextch1 format 0 (unat accum) afterstar longflag longlongflag st)
      else if ch = CHR ''l'' then
        (if longflag then nextch1 format accum fmtpos afterstar longflag True st
         else nextch1 format accum fmtpos afterstar True longlongflag st)
      else if ch = CHR ''j'' \<or> ch = CHR ''z'' then nextch1 format accum fmtpos afterstar True longlongflag st
      else if ch = CHR ''h'' \<or> ch = CHR 0x27 then nextch1 format accum fmtpos afterstar longflag longlongflag st
      else map_option (\<lambda>st. (format, afterstar, st))
        (if ch \<in> set ''diouxX'' then note_conversion fmtpos (int_arg_type longflag longlongflag) st
         else if ch = CHR ''c'' then note_conversion fmtpos ATYPE_INT st
         else if ch \<in> set ''sp'' then note_conversion fmtpos ATYPE_CHARPTR st
         else if ch \<in> set ''eEfgG'' then note_conversion fmtpos ATYPE_DOUBLE st
         else if ch = CHR ''m'' \<or> ch = CHR ''%'' then Some st
         else None))"

lemma nextch1_shorter:
  "nextch1 format accum fmtpos afterstar lf llf st = Some (rest, r) \<Longrightarrow> length rest < length format"
proof (induction format arbitrary: accum fmtpos afterstar lf llf st)
  case (Cons ch format)
  note IH = Cons.IH [THEN less_SucI]
  from Cons.prems show ?case
    by (simp only: nextch1.simps length_Cons split: if_split_asm option.split_asm)
      (erule IH | simp only: map_option_eq_Some option.simps | clarsimp)+
qed simp

text \<open>The loop over the format; text up to the next percent sign is skipped.\<close>

function find_types :: "string \<Rightarrow> arg_types \<Rightarrow> arg_types option" where
  "find_types format st =
     (case dropWhile (\<lambda>c. c \<noteq> CHR ''%'') format of
        [] \<Rightarrow> Some st
      | _ # format' \<Rightarrow>
          (case nextch1 format' 0 0 False False False st of
             None \<Rightarrow> None
           | Some (rest, afterstar, st) \<Rightarrow> if afterstar then None else find_types rest st))"
  by pat_completeness auto
termination
proof (relation "measure (length \<circ> fst)", goal_cases)
  case (2 format st c format' a rest b afterstar st')
  then show ?case
    using nextch1_shorter [of format' 0 0 False False False st rest "(afterstar, st')"]
      length_dropWhile_le [of "\<lambda>c. c \<noteq> CHR ''%''" format] by simp
qed simp

declare find_types.simps [simp del]

text \<open>The arguments in the order of the call. The outer option is the one of \<^const>\<open>va_arg\<close>.\<close>

fun collect_args :: "PrintfArgType list \<Rightarrow> PrintfArgValue list \<Rightarrow> PrintfArgValue list option option" where
  "collect_args [] args = Some (Some [])"
| "collect_args (ty # tys) args =
     (if ty = ATYPE_NONE then Some None
      else case va_arg ty args of
        None \<Rightarrow> None
      | Some (a, args) \<Rightarrow> map_option (map_option (\<lambda>as. a # as)) (collect_args tys args))"

definition find_arguments :: "string \<Rightarrow> PrintfArgValue list \<Rightarrow> PrintfArgValue list option option" where
  "find_arguments format args =
     (case find_types format (replicate (PG_NL_ARGMAX + 1) ATYPE_NONE, 0) of
        None \<Rightarrow> Some None
      | Some (argtypes, last_dollar) \<Rightarrow> collect_args (take last_dollar (drop 1 argtypes)) args)"

subsection \<open>The scan of the format\<close>

text \<open>The state of one conversion specification, and of the whole call.\<close>

record conv_spec =
  leftjust :: bool
  forcesign :: bool
  zpad :: "char option"
  accum :: int32
  fieldwidth :: int32
  precision :: int32
  pointflag :: bool
  have_star :: bool
  afterstar :: bool
  longflag :: bool
  longlongflag :: bool
  fmtpos :: int32

definition new_spec :: conv_spec where
  "new_spec = \<lparr>leftjust = False, forcesign = False, zpad = None, accum = 0, fieldwidth = 0, precision = 0,
     pointflag = False, have_star = False, afterstar = False, longflag = False, longlongflag = False, fmtpos = 0\<rparr>"

record dopr_state =
  target :: PrintfTarget
  va_args :: "PrintfArgValue list"
  argvalues :: "PrintfArgValue list"
  have_dollar :: bool

definition bad_format :: "dopr_state \<Rightarrow> dopr_state" where
  "bad_format st = st\<lparr>target := (target st)\<lparr>failed := True\<rparr>\<rparr>"

definition on_target :: "(PrintfTarget \<Rightarrow> PrintfTarget) \<Rightarrow> dopr_state \<Rightarrow> dopr_state" where
  "on_target f st = st\<lparr>target := f (target st)\<rparr>"

text \<open>The next argument of the call, or the one at a position.\<close>

definition arg_at :: "PrintfArgType \<Rightarrow> int32 \<Rightarrow> dopr_state \<Rightarrow> PrintfArgValue option" where
  "arg_at ty pos st =
     (if 0 < sint pos \<and> sint pos \<le> int (length (argvalues st)) \<and> type_of_arg (argvalues st ! (unat pos - 1)) = ty
      then Some (argvalues st ! (unat pos - 1)) else None)"

definition fetch :: "PrintfArgType \<Rightarrow> conv_spec \<Rightarrow> dopr_state \<Rightarrow> (PrintfArgValue \<times> dopr_state) option" where
  "fetch ty sp st =
     (if have_dollar st then map_option (\<lambda>a. (a, st)) (arg_at ty (fmtpos sp) st)
      else map_option (\<lambda>(a, args). (a, st\<lparr>va_args := args\<rparr>)) (va_arg ty (va_args st)))"

fun arg_int :: "PrintfArgValue \<Rightarrow> int32" where
  "arg_int (ArgInt i) = i"
| "arg_int _ = 0"

fun signed_arg :: "PrintfArgValue \<Rightarrow> int64" where
  "signed_arg (ArgInt i) = scast i"
| "signed_arg (ArgLong l) = l"
| "signed_arg (ArgLongLong l) = l"
| "signed_arg _ = 0"

fun unsigned_arg :: "PrintfArgValue \<Rightarrow> int64" where
  "unsigned_arg (ArgInt i) = ucast i"
| "unsigned_arg (ArgLong l) = l"
| "unsigned_arg (ArgLongLong l) = l"
| "unsigned_arg _ = 0"

fun arg_double :: "PrintfArgValue \<Rightarrow> double" where
  "arg_double (ArgDouble d) = d"
| "arg_double _ = NaN"

fun arg_address :: "PrintfArgValue \<Rightarrow> uint64" where
  "arg_address (ArgCharPtr a s) = a"
| "arg_address _ = 0"

fun strvalue :: "PrintfArgValue \<Rightarrow> string" where
  "strvalue (ArgCharPtr a s) = (if a = 0 then ''(null)'' else s)"
| "strvalue _ = []"

text \<open>The value of a star becomes the precision or the field width.\<close>

definition star_value :: "int32 \<Rightarrow> conv_spec \<Rightarrow> conv_spec" where
  "star_value starval sp =
     (if pointflag sp then
        (if sint starval < 0 then sp\<lparr>precision := 0, pointflag := False\<rparr> else sp\<lparr>precision := starval\<rparr>)
      else
        (if sint starval < 0 then sp\<lparr>leftjust := True, fieldwidth := - starval\<rparr> else sp\<lparr>fieldwidth := starval\<rparr>))"

definition settle_width :: "conv_spec \<Rightarrow> conv_spec" where
  "settle_width sp =
     (if have_star sp then sp
      else if pointflag sp then sp\<lparr>precision := accum sp\<rparr>
      else sp\<lparr>fieldwidth := accum sp\<rparr>)"

text \<open>The conversion that ends a specification.\<close>

definition conversion :: "libc \<Rightarrow> char \<Rightarrow> conv_spec \<Rightarrow> dopr_state \<Rightarrow> dopr_state option" where
  "conversion c ch sp st =
     (let sp' = settle_width sp in
      if ch \<in> set ''di'' then
        map_option (\<lambda>(a, st). on_target (fmtint (signed_arg a) ch (forcesign sp') (leftjust sp') (fieldwidth sp') (zpad sp')
          (precision sp') (pointflag sp')) st) (fetch (int_arg_type (longflag sp) (longlongflag sp)) sp st)
      else if ch \<in> set ''ouxX'' then
        map_option (\<lambda>(a, st). on_target (fmtint (unsigned_arg a) ch (forcesign sp') (leftjust sp') (fieldwidth sp') (zpad sp')
          (precision sp') (pointflag sp')) st) (fetch (int_arg_type (longflag sp) (longlongflag sp)) sp st)
      else if ch = CHR ''c'' then
        map_option (\<lambda>(a, st). on_target (fmtchar (char_of (unat (arg_int a) mod 256)) (leftjust sp') (fieldwidth sp')) st)
          (fetch ATYPE_INT sp st)
      else if ch = CHR ''s'' then
        map_option (\<lambda>(a, st). on_target (fmtstr (strvalue a) (leftjust sp') (fieldwidth sp') (precision sp') (pointflag sp')) st)
          (fetch ATYPE_CHARPTR sp st)
      else if ch = CHR ''p'' then
        map_option (\<lambda>(a, st). on_target (fmtptr c (arg_address a)) st) (fetch ATYPE_CHARPTR sp st)
      else if ch \<in> set ''eEfgG'' then
        map_option (\<lambda>(a, st). on_target (fmtfloat c (arg_double a) ch (forcesign sp') (leftjust sp') (fieldwidth sp')
          (zpad sp') (precision sp') (pointflag sp')) st) (fetch ATYPE_DOUBLE sp st)
      else if ch = CHR ''m'' then
        Some (on_target (dostr (libc_strerror c) (of_nat (length (libc_strerror c)))) st)
      else if ch = CHR ''%'' then Some (on_target (dopr_outch CHR ''%'') st)
      else Some (bad_format st))"

text \<open>
  One specification, from behind its percent sign. The end of the format inside a
  specification is an error. \<^const>\<open>None\<close>: an argument was fetched that was not passed.
\<close>

primrec nextch2 ::
  "string \<Rightarrow> libc \<Rightarrow> string \<Rightarrow> conv_spec \<Rightarrow> dopr_state \<Rightarrow> (string \<times> dopr_state) option" where
  "nextch2 [] c first_pct sp st = Some ([], bad_format st)"
| "nextch2 (ch # format) c first_pct sp st =
     (if ch = CHR ''-'' then nextch2 format c first_pct (sp\<lparr>leftjust := True\<rparr>) st
      else if ch = CHR ''+'' then nextch2 format c first_pct (sp\<lparr>forcesign := True\<rparr>) st
      else if digit ch then
        nextch2 format c first_pct
          (sp\<lparr>zpad := (if ch = CHR ''0'' \<and> accum sp = 0 \<and> \<not> pointflag sp then Some CHR ''0'' else zpad sp),
              accum := accum sp * 10 + digit_value ch\<rparr>) st
      else if ch = CHR ''.'' then
        nextch2 format c first_pct
          (if have_star sp then sp\<lparr>have_star := False, pointflag := True, accum := 0\<rparr>
           else sp\<lparr>fieldwidth := accum sp, pointflag := True, accum := 0\<rparr>) st
      else if ch = CHR ''*'' then
        (if have_dollar st then nextch2 format c first_pct (sp\<lparr>afterstar := True, have_star := True, accum := 0\<rparr>) st
         else
           (case va_arg ATYPE_INT (va_args st) of
              None \<Rightarrow> None
            | Some (a, args) \<Rightarrow>
                nextch2 format c first_pct ((star_value (arg_int a) sp)\<lparr>have_star := True, accum := 0\<rparr>)
                  (st\<lparr>va_args := args\<rparr>)))
      else if ch = CHR ''$'' then
        (case (if have_dollar st then Some (Some st)
               else map_option (map_option (\<lambda>vs. st\<lparr>argvalues := vs, have_dollar := True\<rparr>))
                      (find_arguments first_pct (va_args st))) of
           None \<Rightarrow> None
         | Some None \<Rightarrow> Some (format, bad_format st)
         | Some (Some st) \<Rightarrow>
             if afterstar sp then
               (case arg_at ATYPE_INT (accum sp) st of
                  None \<Rightarrow> None
                | Some a \<Rightarrow> nextch2 format c first_pct ((star_value (arg_int a) sp)\<lparr>afterstar := False, accum := 0\<rparr>) st)
             else nextch2 format c first_pct (sp\<lparr>fmtpos := accum sp, accum := 0\<rparr>) st)
      else if ch = CHR ''l'' then
        nextch2 format c first_pct (if longflag sp then sp\<lparr>longlongflag := True\<rparr> else sp\<lparr>longflag := True\<rparr>) st
      else if ch = CHR ''j'' \<or> ch = CHR ''z'' then nextch2 format c first_pct (sp\<lparr>longflag := True\<rparr>) st
      else if ch = CHR ''h'' \<or> ch = CHR 0x27 then nextch2 format c first_pct sp st
      else map_option (\<lambda>st. (format, st)) (conversion c ch sp st))"

lemma nextch2_shorter: "nextch2 format c first_pct sp st = Some (rest, st') \<Longrightarrow> length rest \<le> length format"
proof (induction format arbitrary: sp st)
  case (Cons ch format)
  note IH = Cons.IH [THEN le_SucI]
  from Cons.prems show ?case
    by (simp only: nextch2.simps length_Cons split: if_split_asm option.split_asm prod.split_asm)
      (erule IH | simp only: map_option_eq_Some option.simps | clarsimp)+
qed simp

lemma pct_shorter: "format \<noteq> [] \<Longrightarrow> length (tl (dropWhile P format)) < length format"
  using length_dropWhile_le [of P format] by (cases format) (auto simp: less_Suc_eq_le)

text \<open>The loop over the format, from the text before a specification.\<close>

function dopr_loop :: "libc \<Rightarrow> string option \<Rightarrow> string \<Rightarrow> dopr_state \<Rightarrow> dopr_state option" where
  "dopr_loop c first_pct format st =
     (if format = [] then Some st
      else
        let (literal, format') = (takeWhile (\<lambda>ch. ch \<noteq> CHR ''%'') format, dropWhile (\<lambda>ch. ch \<noteq> CHR ''%'') format);
            st = (if literal = [] then st else on_target (dostr literal (of_nat (length literal))) st)
        in if failed (target st) \<or> format' = [] then Some st
           else
             let first_pct = (case first_pct of None \<Rightarrow> format' | Some p \<Rightarrow> p);
                 format' = tl format'
             in if format' \<noteq> [] \<and> hd format' = CHR ''s'' then
                  (case va_arg ATYPE_CHARPTR (va_args st) of
                     None \<Rightarrow> None
                   | Some (a, args) \<Rightarrow>
                       let st = on_target (dostr (strvalue a) (of_nat (length (strvalue a)))) (st\<lparr>va_args := args\<rparr>)
                       in if failed (target st) then Some st else dopr_loop c (Some first_pct) (tl format') st)
                else
                  (case nextch2 format' c first_pct new_spec st of
                     None \<Rightarrow> None
                   | Some (rest, st) \<Rightarrow>
                       if failed (target st) then Some st else dopr_loop c (Some first_pct) rest st))"
  by pat_completeness auto
termination
  by (relation "measure (\<lambda>(c, first_pct, format, st). length format)")
    (auto dest!: nextch2_shorter intro: le_less_trans [OF _ pct_shorter] le_less_trans [OF diff_le_self pct_shorter]
      simp del: length_tl simp: length_tl [of "tl xs" for xs])

declare dopr_loop.simps [simp del]

definition dopr :: "libc \<Rightarrow> PrintfTarget \<Rightarrow> string \<Rightarrow> PrintfArgValue list \<Rightarrow> PrintfTarget option" where
  "dopr c tgt format args =
     map_option target (dopr_loop c None format \<lparr>target = tgt, va_args = args, argvalues = [], have_dollar = False\<rparr>)"


subsection \<open>Entry points\<close>

text \<open>
  The result is the returned \<open>int\<close> and the memory behind the caller's pointer. With a
  count of 0 the output goes into a local array of one byte.
\<close>

definition new_target :: "(nat \<Rightarrow> char) \<Rightarrow> nat option \<Rightarrow> PrintfTarget" where
  "new_target mem e = \<lparr>bufptr = 0, bufmem = mem, bufend = e, nchars = 0, failed = False\<rparr>"

definition finish_target :: "PrintfTarget \<Rightarrow> int32 \<times> (nat \<Rightarrow> char)" where
  "finish_target t =
     (if failed t then - 1 else of_nat (bufptr t) + nchars t, (bufmem t)(bufptr t := CHR 0x00))"

definition pg_vsnprintf ::
  "libc \<Rightarrow> (nat \<Rightarrow> char) \<Rightarrow> nat \<Rightarrow> string \<Rightarrow> PrintfArgValue list \<Rightarrow> (int32 \<times> (nat \<Rightarrow> char)) option" where
  "pg_vsnprintf c str count fmt args =
     (let (buf, count') = (if count = 0 then (\<lambda>_. CHR 0x00, 1) else (str, count))
      in map_option (\<lambda>t. (fst (finish_target t), if count = 0 then str else snd (finish_target t)))
           (dopr c (new_target buf (Some (count' - 1))) fmt args))"

definition pg_vsprintf ::
  "libc \<Rightarrow> (nat \<Rightarrow> char) \<Rightarrow> string \<Rightarrow> PrintfArgValue list \<Rightarrow> (int32 \<times> (nat \<Rightarrow> char)) option" where
  "pg_vsprintf c str fmt args = map_option finish_target (dopr c (new_target str None) fmt args)"

text \<open>\<open>%.ng\<close> without padding; the precision is bounded.\<close>

definition pg_strfromd :: "libc \<Rightarrow> (nat \<Rightarrow> char) \<Rightarrow> nat \<Rightarrow> int32 \<Rightarrow> double \<Rightarrow> int32 \<times> (nat \<Rightarrow> char)" where
  "pg_strfromd c str count prec val =
     (let t = new_target str (Some (count - 1));
          prec = (if sint prec < 1 then 1 else if 32 < sint prec then 32 else prec);
          (signvalue, vallen, convert) =
            (case val of
               NaN \<Rightarrow> (None, 3, ''NaN'')
             | Infinite neg \<Rightarrow> (if neg then Some CHR ''-'' else None, 8, ''Infinity'')
             | Finite neg x \<Rightarrow> (if neg then Some CHR ''-'' else None, libc_double c ''%.*g'' (Some prec) \<bar>x\<bar>))
      in finish_target
           (if sint vallen < 0 then t\<lparr>failed := True\<rparr>
            else dostr convert vallen (case signvalue of Some s \<Rightarrow> dopr_outch s t | None \<Rightarrow> t)))"

subsection \<open>Arguments by position\<close>

text \<open>
  When a format names its arguments by position, the arguments are the ones of the
  call, in its order, with the types that the format asks for; without a gap.
\<close>

lemma collect_args_prefix:
  "collect_args tys args = Some (Some vs) \<Longrightarrow>
   vs = take (length tys) args \<and> map type_of_arg vs = tys \<and> ATYPE_NONE \<notin> set tys"
proof (induction tys arbitrary: args vs)
  case (Cons ty tys)
  from Cons.prems obtain a args' where "args = a # args'" "type_of_arg a = ty"
    by (cases args) (auto split: if_splits)
  with Cons show ?case by (fastforce split: if_splits)
qed simp

lemma find_arguments_prefix:
  assumes "find_arguments format args = Some (Some vs)"
  shows "vs = take (length vs) args"
proof -
  from assms obtain tys where "collect_args tys args = Some (Some vs)"
    by (auto simp: find_arguments_def split: option.splits)
  from collect_args_prefix [OF this] show ?thesis by (auto simp: min_def)
qed

subsection \<open>What a target has received\<close>

text \<open>
  A bounded target has received a text if the memory holds as much of it as fits and
  the count is the length of the rest.
\<close>

definition received :: "(nat \<Rightarrow> char) \<Rightarrow> nat \<Rightarrow> string \<Rightarrow> PrintfTarget \<Rightarrow> bool" where
  "received mem cap out t \<longleftrightarrow>
     bufend t = Some cap \<and> \<not> failed t \<and> bufptr t = min (length out) cap \<and>
     bufmem t = memmove 0 (take cap out) mem \<and> nchars t = of_nat (length out - cap)"

named_theorems receives \<open>how the operations on a target extend the received text\<close>

lemma received_new: "received mem cap [] (new_target mem (Some cap))"
  by (simp add: received_def new_target_def memmove_def)

lemma memmove_append: "memmove (length s) t (memmove 0 s m) = memmove 0 (s @ t) m"
  by (auto simp: memmove_def fun_eq_iff nth_append)

lemma memmove_single: "(memmove 0 s m)(length s := c) = memmove 0 (s @ [c]) m"
  by (auto simp: memmove_def fun_eq_iff nth_append)

lemma received_outch [receives]: "received mem cap out t \<Longrightarrow> received mem cap (out @ [c]) (dopr_outch c t)"
  using memmove_single [of out mem c]
  by (auto simp: received_def dopr_outch_def min_def Suc_diff_le not_le split: if_splits)

lemma sint_of_nat32: "n < 2 ^ 31 \<Longrightarrow> sint (of_nat n :: int32) = int n"
  by (simp add: signed_of_nat signed_take_bit_int_eq_self)

lemma sint_of_int32: "- (2 ^ 31) \<le> i \<Longrightarrow> i < 2 ^ 31 \<Longrightarrow> sint (word_of_int i :: int32) = i"
  by (simp add: signed_of_int signed_take_bit_int_eq_self)

lemma unat_of_nat32: "n < 2 ^ 31 \<Longrightarrow> unat (of_nat n :: int32) = n"
  by (simp add: unat_of_nat take_bit_nat_eq_self)


lemma avail_received:
  assumes "received mem cap out t" and "cap < 2 ^ 31"
  shows "avail_space slen t = of_nat (cap - length out)"
proof -
  have "int cap - int (min (length out) cap) = int (cap - length out)" by (simp add: min_def)
  then show ?thesis using assms(1) by (simp add: avail_space_def received_def)
qed

lemma received_copy:
  assumes "received mem cap out t" and "length s \<le> cap - length out"
  shows "received mem cap (out @ s)
    (t\<lparr>bufmem := memmove (bufptr t) s (bufmem t), bufptr := bufptr t + length s\<rparr>)"
proof (cases "length out \<le> cap")
  case True
  with assms memmove_append [of out s mem] show ?thesis by (simp add: received_def)
next
  case False
  with assms(2) have "s = []" by simp
  moreover have "memmove p [] m = m" for p m by (rule ext) (auto simp: memmove_def)
  ultimately show ?thesis using assms(1) by simp
qed

lemma received_lost:
  assumes "received mem cap out t" and "cap \<le> length out"
  shows "received mem cap (out @ s) (t\<lparr>nchars := nchars t + of_nat (length s)\<rparr>)"
  using assms by (simp add: received_def)

text \<open>The two copying loops, for what \<open>s\<close> returns as the text of a length.\<close>

lemma received_loop:
  fixes loop :: "string \<Rightarrow> int32 \<Rightarrow> PrintfTarget \<Rightarrow> PrintfTarget"
  assumes unfold: "\<And>str slen t. loop str slen t =
     (if sint slen \<le> 0 then t
      else
        let avail = avail_space slen t in
        if sint avail \<le> 0 then t\<lparr>nchars := nchars t + slen\<rparr>
        else
          let avail = (if sint avail < sint slen then avail else slen) in
          loop (drop (unat avail) str) (slen - avail)
            (t\<lparr>bufmem := memmove (bufptr t) (take (unat avail) str) (bufmem t),
                    bufptr := bufptr t + unat avail\<rparr>))"
    and cap: "cap < 2 ^ 31"
  shows "received mem cap out t \<Longrightarrow> n \<le> length s \<Longrightarrow> n < 2 ^ 31 \<Longrightarrow> received mem cap (out @ take n s) (loop s (of_nat n) t)"
proof (induction n arbitrary: s out t rule: less_induct)
  case (less n)
  define f where "f = cap - length out"
  let ?n = "of_nat n :: int32"
  have av: "avail_space ?n t = of_nat f" unfolding f_def by (rule avail_received [OF less.prems(1) cap])
  have si: "sint ?n = int n" "sint (of_nat f :: int32) = int f"
    using less.prems(3) cap by (simp_all add: sint_of_nat32 f_def)
  show ?case
  proof (cases "n = 0 \<or> f = 0")
    case True
    then show ?thesis
      using less.prems received_lost [of mem cap out t "take n s"] unfold [of s ?n t]
      by (auto simp: av si f_def)
  next
    case False
    define a where "a = min f n"
    let ?t = "t\<lparr>bufmem := memmove (bufptr t) (take a s) (bufmem t), bufptr := bufptr t + a\<rparr>"
    have a: "0 < a" "a \<le> n" "a \<le> f" "a < 2 ^ 31" using False less.prems(3) by (auto simp: a_def)
    have w: "(if int f < int n then of_nat f else ?n) = of_nat a" by (simp add: a_def min_def)
    have "loop s ?n t = loop (drop a s) (?n - of_nat a) ?t"
      using False by (subst unfold) (simp add: av si w Let_def unat_of_nat32 [OF a(4)] del: of_nat_less_iff)
    also have "?n - of_nat a = of_nat (n - a)" using a(2) by (simp add: of_nat_diff)
    finally have "loop s ?n t = loop (drop a s) (of_nat (n - a)) ?t" .
    moreover have "received mem cap (out @ take a s) ?t"
      using received_copy [OF less.prems(1), of "take a s"] a less.prems(2) by (simp add: f_def)
    ultimately show ?thesis
      using less.IH [of "n - a" "out @ take a s" ?t "drop a s"] a less.prems take_add [of a "n - a" s] by simp
  qed
qed

lemma received_dostr [receives]:
  assumes "received mem cap out t" and "n \<le> length s" and "n < 2 ^ 31" and "cap < 2 ^ 31"
  shows "received mem cap (out @ take n s) (dostr s (of_nat n) t)"
proof (cases "(of_nat n :: int32) = 1")
  case True
  then have "n = 1" using unat_of_nat32 [OF assms(3)] by simp
  then show ?thesis using assms(1,2) received_outch [OF assms(1), of "hd s"] by (cases s) (simp_all add: dostr_def)
next
  case False
  then show ?thesis
    using received_loop [of dostr_loop, OF _ assms(4,1,2,3)] dostr_loop.simps by (simp add: dostr_def)
qed

lemma outchmulti_dostr: "outchmulti_loop c slen t = dostr_loop (replicate (nat (sint slen)) c) slen t"
proof (induction c slen t rule: outchmulti_loop.induct)
  case (1 c slen t)
  show ?case
  proof (cases "sint slen \<le> 0 \<or> sint (avail_space slen t) \<le> 0")
    case True
    then show ?thesis by (auto simp: outchmulti_loop.simps [of c slen] dostr_loop.simps [of _ slen])
  next
    case False
    define a where "a = (if sint (avail_space slen t) < sint slen then avail_space slen t else slen)"
    have a: "0 < sint a" "sint a \<le> sint slen" using False by (auto simp: a_def)
    have u: "unat a = nat (sint a)" "nat (sint (slen - a)) = nat (sint slen) - nat (sint a)"
      "min (nat (sint a)) (nat (sint slen)) = nat (sint a)"
      using a sint_diff_pos [OF a] by (auto simp: unat_abs(2) nat_diff_distrib)
    let ?t = "t\<lparr>bufmem := memmove (bufptr t) (replicate (unat a) c) (bufmem t), bufptr := bufptr t + unat a\<rparr>"
    have "outchmulti_loop c slen t = outchmulti_loop c (slen - a) ?t"
      using False by (subst outchmulti_loop.simps) (simp add: a_def Let_def)
    also have "\<dots> = dostr_loop (replicate (nat (sint (slen - a))) c) (slen - a) ?t"
      using 1 [OF _ refl _ a_def] False by simp
    also have "\<dots> = dostr_loop (replicate (nat (sint slen)) c) slen t"
      using False by (subst (2) dostr_loop.simps) (simp add: a_def [symmetric] Let_def u)
    finally show ?thesis .
  qed
qed

lemma received_outchmulti [receives]:
  assumes "received mem cap out t" and "n < 2 ^ 31" and "cap < 2 ^ 31"
  shows "received mem cap (out @ replicate n c) (dopr_outchmulti c (of_nat n) t)"
proof -
  have "hd (replicate n c) = c" if "(of_nat n :: int32) = 1"
    using that by (cases n) simp_all
  then show ?thesis
    using received_dostr [OF assms(1) _ assms(2,3), of "replicate n c"]
    by (simp add: dopr_outchmulti_def dostr_def outchmulti_dostr sint_of_nat32 [OF assms(2)] split: if_splits)
qed

subsection \<open>Padding\<close>

lemma sint_uminus32: "n < 2 ^ 31 \<Longrightarrow> sint (- (of_nat n :: int32)) = - int n"
  using sint_of_int32 [of "- int n"] by simp

lemma compute_padlen_nat:
  assumes "w < 2 ^ 31" and "n < 2 ^ 31"
  shows "compute_padlen (of_nat w) (of_nat n) left = (if left then - of_nat (w - n) else of_nat (w - n))"
proof -
  have "sint (of_nat w - of_nat n :: int32) = int w - int n"
    using sint_of_int32 [of "int w - int n"] assms by simp
  then show ?thesis by (auto simp: compute_padlen_def Let_def of_nat_diff)
qed

text \<open>A text with a sign, filled up to a width.\<close>

definition padded :: "bool \<Rightarrow> char option \<Rightarrow> nat \<Rightarrow> string \<Rightarrow> string \<Rightarrow> string" where
  "padded left zero w sg body =
     (let fill = w - length (sg @ body) in
      if left then sg @ body @ replicate fill CHR '' ''
      else case zero of
        Some z \<Rightarrow> sg @ replicate fill z @ body
      | None \<Rightarrow> replicate fill CHR '' '' @ sg @ body)"

definition sign_text :: "char option \<Rightarrow> string" where
  "sign_text sg = (case sg of None \<Rightarrow> [] | Some s \<Rightarrow> [s])"

lemma received_trailing [receives]:
  assumes "received mem cap out t" and "n < 2 ^ 31" and "cap < 2 ^ 31"
  shows "received mem cap (out @ replicate n CHR '' '') (trailing_pad (- of_nat n) t)"
  using assms received_outchmulti [OF assms, of "CHR '' ''"]
  by (cases "n = 0") (simp_all add: trailing_pad_def sint_uminus32)

lemma trailing_zero [simp]: "trailing_pad 0 t = t"
  by (simp add: trailing_pad_def)

lemma leading_left:
  assumes "received mem cap out t" and "p < 2 ^ 31" and "cap < 2 ^ 31"
  shows "fst (leading_pad z sg (- of_nat p) t) = - of_nat (p - length (sign_text sg)) \<and>
    received mem cap (out @ sign_text sg) (snd (leading_pad z sg (- of_nat p) t))"
  using assms received_outch [OF assms(1)]
  by (cases sg; cases p) (simp_all add: leading_pad_def sint_uminus32 sign_text_def del: of_nat_Suc, simp_all)

lemma leading_zeros:
  assumes "received mem cap out t" and "0 < p" and "p < 2 ^ 31" and "cap < 2 ^ 31"
  shows "fst (leading_pad (Some z) sg (of_nat p) t) = 0 \<and>
    received mem cap (out @ sign_text sg @ replicate (p - length (sign_text sg)) z)
      (snd (leading_pad (Some z) sg (of_nat p) t))"
proof (cases sg)
  case None
  then show ?thesis
    using assms received_outchmulti [OF assms(1,3,4), of z] by (simp add: leading_pad_def sint_of_nat32 sign_text_def)
next
  case (Some s)
  obtain q where q: "p = Suc q" "q < 2 ^ 31" using assms(2,3) by (cases p) auto
  show ?thesis
    using assms received_outchmulti [OF received_outch [OF assms(1), of s] q(2) assms(4), of z] received_outch [OF assms(1), of s]
    by (cases "q = 0") (simp_all add: Some q leading_pad_def sint_of_nat32 sign_text_def del: of_nat_Suc, simp_all add: sint_of_nat32)
qed

lemma leading_spaces:
  assumes "received mem cap out t" and "p < 2 ^ 31" and "cap < 2 ^ 31" and "z = None \<or> p = 0"
  shows "fst (leading_pad z sg (of_nat p) t) = 0 \<and>
    received mem cap (out @ replicate (p - length (sign_text sg)) CHR '' '' @ sign_text sg)
      (snd (leading_pad z sg (of_nat p) t))"
proof (cases sg)
  case None
  then show ?thesis
    using assms received_outchmulti [OF assms(1-3), of "CHR '' ''"]
    by (cases "p = 0") (simp_all add: leading_pad_def sint_of_nat32 sign_text_def)
next
  case (Some s)
  show ?thesis
  proof (cases p)
    case 0
    then show ?thesis using received_outch [OF assms(1), of s] by (simp add: Some leading_pad_def sign_text_def)
  next
    case (Suc q)
    then have q: "q < 2 ^ 31" using assms(2) by simp
    show ?thesis
      using Suc assms received_outch [OF received_outchmulti [OF assms(1) q assms(3), of "CHR '' ''"], of s] received_outch [OF assms(1), of s]
      by (cases "q = 0") (simp_all add: Some leading_pad_def sint_of_nat32 sign_text_def del: of_nat_Suc, simp_all add: sint_of_nat32)
  qed
qed

lemma received_padded:
  assumes "received mem cap out t" and "w < 2 ^ 31" and "length body < 2 ^ 31" and "cap < 2 ^ 31"
    and "z = None \<or> z = Some CHR ''0''"
    and body: "\<And>out t. received mem cap out t \<Longrightarrow> received mem cap (out @ body) (print t)"
  shows "received mem cap (out @ padded left z w (sign_text sg) body)
    (case leading_pad z sg (compute_padlen (of_nat w) (of_nat (length body)) left) t of
       (padlen, t) \<Rightarrow> trailing_pad padlen (print t))"
proof -
  define p where "p = w - length body"
  have p: "p < 2 ^ 31" "p - length (sign_text sg) = w - length (sign_text sg @ body)"
    "p - length (sign_text sg) < 2 ^ 31" using assms(2) by (auto simp: p_def)
  have pad: "compute_padlen (of_nat w) (of_nat (length body)) left = (if left then - of_nat p else of_nat p)"
    unfolding p_def by (rule compute_padlen_nat [OF assms(2,3)])
  consider "left" | "\<not> left" "z \<noteq> None" "0 < p" | "\<not> left" "z = None \<or> p = 0"
    by (cases "left"; cases "z = None"; cases "p = 0") auto
  then show ?thesis
  proof cases
    case 1
    then show ?thesis
      unfolding pad
      using leading_left [OF assms(1) p(1) assms(4), of z sg] received_trailing [OF body p(3) assms(4), of "out @ sign_text sg"]
      by (simp add: case_prod_beta padded_def p(2) del: length_append)
  next
    case 2
    then obtain c where "z = Some c" by auto
    with 2 show ?thesis
      unfolding pad
      using leading_zeros [OF assms(1) _ p(1) assms(4), of c sg] body
      by (fastforce simp: case_prod_beta padded_def p(2) simp del: length_append)
  next
    case 3
    then have "padded left z w (sign_text sg) body = replicate (p - length (sign_text sg)) CHR '' '' @ sign_text sg @ body"
      by (auto simp: padded_def p_def split: option.split)
    with 3 show ?thesis
      unfolding pad
      using leading_spaces [OF assms(1) p(1) assms(4) 3(2), of sg] body
      by (fastforce simp: case_prod_beta)
  qed
qed

subsection \<open>Integers and strings\<close>

text \<open>An unsigned number in a base, with the digits of a table.\<close>

fun radix_text :: "nat \<Rightarrow> string \<Rightarrow> nat \<Rightarrow> string" where
  "radix_text b cvt n =
     (if n < b \<or> b \<le> 1 then [cvt ! (n mod b)] else radix_text b cvt (n div b) @ [cvt ! (n mod b)])"

declare radix_text.simps [simp del]

lemma convert_loop_radix:
  assumes "1 < base"
  shows "convert_loop base cvt uvalue acc = radix_text (unat base) cvt (unat uvalue) @ acc"
  using assms
proof (induction base cvt uvalue acc rule: convert_loop.induct)
  case (1 base cvt uvalue acc)
  have b: "1 < unat base" using 1(2) by (simp add: word_less_nat_alt)
  have "uvalue div base = 0 \<longleftrightarrow> unat uvalue < unat base"
    using b by (simp add: unat_eq_zero [symmetric] unat_div div_eq_0_iff del: unat_eq_0)
  with 1 b show ?case
    by (subst convert_loop.simps, subst radix_text.simps) (auto simp: Let_def unat_div unat_mod)
qed

lemma length_radix_text: "n < 2 ^ k \<Longrightarrow> 0 < k \<Longrightarrow> 1 < b \<Longrightarrow> length (radix_text b cvt n) \<le> k"
proof (induction k arbitrary: n)
  case (Suc k)
  show ?case
  proof (cases "n < b")
    case False
    have "n div b < 2 ^ k"
      using Suc.prems div_le_mono2 [of 2 b n] by (simp add: less_mult_imp_div_less order_le_less_trans mult.commute)
    moreover have "0 < k" using False Suc.prems by (cases k) auto
    ultimately show ?thesis
      using Suc.IH [of "n div b"] Suc.prems False by (simp add: radix_text.simps [of b cvt n])
  qed (simp add: radix_text.simps)
qed simp

lemma radix_text_dec: "radix_text 10 ''0123456789abcdef'' n = dec n"
proof (induction n rule: dec.induct)
  case (1 n)
  have "''0123456789abcdef'' ! (n mod 10) = digit_char (n mod 10)"
  proof -
    have "map (\<lambda>d. ''0123456789abcdef'' ! d) [0..<10] = map digit_char [0..<10]" by code_simp
    then have "\<forall>d\<in>set [0..<10]. ''0123456789abcdef'' ! d = digit_char d" by (simp only: map_eq_conv)
    then show ?thesis by simp
  qed
  with 1 show ?case by (subst radix_text.simps, subst dec.simps) auto
qed

definition int_sign :: "bool \<Rightarrow> bool \<Rightarrow> int64 \<Rightarrow> char option" where
  "int_sign dosign forced val =
     (if dosign \<and> sint val < 0 then Some CHR ''-'' else if dosign \<and> forced then Some CHR ''+'' else None)"

definition int_body_text :: "char \<Rightarrow> nat option \<Rightarrow> int64 \<Rightarrow> string" where
  "int_body_text type prec val =
     (case int_conversion type of
        None \<Rightarrow> []
      | Some (base, dosign, cvt) \<Rightarrow>
          let ds = (if val = 0 \<and> prec = Some 0 then []
                    else radix_text (unat base) cvt (if dosign then nat \<bar>sint val\<bar> else unat val))
          in replicate ((case prec of None \<Rightarrow> 0 | Some p \<Rightarrow> p) - length ds) CHR ''0'' @ ds)"

lemma received_fmtint [receives]:
  assumes r: "received mem cap out t" and cap: "cap < 2 ^ 31" and w: "w < 2 ^ 31"
    and prec: "case prec of None \<Rightarrow> True | Some p \<Rightarrow> p < 2 ^ 31" and z: "z = None \<or> z = Some CHR ''0''"
    and type: "int_conversion type = Some (base, dosign, cvt)"
  shows "received mem cap
      (out @ padded left z w (sign_text (int_sign dosign forced val)) (int_body_text type prec val))
      (fmtint val type forced left (of_nat w) z (of_nat (case prec of None \<Rightarrow> 0 | Some p \<Rightarrow> p)) (prec \<noteq> None) t)"
proof -
  define p where "p = (case prec of None \<Rightarrow> 0 | Some p \<Rightarrow> p)"
  define ds where "ds = (if val = 0 \<and> prec = Some 0 then []
                    else radix_text (unat base) cvt (if dosign then nat \<bar>sint val\<bar> else unat val))"
  have b: "1 < base" using type by (auto simp: int_conversion_def split: if_splits)
  obtain negate sv where neg: "(if dosign then adjust_sign (sint val < 0) forced None else (False, None)) = (negate, sv)"
    by fastforce
  have u: "unat (if negate then - val else val) = (if dosign then nat \<bar>sint val\<bar> else unat val)"
    using unat_abs [of val] neg by (auto simp: adjust_sign_def split: if_splits)
  have sg: "sv = int_sign dosign forced val"
    using neg by (auto simp: adjust_sign_def int_sign_def split: if_splits)
  have p: "p < 2 ^ 31" using prec by (simp add: p_def split: option.splits)
  have "(of_nat p :: int32) = 0 \<longleftrightarrow> p = 0" using unat_of_nat32 [OF p] by auto
  then have "prec \<noteq> None \<and> (of_nat p :: int32) = 0 \<longleftrightarrow> prec = Some 0" by (auto simp: p_def split: option.splits)
  then have ds: "(if val = 0 \<and> prec \<noteq> None \<and> (of_nat p :: int32) = 0 then []
      else convert_loop base cvt (if negate then - val else val) []) = ds"
    unfolding ds_def convert_loop_radix [OF b] u by auto
  have "(if dosign then nat \<bar>sint val\<bar> else unat val) < 2 ^ 64" unfolding u [symmetric] by (rule unat_less_u64)
  then have len: "length ds \<le> 64"
    using length_radix_text [of _ 64 "unat base" cvt] b by (simp add: ds_def word_less_nat_alt)
  define print where "print = (\<lambda>t. dostr ds (of_nat (length ds))
    (if 0 < sint (of_nat (p - length ds) :: int32) then dopr_outchmulti CHR ''0'' (of_nat (p - length ds)) t else t))"
  have zp: "(if sint (of_nat p - of_nat (length ds) :: int32) < 0 then 0 else of_nat p - of_nat (length ds)) =
      (of_nat (p - length ds) :: int32)"
    using compute_padlen_nat [OF p, of "length ds" False] len by (simp add: compute_padlen_def Let_def)
  have body: "int_body_text type prec val = replicate (p - length ds) CHR ''0'' @ ds"
    unfolding int_body_text_def type option.case prod.case p_def ds_def Let_def ..
  have "fmtint val type forced left (of_nat w) z (of_nat p) (prec \<noteq> None) t =
    (case leading_pad z (int_sign dosign forced val) (compute_padlen (of_nat w) (of_nat (length (int_body_text type prec val))) left) t of
       (padlen, t) \<Rightarrow> trailing_pad padlen (print t))"
    unfolding fmtint_def type option.case prod.case neg sg Let_def ds zp body print_def
    by (simp only: length_append length_replicate of_nat_add add.commute)
  moreover have "received mem cap (out @ int_body_text type prec val) (print t)" if "received mem cap out t" for out t
    using received_dostr [OF received_outchmulti [OF that _ cap], of "p - length ds" "length ds" ds "CHR ''0''"]
      received_dostr [OF that, of "length ds" ds] len p cap
    by (cases "p - length ds = 0") (auto simp: print_def body sint_of_nat32 simp del: of_nat_diff)
  moreover have "length (int_body_text type prec val) < 2 ^ 31" using len p by (simp add: body)
  ultimately show ?thesis
    using received_padded [OF r w _ cap z, of "int_body_text type prec val" print] by (simp add: p_def)
qed

text \<open>Strings and characters are padded like a number without sign and zeros.\<close>

lemma leading_none:
  "leading_pad None None padlen t = (if 0 < sint padlen then (0, dopr_outchmulti CHR '' '' padlen t) else (padlen, t))"
  by (simp add: leading_pad_def)

definition str_text :: "nat option \<Rightarrow> string \<Rightarrow> string" where
  "str_text prec val = (case prec of None \<Rightarrow> val | Some p \<Rightarrow> take p val)"

lemma unat_scast_of_nat: "p < 2 ^ 31 \<Longrightarrow> unat (scast (of_nat p :: int32) :: uint64) = p"
  by (simp add: scast_eq sint_of_nat32 no_wrap)

lemma received_fmtstr [receives]:
  assumes r: "received mem cap out t" and cap: "cap < 2 ^ 31" and w: "w < 2 ^ 31"
    and prec: "case prec of None \<Rightarrow> True | Some p \<Rightarrow> p < 2 ^ 31" and val: "length val < 2 ^ 31"
  shows "received mem cap (out @ padded left None w [] (str_text prec val))
      (fmtstr val left (of_nat w) (of_nat (case prec of None \<Rightarrow> 0 | Some p \<Rightarrow> p)) (prec \<noteq> None) t)"
proof -
  let ?n = "length (str_text prec val)"
  have n: "?n < 2 ^ 31" "?n \<le> length val" using val by (auto simp: str_text_def split: option.split)
  have "(if prec \<noteq> None then of_nat (min (length val) (unat (scast (of_nat (case prec of None \<Rightarrow> 0 | Some p \<Rightarrow> p) :: int32) :: uint64)))
      else of_nat (length val)) = (of_nat ?n :: int32)"
    using prec by (auto simp: str_text_def unat_scast_of_nat split: option.splits)
  then have "fmtstr val left (of_nat w) (of_nat (case prec of None \<Rightarrow> 0 | Some p \<Rightarrow> p)) (prec \<noteq> None) t =
    (case leading_pad None None (compute_padlen (of_nat w) (of_nat ?n) left) t of
       (padlen, t) \<Rightarrow> trailing_pad padlen (dostr val (of_nat ?n) t))"
    unfolding fmtstr_def Let_def leading_none by simp
  moreover have "take ?n val = str_text prec val" by (simp add: str_text_def min_def split: option.split)
  then have "received mem cap (out @ str_text prec val) (dostr val (of_nat ?n) t)" if "received mem cap out t" for out t
    using received_dostr [OF that n(2,1) cap] by simp
  ultimately show ?thesis
    using received_padded [OF r w n(1) cap, where z = None and sg = None and left = left] by (simp add: sign_text_def)
qed

lemma received_fmtchar [receives]:
  assumes "received mem cap out t" and "cap < 2 ^ 31" and "w < 2 ^ 31"
  shows "received mem cap (out @ padded left None w [] [ch]) (fmtchar ch left (of_nat w) t)"
  using received_padded [OF assms(1,3) _ assms(2), where z = None and sg = None and left = left and body = "[ch]" and print = "dopr_outch ch"]
    received_outch
  by (simp add: sign_text_def fmtchar_def Let_def leading_none)

end
