(* ===== verification/Printf_Formats.thy ===== *)
theory Printf_Formats
  imports Snprintf
begin

section \<open>What a format prints\<close>

text \<open>
  A reference for the formats of \<open>snprintf.c\<close> whose conversions are integers, strings,
  characters and the percent sign, with flags, width and precision: the text of the
  format, its arguments and its output. The scan of such a format by the definitions
  of \<open>Snprintf\<close> prints that output.
\<close>

subsection \<open>Formats\<close>

text \<open>
  A format as a sequence of specifications with the text in front of each, and the
  text behind the last one; what it prints, with the arguments of the call.
\<close>

record fmt_flags =
  f_left :: bool
  f_sign :: bool
  f_zero :: bool
  f_width :: nat
  f_prec :: "nat option"

definition plain :: fmt_flags where
  "plain = \<lparr>f_left = False, f_sign = False, f_zero = False, f_width = 0, f_prec = None\<rparr>"

datatype fmt_conv = Percent | Conv fmt_flags string char PrintfArgValue

definition flags_text :: "fmt_flags \<Rightarrow> string" where
  "flags_text f =
     (if f_left f then ''-'' else []) @ (if f_sign f then ''+'' else []) @ (if f_zero f then ''0'' else []) @
     (if f_width f = 0 then [] else dec (f_width f)) @
     (case f_prec f of None \<Rightarrow> [] | Some p \<Rightarrow> CHR ''.'' # dec p)"

fun conv_text :: "fmt_conv \<Rightarrow> string" where
  "conv_text Percent = ''%%''"
| "conv_text (Conv f m ch a) = CHR ''%'' # flags_text f @ m @ [ch]"

fun conv_args :: "fmt_conv \<Rightarrow> PrintfArgValue list" where
  "conv_args Percent = []"
| "conv_args (Conv f m ch a) = [a]"

definition conv_arg_type :: "string \<Rightarrow> char \<Rightarrow> PrintfArgType" where
  "conv_arg_type m ch =
     (if ch = CHR ''s'' then ATYPE_CHARPTR else if ch = CHR ''c'' then ATYPE_INT
      else int_arg_type (m \<noteq> []) (m = ''ll''))"

fun conv_ok :: "fmt_conv \<Rightarrow> bool" where
  "conv_ok Percent = True"
| "conv_ok (Conv f m ch a) \<longleftrightarrow>
     m \<in> {[], ''l'', ''ll''} \<and> ch \<in> set ''cdiosuxX'' \<and> type_of_arg a = conv_arg_type m ch \<and>
     f_width f < 2 ^ 31 \<and> (case f_prec f of None \<Rightarrow> True | Some p \<Rightarrow> p < 2 ^ 31) \<and>
     length (strvalue a) < 2 ^ 31"

fun conv_out :: "fmt_conv \<Rightarrow> string" where
  "conv_out Percent = ''%''"
| "conv_out (Conv f m ch a) =
     (if ch = CHR ''s'' then padded (f_left f) None (f_width f) [] (str_text (f_prec f) (strvalue a))
      else if ch = CHR ''c'' then padded (f_left f) None (f_width f) [] [char_of (unat (arg_int a) mod 256)]
      else
        let val = (if ch \<in> set ''di'' then signed_arg a else unsigned_arg a)
        in padded (f_left f) (if f_zero f then Some CHR ''0'' else None) (f_width f)
             (sign_text (int_sign (ch \<in> set ''di'') (f_sign f) val)) (int_body_text ch (f_prec f) val))"

definition seg_text :: "string \<times> fmt_conv \<Rightarrow> string" where
  "seg_text = (\<lambda>(l, cv). l @ conv_text cv)"

definition seg_out :: "string \<times> fmt_conv \<Rightarrow> string" where
  "seg_out = (\<lambda>(l, cv). l @ conv_out cv)"

definition literal_ok :: "string \<Rightarrow> bool" where
  "literal_ok l \<longleftrightarrow> CHR ''%'' \<notin> set l \<and> length l < 2 ^ 31"

definition fmt_ok :: "(string \<times> fmt_conv) list \<Rightarrow> string \<Rightarrow> bool" where
  "fmt_ok segs rest \<longleftrightarrow> list_all (\<lambda>(l, cv). literal_ok l \<and> conv_ok cv) segs \<and> literal_ok rest"

definition fmt_text :: "(string \<times> fmt_conv) list \<Rightarrow> string \<Rightarrow> string" where
  "fmt_text segs rest = concat (map seg_text segs) @ rest"

definition fmt_args :: "(string \<times> fmt_conv) list \<Rightarrow> PrintfArgValue list" where
  "fmt_args segs = concat (map (conv_args \<circ> snd) segs)"

definition fmt_out :: "(string \<times> fmt_conv) list \<Rightarrow> string \<Rightarrow> string" where
  "fmt_out segs rest = concat (map seg_out segs) @ rest"

subsection \<open>The scan of a specification\<close>

lemma flag_chars:
  "\<not> digit CHR ''-''" "\<not> digit CHR ''+''" "\<not> digit CHR ''.''" "\<not> digit CHR ''l''" "digit CHR ''0''"
  by (simp_all add: digit_def char_code_def)

lemma digit_value_char: "d < 10 \<Longrightarrow> digit_value (digit_char d) = of_nat d"
  by (simp add: digit_value_def char_code_digit)

lemma digit_char_props: "d < 10 \<Longrightarrow> digit (digit_char d) \<and> digit_char d \<noteq> CHR ''-'' \<and> digit_char d \<noteq> CHR ''+''"
  using char_code_digit [of d] flag_chars by (auto simp: digit_def)

lemma digit_char_zero: "d < 10 \<Longrightarrow> digit_char d = CHR ''0'' \<longleftrightarrow> d = 0"
  using char_code_digit [of d] dec_zero by (auto simp: char_code_def dec.simps [of 0])

lemma nextch2_digit:
  assumes "d < 10" and "d \<noteq> 0 \<or> accum sp \<noteq> 0 \<or> pointflag sp"
  shows "nextch2 (digit_char d # rest) c fp sp st = nextch2 rest c fp (sp\<lparr>accum := accum sp * 10 + of_nat d\<rparr>) st"
  using assms digit_char_props [OF assms(1)] digit_char_zero [OF assms(1)] by (auto simp: digit_value_char)

lemma nextch2_dec:
  "n < 2 ^ 31 \<Longrightarrow> accum sp = 0 \<Longrightarrow> 0 < n \<or> pointflag sp \<Longrightarrow>
   nextch2 (dec n @ rest) c fp sp st = nextch2 rest c fp (sp\<lparr>accum := of_nat n\<rparr>) st"
proof (induction n arbitrary: rest rule: dec.induct)
  case (1 n)
  show ?case
  proof (cases "n < 10")
    case True
    with 1(3,4) show ?thesis by (subst dec.simps) (auto simp: nextch2_digit simp del: nextch2.simps)
  next
    case False
    let ?sp = "sp\<lparr>accum := of_nat (n div 10)\<rparr>"
    have small: "n div 10 < 2 ^ 31" by (rule le_less_trans [OF div_le_dividend 1(2)])
    then have nz: "(of_nat (n div 10) :: int32) \<noteq> 0" using False unat_of_nat32 [of "n div 10"] by (auto simp: div_eq_0_iff)
    have "nextch2 (dec n @ rest) c fp sp st = nextch2 (dec (n div 10) @ digit_char (n mod 10) # rest) c fp sp st"
      using False by (subst dec.simps) simp
    also have "\<dots> = nextch2 (digit_char (n mod 10) # rest) c fp ?sp st"
      using False 1 small by (simp add: div_greater_zero_iff del: nextch2.simps)
    also have "\<dots> = nextch2 rest c fp (?sp\<lparr>accum := accum ?sp * 10 + of_nat (n mod 10)\<rparr>) st"
      using nz by (intro nextch2_digit) simp_all
    also have "\<dots> = nextch2 rest c fp (sp\<lparr>accum := of_nat n\<rparr>) st"
    proof -
      have "of_nat (n div 10) * 10 + of_nat (n mod 10) = (of_nat (n div 10 * 10 + n mod 10) :: int32)"
        by (simp only: of_nat_add of_nat_mult of_nat_numeral)
      then show ?thesis by (simp del: nextch2.simps)
    qed
    finally show ?thesis .
  qed
qed

lemma nextch2_flag_simps:
  "nextch2 (CHR ''-'' # format) c fp sp st = nextch2 format c fp (sp\<lparr>leftjust := True\<rparr>) st"
  "nextch2 (CHR ''+'' # format) c fp sp st = nextch2 format c fp (sp\<lparr>forcesign := True\<rparr>) st"
  "nextch2 (CHR ''0'' # format) c fp sp st = nextch2 format c fp
     (sp\<lparr>zpad := (if accum sp = 0 \<and> \<not> pointflag sp then Some CHR ''0'' else zpad sp), accum := accum sp * 10\<rparr>) st"
  "nextch2 (CHR ''.'' # format) c fp sp st = nextch2 format c fp
     (if have_star sp then sp\<lparr>have_star := False, pointflag := True, accum := 0\<rparr>
      else sp\<lparr>fieldwidth := accum sp, pointflag := True, accum := 0\<rparr>) st"
  "nextch2 (CHR ''l'' # format) c fp sp st =
     nextch2 format c fp (if longflag sp then sp\<lparr>longlongflag := True\<rparr> else sp\<lparr>longflag := True\<rparr>) st"
  by (simp_all add: flag_chars, simp add: digit_value_def char_code_def)

definition spec_of :: "fmt_flags \<Rightarrow> string \<Rightarrow> conv_spec" where
  "spec_of f m = new_spec
     \<lparr>leftjust := f_left f, forcesign := f_sign f, zpad := (if f_zero f then Some CHR ''0'' else None),
      accum := (case f_prec f of None \<Rightarrow> of_nat (f_width f) | Some p \<Rightarrow> of_nat p),
      fieldwidth := (case f_prec f of None \<Rightarrow> 0 | Some p \<Rightarrow> of_nat (f_width f)),
      pointflag := f_prec f \<noteq> None, longflag := m \<noteq> [], longlongflag := m = ''ll''\<rparr>"

lemma nextch2_width:
  assumes "w < 2 ^ 31" and "accum sp = 0" and "\<not> pointflag sp"
  shows "nextch2 ((if w = 0 then [] else dec w) @ rest) c fp sp st = nextch2 rest c fp (sp\<lparr>accum := of_nat w\<rparr>) st"
proof (cases "w = 0")
  case True
  then show ?thesis using assms(2) by (cases sp) simp
next
  case False
  then show ?thesis using nextch2_dec [OF assms(1,2)] by simp
qed

lemma nextch2_flags:
  assumes "f_width f < 2 ^ 31" and "case f_prec f of None \<Rightarrow> True | Some p \<Rightarrow> p < 2 ^ 31"
  shows "nextch2 (flags_text f @ rest) c fp new_spec st = nextch2 rest c fp (spec_of f []) st"
proof -
  define sp where "sp = new_spec\<lparr>leftjust := f_left f, forcesign := f_sign f,
      zpad := (if f_zero f then Some CHR ''0'' else None)\<rparr>"
  have "nextch2 (flags_text f @ rest) c fp new_spec st =
    nextch2 ((if f_width f = 0 then [] else dec (f_width f)) @ (case f_prec f of None \<Rightarrow> [] | Some p \<Rightarrow> CHR ''.'' # dec p) @ rest)
      c fp sp st"
    by (simp add: flags_text_def sp_def nextch2_flag_simps new_spec_def del: nextch2.simps)
  also have "\<dots> = nextch2 ((case f_prec f of None \<Rightarrow> [] | Some p \<Rightarrow> CHR ''.'' # dec p) @ rest) c fp
      (sp\<lparr>accum := of_nat (f_width f)\<rparr>) st"
    by (rule nextch2_width [OF assms(1)]) (simp_all add: sp_def new_spec_def)
  also have "\<dots> = nextch2 rest c fp (spec_of f []) st"
  proof (cases "f_prec f")
    case None
    then show ?thesis by (simp add: spec_of_def sp_def new_spec_def)
  next
    case (Some p)
    with assms(2) show ?thesis
      by (simp add: nextch2_flag_simps nextch2_dec spec_of_def sp_def new_spec_def del: nextch2.simps)
  qed
  finally show ?thesis .
qed

lemma nextch2_modifier:
  assumes "m \<in> {[], ''l'', ''ll''}"
  shows "nextch2 (m @ rest) c fp (spec_of f []) st = nextch2 rest c fp (spec_of f m) st"
  using assms by (auto simp: nextch2_flag_simps spec_of_def new_spec_def simp del: nextch2.simps)

lemma conv_chars:
  assumes "ch \<in> set ''cdiosuxX%''"
  shows "\<not> digit ch" "ch \<noteq> CHR ''-''" "ch \<noteq> CHR ''+''" "ch \<noteq> CHR ''.''" "ch \<noteq> CHR ''*''" "ch \<noteq> CHR ''$''"
    "ch \<noteq> CHR ''l''" "ch \<noteq> CHR ''j''" "ch \<noteq> CHR ''z''" "ch \<noteq> CHR ''h''" "ch \<noteq> CHR 0x27"
  using assms by (auto simp: digit_def char_code_def)

lemma nextch2_spec:
  assumes "f_width f < 2 ^ 31" and "case f_prec f of None \<Rightarrow> True | Some p \<Rightarrow> p < 2 ^ 31"
    and "m \<in> {[], ''l'', ''ll''}" and "ch \<in> set ''cdiosuxX%''"
  shows "nextch2 (flags_text f @ m @ ch # rest) c fp new_spec st =
    map_option (\<lambda>st. (rest, st)) (conversion c ch (spec_of f m) st)"
proof -
  have "nextch2 (ch # rest) c fp sp st = map_option (\<lambda>st. (rest, st)) (conversion c ch sp st)" for sp
    by (simp only: nextch2.simps conv_chars [OF assms(4)] if_False simp_thms)
  then show ?thesis
    using nextch2_flags [OF assms(1,2), of "m @ ch # rest" c fp st] nextch2_modifier [OF assms(3)]
    by (simp del: nextch2.simps)
qed

lemma settled_spec:
  "settle_width (spec_of f m) = (spec_of f m)
     \<lparr>fieldwidth := of_nat (f_width f), precision := of_nat (case f_prec f of None \<Rightarrow> 0 | Some p \<Rightarrow> p)\<rparr>"
  by (simp add: settle_width_def spec_of_def new_spec_def split: option.split)

lemma spec_of_simps [simp]:
  "leftjust (spec_of f m) = f_left f" "forcesign (spec_of f m) = f_sign f"
  "zpad (spec_of f m) = (if f_zero f then Some CHR ''0'' else None)" "pointflag (spec_of f m) = (f_prec f \<noteq> None)"
  "longflag (spec_of f m) = (m \<noteq> [])" "longlongflag (spec_of f m) = (m = ''ll'')"
  by (simp_all add: spec_of_def)

lemma int_conversions:
  assumes "ch \<in> set ''diouxX''"
  shows "\<exists>base cvt. int_conversion ch = Some (base, ch \<in> set ''di'', cvt)"
  using assms by (auto simp: int_conversion_def)

lemma received_conversion:
  assumes ok: "conv_ok (Conv f m ch a)" and r: "received mem cap out (target st)" and cap: "cap < 2 ^ 31"
    and args: "va_args st = a # args" and nd: "\<not> have_dollar st"
  shows "\<exists>st'. conversion c ch (spec_of f m) st = Some st' \<and> va_args st' = args \<and> \<not> have_dollar st' \<and>
    received mem cap (out @ conv_out (Conv f m ch a)) (target st')"
proof -
  have ty: "type_of_arg a = conv_arg_type m ch" and w: "f_width f < 2 ^ 31"
    and p: "case f_prec f of None \<Rightarrow> True | Some p \<Rightarrow> p < 2 ^ 31" and s: "length (strvalue a) < 2 ^ 31"
    using ok by simp_all
  have fetch: "fetch (conv_arg_type m ch) (spec_of f m) st = Some (a, st\<lparr>va_args := args\<rparr>)"
    using args nd ty by (simp add: fetch_def)
  consider "ch = CHR ''s''" | "ch = CHR ''c''" | "ch \<in> set ''di''" | "ch \<in> set ''ouxX''" using ok by auto
  then show ?thesis
  proof cases
    case 1
    with received_fmtstr [OF r cap w p s, of "f_left f"] fetch show ?thesis
      by (simp add: conversion_def settled_spec conv_arg_type_def on_target_def nd)
  next
    case 2
    with received_fmtchar [OF r cap w, of "f_left f"] fetch show ?thesis
      by (simp add: conversion_def settled_spec conv_arg_type_def on_target_def nd)
  next
    case 3
    then obtain base cvt where conv: "int_conversion ch = Some (base, True, cvt)"
      using int_conversions [of ch] by auto
    have ty: "conv_arg_type m ch = int_arg_type (m \<noteq> []) (m = ''ll'')" "ch \<noteq> CHR ''s''" "ch \<noteq> CHR ''c''"
      using 3 by (auto simp: conv_arg_type_def)
    show ?thesis
      using 3 fetch received_fmtint [OF r cap w p _ conv, of "if f_zero f then Some CHR ''0'' else None" "f_left f" "f_sign f" "signed_arg a"]
      unfolding conversion_def settled_spec ty Let_def
      by (cases "f_zero f") (simp_all add: ty on_target_def nd Let_def)
  next
    case 4
    then obtain base cvt where conv: "int_conversion ch = Some (base, False, cvt)" and di: "ch \<notin> set ''di''"
      using int_conversions [of ch] by auto
    have ty: "conv_arg_type m ch = int_arg_type (m \<noteq> []) (m = ''ll'')" "ch \<noteq> CHR ''s''" "ch \<noteq> CHR ''c''"
      using 4 by (auto simp: conv_arg_type_def)
    show ?thesis
      using 4 fetch di received_fmtint [OF r cap w p _ conv, of "if f_zero f then Some CHR ''0'' else None" "f_left f" "f_sign f" "unsigned_arg a"]
      unfolding conversion_def settled_spec ty Let_def
      by (cases "f_zero f") (simp_all add: ty on_target_def nd Let_def)
  qed
qed

subsection \<open>The scan of a format\<close>

lemma pct_split:
  assumes "CHR ''%'' \<notin> set l"
  shows "takeWhile (\<lambda>ch. ch \<noteq> CHR ''%'') (l @ CHR ''%'' # rest) = l"
    "dropWhile (\<lambda>ch. ch \<noteq> CHR ''%'') (l @ CHR ''%'' # rest) = CHR ''%'' # rest"
    "takeWhile (\<lambda>ch. ch \<noteq> CHR ''%'') l = l" "dropWhile (\<lambda>ch. ch \<noteq> CHR ''%'') l = []"
  using assms by (auto simp: takeWhile_tail dropWhile_append3 takeWhile_eq_all_conv)

lemma received_literal:
  assumes "literal_ok l" and "received mem cap out (target st)" and "cap < 2 ^ 31"
  shows "received mem cap (out @ l)
    (target (if l = [] then st else on_target (dostr l (of_nat (length l))) st))"
  using assms received_dostr [OF assms(2) order_refl, of l] by (auto simp: literal_ok_def on_target_def)

lemma dopr_loop_literal:
  assumes "literal_ok l" and "received mem cap out (target st)" and "cap < 2 ^ 31"
  shows "\<exists>st'. dopr_loop c fp l st = Some st' \<and> received mem cap (out @ l) (target st')"
proof (cases "l = []")
  case True
  with assms(2) show ?thesis by (subst dopr_loop.simps) simp
next
  case False
  then show ?thesis
    using received_literal [OF assms] assms(1)
    by (subst dopr_loop.simps) (simp add: literal_ok_def Let_def pct_split)
qed

lemma digits_dec: "list_all digit (dec n)"
proof (induction n rule: dec.induct)
  case (1 n)
  then show ?case by (subst dec.simps) (auto simp: digit_char_props)
qed

lemma flags_no_s: "CHR ''s'' \<notin> set (flags_text f)"
proof -
  have "CHR ''s'' \<notin> set (dec n)" for n
    using digits_dec [of n] by (auto simp: list_all_iff digit_def char_code_def)
  then show ?thesis by (auto simp: flags_text_def split: option.splits)
qed

lemma flags_text_Nil: "flags_text f = [] \<Longrightarrow> \<not> f_left f \<and> f_width f = 0 \<and> f_prec f = None"
  using dec_length_bounds(3) [of "f_width f"] by (auto simp: flags_text_def split: if_splits option.splits)

lemma fast_path:
  assumes "m \<in> {[], ''l'', ''ll''}" and "hd (flags_text f @ m @ ch # rest) = CHR ''s''"
  shows "flags_text f = []" "m = []" "ch = CHR ''s''"
  using assms flags_no_s [of f] by (cases "flags_text f"; auto)+

lemma dopr_loop_pct:
  assumes "literal_ok l" and "received mem cap out (target st)" and "cap < 2 ^ 31"
  obtains st1 fp1 where "received mem cap (out @ l) (target st1)" "va_args st1 = va_args st" "have_dollar st1 = have_dollar st"
    and "dopr_loop c fp (l @ CHR ''%'' # format) st =
      (if format \<noteq> [] \<and> hd format = CHR ''s'' then
         (case va_arg ATYPE_CHARPTR (va_args st1) of
            None \<Rightarrow> None
          | Some (a, args) \<Rightarrow>
              let st = on_target (dostr (strvalue a) (of_nat (length (strvalue a)))) (st1\<lparr>va_args := args\<rparr>)
              in if failed (target st) then Some st else dopr_loop c (Some fp1) (tl format) st)
       else
         (case nextch2 format c fp1 new_spec st1 of
            None \<Rightarrow> None
          | Some (rest, st) \<Rightarrow> if failed (target st) then Some st else dopr_loop c (Some fp1) rest st))"
proof -
  let ?st = "if l = [] then st else on_target (dostr l (of_nat (length l))) st"
  have r: "received mem cap (out @ l) (target ?st)" by (rule received_literal [OF assms])
  then have nf: "\<not> failed (target ?st)" by (simp add: received_def)
  show ?thesis
  proof (rule that [OF r, of "case fp of None \<Rightarrow> CHR ''%'' # format | Some p \<Rightarrow> p"])
    show "va_args ?st = va_args st" "have_dollar ?st = have_dollar st" by (simp_all add: on_target_def)
  qed (use assms(1) nf in \<open>subst (1) dopr_loop.simps, simp add: literal_ok_def Let_def pct_split cong: if_cong option.case_cong\<close>)
qed

lemma received_not_failed: "received mem cap out t \<Longrightarrow> \<not> failed t"
  by (simp add: received_def)

lemma scan_percent:
  "nextch2 (CHR ''%'' # rest) c fp new_spec st = Some (rest, on_target (dopr_outch CHR ''%'') st)"
proof -
  have "flags_text plain = []" by (simp add: flags_text_def plain_def)
  then show ?thesis
    using nextch2_spec [of plain "[]" "CHR ''%''" rest c fp st] by (simp add: plain_def conversion_def Let_def del: nextch2.simps)
qed

lemma dopr_loop_percent:
  assumes ok: "literal_ok l" and r: "received mem cap out (target st)" and cap: "cap < 2 ^ 31"
    and args: "va_args st = conv_args cv @ args" and nd: "\<not> have_dollar st" and cv: "cv = Percent"
  shows "\<exists>fp' st'. dopr_loop c fp (seg_text (l, cv) @ rest) st = dopr_loop c fp' rest st' \<and>
    received mem cap (out @ seg_out (l, cv)) (target st') \<and> va_args st' = args \<and> \<not> have_dollar st'"
proof -
  obtain st1 fp1 where 1: "received mem cap (out @ l) (target st1)" "va_args st1 = va_args st" "have_dollar st1 = have_dollar st"
    and run: "dopr_loop c fp (l @ CHR ''%'' # CHR ''%'' # rest) st =
      (case nextch2 (CHR ''%'' # rest) c fp1 new_spec st1 of
            None \<Rightarrow> None
          | Some (rest, st) \<Rightarrow> if failed (target st) then Some st else dopr_loop c (Some fp1) rest st)"
    by (rule dopr_loop_pct [OF ok r cap, of c fp "CHR ''%'' # rest"]) auto
  let ?st = "on_target (dopr_outch CHR ''%'') st1"
  have r2: "received mem cap (out @ seg_out (l, cv)) (target ?st)"
    using received_outch [OF 1(1)] by (simp add: cv seg_out_def on_target_def)
  have "dopr_loop c fp (seg_text (l, cv) @ rest) st = dopr_loop c (Some fp1) rest ?st"
    using run received_not_failed [OF r2] by (simp add: cv seg_text_def scan_percent del: nextch2.simps)
  with r2 1 args nd show ?thesis
    by (intro exI [of _ "Some fp1"] exI [of _ ?st]) (simp add: on_target_def cv)
qed

lemma dopr_loop_conv:
  assumes ok: "literal_ok l" "conv_ok cv" and r: "received mem cap out (target st)" and cap: "cap < 2 ^ 31"
    and args: "va_args st = conv_args cv @ args" and nd: "\<not> have_dollar st" and cv: "cv = Conv f m ch a"
  shows "\<exists>fp' st'. dopr_loop c fp (seg_text (l, cv) @ rest) st = dopr_loop c fp' rest st' \<and>
    received mem cap (out @ seg_out (l, cv)) (target st') \<and> va_args st' = args \<and> \<not> have_dollar st'"
proof -
  let ?fmt = "flags_text f @ m @ ch # rest"
  obtain st1 fp1 where 1: "received mem cap (out @ l) (target st1)" "va_args st1 = a # args" "\<not> have_dollar st1"
    and run: "dopr_loop c fp (seg_text (l, cv) @ rest) st =
      (if ?fmt \<noteq> [] \<and> hd ?fmt = CHR ''s'' then
         (case va_arg ATYPE_CHARPTR (va_args st1) of
            None \<Rightarrow> None
          | Some (a, args) \<Rightarrow>
              let st = on_target (dostr (strvalue a) (of_nat (length (strvalue a)))) (st1\<lparr>va_args := args\<rparr>)
              in if failed (target st) then Some st else dopr_loop c (Some fp1) (tl ?fmt) st)
       else
         (case nextch2 ?fmt c fp1 new_spec st1 of
            None \<Rightarrow> None
          | Some (rest, st) \<Rightarrow> if failed (target st) then Some st else dopr_loop c (Some fp1) rest st))"
    by (rule dopr_loop_pct [OF ok(1) r cap, of c fp ?fmt]) (use args nd cv in \<open>simp add: seg_text_def\<close>)
  have c: "conv_ok (Conv f m ch a)" and m: "m \<in> {[], ''l'', ''ll''}" using ok(2) cv by simp_all
  show ?thesis
  proof (cases "hd ?fmt = CHR ''s''")
    case True
    note fast = fast_path [OF m True]
    let ?st = "on_target (dostr (strvalue a) (of_nat (length (strvalue a)))) (st1\<lparr>va_args := args\<rparr>)"
    have "conv_out cv = strvalue a"
      using flags_text_Nil [OF fast(1)] by (simp add: cv fast padded_def str_text_def)
    then have r2: "received mem cap (out @ seg_out (l, cv)) (target ?st)"
      using received_dostr [OF 1(1) order_refl _ cap, of "strvalue a"] c by (simp add: seg_out_def on_target_def)
    have "dopr_loop c fp (seg_text (l, cv) @ rest) st = dopr_loop c (Some fp1) rest ?st"
      using run 1(2) c received_not_failed [OF r2] by (simp add: fast conv_arg_type_def Let_def)
    with r2 1 show ?thesis by (intro exI [of _ "Some fp1"] exI [of _ ?st]) (simp add: on_target_def)
  next
    case False
    obtain st' where st': "conversion c ch (spec_of f m) st1 = Some st'" "va_args st' = args" "\<not> have_dollar st'"
      "received mem cap (out @ seg_out (l, cv)) (target st')"
      using received_conversion [OF c 1(1) cap 1(2,3), of c] by (auto simp: seg_out_def cv)
    have "nextch2 ?fmt c fp1 new_spec st1 = Some (rest, st')"
      using nextch2_spec [of f m ch rest c fp1 st1] c st'(1) by auto
    then have "dopr_loop c fp (seg_text (l, cv) @ rest) st = dopr_loop c (Some fp1) rest st'"
      using run False received_not_failed [OF st'(4)] by (simp del: nextch2.simps)
    with st' show ?thesis by blast
  qed
qed

lemma dopr_loop_segment:
  assumes ok: "literal_ok l" "conv_ok cv" and r: "received mem cap out (target st)" and cap: "cap < 2 ^ 31"
    and args: "va_args st = conv_args cv @ args" and nd: "\<not> have_dollar st"
  shows "\<exists>fp' st'. dopr_loop c fp (seg_text (l, cv) @ rest) st = dopr_loop c fp' rest st' \<and>
    received mem cap (out @ seg_out (l, cv)) (target st') \<and> va_args st' = args \<and> \<not> have_dollar st'"
  using dopr_loop_percent [OF ok(1) r cap args nd] dopr_loop_conv [OF ok r cap args nd] by (cases cv) blast+

lemma dopr_loop_format:
  assumes "fmt_ok segs rest" and "received mem cap out (target st)" and "cap < 2 ^ 31"
    and "va_args st = fmt_args segs @ args" and "\<not> have_dollar st"
  shows "\<exists>st'. dopr_loop c fp (fmt_text segs rest) st = Some st' \<and>
    received mem cap (out @ fmt_out segs rest) (target st')"
  using assms
proof (induction segs arbitrary: out st fp)
  case Nil
  then show ?case using dopr_loop_literal [of rest mem cap out st c fp] by (simp add: fmt_ok_def fmt_text_def fmt_out_def)
next
  case (Cons seg segs)
  obtain l cv where seg: "seg = (l, cv)" by fastforce
  from Cons.prems dopr_loop_segment [of l cv mem cap out st "fmt_args segs @ args" c fp "fmt_text segs rest"]
  obtain fp' st' where
    "dopr_loop c fp (seg_text (l, cv) @ fmt_text segs rest) st = dopr_loop c fp' (fmt_text segs rest) st'"
    "received mem cap (out @ seg_out (l, cv)) (target st')" "va_args st' = fmt_args segs @ args" "\<not> have_dollar st'"
    by (auto simp: seg fmt_ok_def fmt_args_def)
  with Cons.IH [of "out @ seg_out (l, cv)" st' fp'] Cons.prems show ?case
    by (simp add: seg fmt_ok_def fmt_text_def fmt_out_def)
qed

lemma vsnprintf_prints:
  assumes "fmt_ok segs rest" and "0 < count" and "count \<le> 2 ^ 31"
  shows "pg_vsnprintf c mem count (fmt_text segs rest) (fmt_args segs @ args) =
    Some (of_nat (length (fmt_out segs rest)), memmove 0 (take (count - 1) (fmt_out segs rest) @ [CHR 0x00]) mem)"
proof -
  let ?out = "fmt_out segs rest"
  let ?st = "\<lparr>target = new_target mem (Some (count - 1)), va_args = fmt_args segs @ args, argvalues = [], have_dollar = False\<rparr>"
  have "count - 1 < 2 ^ 31" using assms(2,3) by simp
  with dopr_loop_format [OF assms(1), of mem "count - 1" "[]" ?st args c None] received_new [of mem "count - 1"]
  obtain st' where st': "dopr_loop c None (fmt_text segs rest) ?st = Some st'" "received mem (count - 1) ?out (target st')"
    by auto
  have "min (length ?out) (count - 1) = length (take (count - 1) ?out)" by simp
  moreover have "of_nat (min (length ?out) (count - 1)) + of_nat (length ?out - (count - 1)) = (of_nat (length ?out) :: int32)"
    by (simp only: of_nat_add [symmetric]) (simp add: min_def)
  ultimately show ?thesis
    using st' memmove_single [of "take (count - 1) ?out" mem "CHR 0x00"] assms(2)
    by (simp add: pg_vsnprintf_def dopr_def finish_target_def received_def)
qed

text \<open>
  C23: Formatting into a buffer of a given size prints exactly what the format denotes:
  the memory receives as much of the output as fits in front of a terminating zero, no
  byte at or behind the end of the buffer is written, and the result is the length of
  the whole output. Text, percent signs, strings, characters and integers in every
  base may occur, with flags, field width, precision and length modifier.
\<close>

theorem snprintf_formats:
  assumes "fmt_ok segs rest" and "0 < count" and "count \<le> 2 ^ 31"
    and "length (fmt_out segs rest) < 2 ^ 31"
  shows "\<exists>n mem'. pg_vsnprintf c mem count (fmt_text segs rest) (fmt_args segs @ args) = Some (n, mem') \<and>
    sint n = int (length (fmt_out segs rest)) \<and>
    map mem' [0..<min (length (fmt_out segs rest)) (count - 1)] = take (count - 1) (fmt_out segs rest) \<and>
    mem' (min (length (fmt_out segs rest)) (count - 1)) = CHR 0x00 \<and>
    (\<forall>i. count \<le> i \<longrightarrow> mem' i = mem i)"
proof -
  let ?s = "take (count - 1) (fmt_out segs rest)"
  have "map (memmove 0 (?s @ [CHR 0x00]) mem) [0..<length ?s] = ?s"
    by (rule nth_equalityI) (auto simp: memmove_def nth_append)
  moreover have "memmove 0 (?s @ [CHR 0x00]) mem (length ?s) = CHR 0x00" by (simp add: memmove_def nth_append)
  moreover have "\<forall>i. count \<le> i \<longrightarrow> memmove 0 (?s @ [CHR 0x00]) mem i = mem i" using assms(2) by (auto simp: memmove_def)
  ultimately show ?thesis
    using vsnprintf_prints [OF assms(1-3), of c mem args] sint_of_nat32 [OF assms(4)] by simp
qed

definition sample_libc :: libc where
  "sample_libc = \<lparr>libc_double = \<lambda>_ _ _. (1, ''0''), libc_pointer = \<lambda>_. (3, ''0x0''), libc_strerror = ''Success''\<rparr>"

definition sample_segs :: "(string \<times> fmt_conv) list" where
  "sample_segs = [(''x='', Conv (plain\<lparr>f_zero := True, f_width := 5\<rparr>) [] CHR ''d'' (ArgInt (- 42))),
     (''|'', Conv plain [] CHR ''s'' (ArgCharPtr 1 ''ab''))]"

lemma digit_chars: "map digit_char [0, 1, 2, 3, 4, 5, 6, 7, 8, 9] = ''0123456789''"
  by (simp add: digit_char_def char_of_def bit_0)

lemma sample_format:
  "fmt_ok sample_segs []" "fmt_text sample_segs [] = ''x=%05d|%s''" "fmt_out sample_segs [] = ''x=-0042|ab''"
  "fmt_args sample_segs = [ArgInt (- 42), ArgCharPtr 1 ''ab'']"
proof -
  have body: "int_body_text CHR ''d'' None (- 42) = ''42''"
    using digit_chars by (simp add: int_body_text_def int_conversion_def radix_text_dec dec.simps)
  show "fmt_ok sample_segs []"
    by (simp add: sample_segs_def fmt_ok_def literal_ok_def conv_arg_type_def int_arg_type_def plain_def)
  show "fmt_text sample_segs [] = ''x=%05d|%s''"
    using digit_chars by (simp add: sample_segs_def fmt_text_def seg_text_def flags_text_def plain_def dec.simps)
  show "fmt_out sample_segs [] = ''x=-0042|ab''"
    by (simp add: sample_segs_def fmt_out_def seg_out_def plain_def body padded_def str_text_def int_sign_def sign_text_def numeral_2_eq_2)
  show "fmt_args sample_segs = [ArgInt (- 42), ArgCharPtr 1 ''ab'']"
    by (simp add: sample_segs_def fmt_args_def)
qed

theorem snprintf_formats_witness:
  "\<exists>n mem'. pg_vsnprintf sample_libc (\<lambda>_. CHR ''z'') 6 ''x=%05d|%s'' [ArgInt (- 42), ArgCharPtr 1 ''ab''] =
       Some (n, mem') \<and> sint n = 10 \<and> map mem' [0..<5] = ''x=-00'' \<and> mem' 5 = CHR 0x00 \<and> mem' 6 = CHR ''z''"
proof -
  have "min (length ''x=-0042|ab'') (6 - 1) = (5::nat)" "take (6 - 1) ''x=-0042|ab'' = ''x=-00''" "int (length ''x=-0042|ab'') = 10"
    by simp_all
  then show ?thesis
    using snprintf_formats [OF sample_format(1), of 6 sample_libc "\<lambda>_. CHR ''z''" "[]"]
    unfolding sample_format append_Nil2 by (simp only:) fastforce
qed

end
