(* ===== verification/Stringinfo.thy ===== *)
theory Stringinfo
  imports Printf_Formats
begin

section \<open>Extensible string buffers (stringinfo.c, psprintf.c)\<close>

text \<open>
  The buffers in which AutoIndex builds its queries and commands. A buffer is memory
  with the length of the string in it, the size of the allocation and a cursor, all
  of them C integers. Memory comes from a parameter, which returns the arbitrary
  contents of a new allocation or raises an error. The loops that double a size or
  retry a formatting attempt are partial functions: a loop that does not end, or
  that fetches an argument that was not passed, has no result.
\<close>

subsection \<open>Data\<close>

type_synonym allocator = "int32 \<Rightarrow> (nat \<Rightarrow> char) result"

record StringInfoData =
  si_data :: "nat \<Rightarrow> char"
  si_len :: int32
  si_maxlen :: int32
  si_cursor :: int32

definition MaxAllocSize :: uint64 where
  "MaxAllocSize = 0x3fffffff"

definition STRINGINFO_DEFAULT_SIZE :: int32 where
  "STRINGINFO_DEFAULT_SIZE = 1024"

type_synonym 'a run = "'a result option"

definition bind_run :: "'a run \<Rightarrow> ('a \<Rightarrow> 'b run) \<Rightarrow> 'b run" where
  "bind_run r f = Option.bind r (case_sum (\<lambda>e. Some (Inl e)) f)"

lemma bind_run_simps [simp]:
  "bind_run None f = None" "bind_run (Some (Inl e)) f = Some (Inl e)" "bind_run (Some (Inr a)) f = f a"
  by (simp_all add: bind_run_def)

lemma bind_run_mono [partial_function_mono]:
  assumes "mono_option r" and "\<And>y. mono_option (\<lambda>f. g f y)"
  shows "mono_option (\<lambda>f. bind_run (r f) (g f))"
  unfolding bind_run_def
proof (rule bind_mono [OF assms(1)])
  show "mono_option (\<lambda>f. case_sum (\<lambda>e. Some (Inl e)) (g f) y)" for y
    using assms(2) by (cases y) (simp_all add: monotone_def flat_ord_def)
qed

subsection \<open>Creation and reset\<close>

definition resetStringInfo :: "StringInfoData \<Rightarrow> StringInfoData" where
  "resetStringInfo str = str\<lparr>si_data := (si_data str)(0 := CHR 0x00), si_len := 0, si_cursor := 0\<rparr>"

definition initStringInfoInternal :: "allocator \<Rightarrow> int32 \<Rightarrow> StringInfoData result" where
  "initStringInfoInternal alloc initsize =
     bind_res (alloc initsize)
       (\<lambda>mem. Inr (resetStringInfo \<lparr>si_data = mem, si_len = 0, si_maxlen = initsize, si_cursor = 0\<rparr>))"

definition initStringInfo :: "allocator \<Rightarrow> StringInfoData result" where
  "initStringInfo alloc = initStringInfoInternal alloc STRINGINFO_DEFAULT_SIZE"

definition initStringInfoExt :: "allocator \<Rightarrow> int32 \<Rightarrow> StringInfoData result" where
  "initStringInfoExt alloc initsize = initStringInfoInternal alloc initsize"

definition initReadOnlyStringInfo :: "(nat \<Rightarrow> char) \<Rightarrow> int32 \<Rightarrow> StringInfoData" where
  "initReadOnlyStringInfo data n = \<lparr>si_data = data, si_len = n, si_maxlen = 0, si_cursor = 0\<rparr>"

definition initStringInfoFromString :: "(nat \<Rightarrow> char) \<Rightarrow> int32 \<Rightarrow> StringInfoData" where
  "initStringInfoFromString data n = \<lparr>si_data = data, si_len = n, si_maxlen = n + 1, si_cursor = 0\<rparr>"

subsection \<open>Enlarging\<close>

partial_function (option) enlarge_loop :: "int32 \<Rightarrow> int32 \<Rightarrow> int32 option" where
  "enlarge_loop needed newlen =
     (if sint newlen < sint needed then enlarge_loop needed (2 * newlen) else Some newlen)"

text \<open>\<open>repalloc\<close> keeps what the old allocation held.\<close>

definition repalloc :: "allocator \<Rightarrow> (nat \<Rightarrow> char) \<Rightarrow> int32 \<Rightarrow> int32 \<Rightarrow> (nat \<Rightarrow> char) result" where
  "repalloc alloc data oldlen newlen =
     bind_res (alloc newlen) (\<lambda>mem. Inr (\<lambda>i. if i < unat oldlen then data i else mem i))"

definition enlargeStringInfo :: "allocator \<Rightarrow> StringInfoData \<Rightarrow> int32 \<Rightarrow> StringInfoData run" where
  "enlargeStringInfo alloc str needed =
     (if sint needed < 0 then Some (Inl (PgError ''invalid string enlargement request size''))
      else if MaxAllocSize - scast (si_len str) \<le> scast needed
      then Some (Inl (PgError ''string buffer exceeds maximum allowed length''))
      else
        let needed = needed + si_len str + 1 in
        if sint needed \<le> sint (si_maxlen str) then Some (Inr str)
        else
          case enlarge_loop needed (2 * si_maxlen str) of
            None \<Rightarrow> None
          | Some newlen \<Rightarrow>
              let newlen = (if sint (ucast MaxAllocSize :: int32) < sint newlen then ucast MaxAllocSize else newlen)
              in Some (bind_res (repalloc alloc (si_data str) (si_maxlen str) newlen)
                   (\<lambda>data. Inr (str\<lparr>si_data := data, si_maxlen := newlen\<rparr>))))"

subsection \<open>Appending\<close>

definition appendBinaryStringInfoNT :: "allocator \<Rightarrow> StringInfoData \<Rightarrow> string \<Rightarrow> int32 \<Rightarrow> StringInfoData run" where
  "appendBinaryStringInfoNT alloc str data datalen =
     bind_run (enlargeStringInfo alloc str datalen)
       (\<lambda>str. Some (Inr (str\<lparr>si_data := memmove (unat (si_len str)) (take (unat datalen) data) (si_data str),
                              si_len := si_len str + datalen\<rparr>)))"

definition terminate_at_len :: "StringInfoData \<Rightarrow> StringInfoData" where
  "terminate_at_len str = str\<lparr>si_data := (si_data str)(unat (si_len str) := CHR 0x00)\<rparr>"

definition appendBinaryStringInfo :: "allocator \<Rightarrow> StringInfoData \<Rightarrow> string \<Rightarrow> int32 \<Rightarrow> StringInfoData run" where
  "appendBinaryStringInfo alloc str data datalen =
     bind_run (enlargeStringInfo alloc str datalen)
       (\<lambda>str. Some (Inr (terminate_at_len
          (str\<lparr>si_data := memmove (unat (si_len str)) (take (unat datalen) data) (si_data str),
               si_len := si_len str + datalen\<rparr>))))"

definition appendStringInfoString :: "allocator \<Rightarrow> StringInfoData \<Rightarrow> string \<Rightarrow> StringInfoData run" where
  "appendStringInfoString alloc str s = appendBinaryStringInfo alloc str s (of_nat (length s))"

definition appendStringInfoChar :: "allocator \<Rightarrow> StringInfoData \<Rightarrow> char \<Rightarrow> StringInfoData run" where
  "appendStringInfoChar alloc str ch =
     bind_run (if sint (si_maxlen str) \<le> sint (si_len str + 1) then enlargeStringInfo alloc str 1 else Some (Inr str))
       (\<lambda>str. Some (Inr (terminate_at_len
          (str\<lparr>si_data := (si_data str)(unat (si_len str) := ch), si_len := si_len str + 1\<rparr>))))"

definition appendStringInfoSpaces :: "allocator \<Rightarrow> StringInfoData \<Rightarrow> int32 \<Rightarrow> StringInfoData run" where
  "appendStringInfoSpaces alloc str count =
     (if 0 < sint count then
        bind_run (enlargeStringInfo alloc str count)
          (\<lambda>str. Some (Inr (terminate_at_len
             (str\<lparr>si_data := memmove (unat (si_len str)) (replicate (unat count) CHR '' '') (si_data str),
                  si_len := si_len str + count\<rparr>))))
      else Some (Inr str))"

subsection \<open>Formatting\<close>

definition pvsnprintf ::
  "libc \<Rightarrow> (nat \<Rightarrow> char) \<Rightarrow> uint64 \<Rightarrow> string \<Rightarrow> PrintfArgValue list \<Rightarrow> (uint64 \<times> (nat \<Rightarrow> char)) run" where
  "pvsnprintf c buf len fmt args =
     (case pg_vsnprintf c buf (unat len) fmt args of
        None \<Rightarrow> None
      | Some (nprinted, buf) \<Rightarrow>
          Some (if sint nprinted < 0 then Inl (PgError ''vsnprintf failed'')
                else if scast nprinted < len then Inr (scast nprinted, buf)
                else if MaxAllocSize - 1 < scast nprinted then Inl (PgError ''out of memory'')
                else Inr (scast (nprinted + 1), buf)))"

text \<open>The memory behind a pointer into the buffer, and the buffer with that memory put back.\<close>

definition appendStringInfoVA ::
  "libc \<Rightarrow> StringInfoData \<Rightarrow> string \<Rightarrow> PrintfArgValue list \<Rightarrow> (int32 \<times> StringInfoData) run" where
  "appendStringInfoVA c str fmt args =
     (let avail = si_maxlen str - si_len str; pos = unat (si_len str) in
      if sint avail < 16 then Some (Inr (32, str))
      else
        bind_run (pvsnprintf c (\<lambda>i. si_data str (pos + i)) (scast avail) fmt args)
          (\<lambda>(nprinted, mem).
             let str = str\<lparr>si_data := (\<lambda>i. if i < pos then si_data str i else mem (i - pos))\<rparr> in
             if nprinted < scast avail then Some (Inr (0, str\<lparr>si_len := si_len str + ucast nprinted\<rparr>))
             else Some (Inr (ucast nprinted, terminate_at_len str))))"

partial_function (option) appendStringInfo ::
  "allocator \<Rightarrow> libc \<Rightarrow> string \<Rightarrow> PrintfArgValue list \<Rightarrow> StringInfoData \<Rightarrow> StringInfoData run" where
  "appendStringInfo alloc c fmt args str =
     bind_run (appendStringInfoVA c str fmt args)
       (\<lambda>(needed, str).
          if needed = 0 then Some (Inr str)
          else bind_run (enlargeStringInfo alloc str needed) (appendStringInfo alloc c fmt args))"

partial_function (option) psprintf_loop ::
  "allocator \<Rightarrow> libc \<Rightarrow> string \<Rightarrow> PrintfArgValue list \<Rightarrow> uint64 \<Rightarrow> (nat \<Rightarrow> char) run" where
  "psprintf_loop alloc c fmt args len =
     (case alloc (ucast len) of
        Inl e \<Rightarrow> Some (Inl e)
      | Inr buf \<Rightarrow>
          bind_run (pvsnprintf c buf len fmt args)
            (\<lambda>(newlen, buf). if newlen < len then Some (Inr buf) else psprintf_loop alloc c fmt args newlen))"

definition psprintf :: "allocator \<Rightarrow> libc \<Rightarrow> string \<Rightarrow> PrintfArgValue list \<Rightarrow> (nat \<Rightarrow> char) run" where
  "psprintf alloc c fmt args = psprintf_loop alloc c fmt args 128"

subsection \<open>Well-formed buffers\<close>

abbreviation max_alloc :: nat where
  "max_alloc \<equiv> 1073741823"

definition wf_stringinfo :: "StringInfoData \<Rightarrow> bool" where
  "wf_stringinfo str \<longleftrightarrow>
     unat (si_len str) < unat (si_maxlen str) \<and> unat (si_maxlen str) \<le> max_alloc \<and>
     si_data str (unat (si_len str)) = CHR 0x00"

definition contents :: "StringInfoData \<Rightarrow> string" where
  "contents str = map (si_data str) [0..<unat (si_len str)]"

definition allocates :: "allocator \<Rightarrow> bool" where
  "allocates alloc \<longleftrightarrow> (\<forall>n. 0 < n \<and> n \<le> max_alloc \<longrightarrow> (\<exists>mem. alloc (of_nat n) = Inr mem))"

lemma length_contents [simp]: "length (contents str) = unat (si_len str)"
  by (simp add: contents_def)

lemma wf_init:
  assumes "allocates alloc" and "0 < n" and "n \<le> max_alloc"
  shows "\<exists>str. initStringInfoInternal alloc (of_nat n) = Inr str \<and> wf_stringinfo str \<and> contents str = []"
  using assms
  by (auto simp: allocates_def initStringInfoInternal_def resetStringInfo_def wf_stringinfo_def contents_def unat_of_nat32)

lemma wf_reset:
  "wf_stringinfo str \<Longrightarrow> wf_stringinfo (resetStringInfo str) \<and> contents (resetStringInfo str) = []"
  by (auto simp: resetStringInfo_def wf_stringinfo_def contents_def)

lemma enlarge_loop_returns:
  assumes "k \<le> max_alloc" and "0 < n" and "n < 2 ^ 31"
  shows "\<exists>r. enlarge_loop (of_nat k) (of_nat n) = Some (of_nat r) \<and> k \<le> r \<and> n \<le> r \<and> r < 2 ^ 31"
  using assms
proof (induction "k - n" arbitrary: n rule: less_induct)
  case less
  have si: "sint (of_nat n :: int32) = int n" "sint (of_nat k :: int32) = int k" using less.prems by (simp_all add: sint_of_nat32)
  show ?case
  proof (cases "n < k")
    case True
    then have "k - 2 * n < k - n" "0 < 2 * n" "2 * n < 2 ^ 31" using less.prems by auto
    with less.hyps [of "2 * n"] less.prems True show ?thesis
      by (subst enlarge_loop.simps) (auto simp: si)
  next
    case False
    with less.prems show ?thesis by (subst enlarge_loop.simps) (auto simp: si)
  qed
qed

lemma sint_unat: "unat (w :: int32) < 2 ^ 31 \<Longrightarrow> sint w = int (unat w)"
  using sint_of_nat32 [of "unat w"] by simp

lemma scast_nat: "n < 2 ^ 31 \<Longrightarrow> scast (of_nat n :: int32) = (of_nat n :: uint64)"
  by (simp add: scast_eq sint_of_nat32)

lemma enlarge_test:
  assumes "l \<le> max_alloc" and "n < 2 ^ 31"
  shows "MaxAllocSize - scast (of_nat l :: int32) \<le> scast (of_nat n :: int32) \<longleftrightarrow> max_alloc \<le> l + n"
proof -
  have "MaxAllocSize - scast (of_nat l :: int32) = of_nat (max_alloc - l)"
    using assms(1) by (simp add: scast_nat MaxAllocSize_def of_nat_diff)
  then show ?thesis using assms by (simp add: scast_nat word_le_nat_alt unat_of_nat take_bit_nat_eq_self del: of_nat_diff, linarith)
qed

lemma enlarge_too_long:
  assumes "wf_stringinfo str" and "n < 2 ^ 31" and "max_alloc \<le> unat (si_len str) + n"
  shows "enlargeStringInfo alloc str (of_nat n) = Some (Inl (PgError ''string buffer exceeds maximum allowed length''))"
  using assms enlarge_test [of "unat (si_len str)" n]
  by (simp add: enlargeStringInfo_def sint_of_nat32 wf_stringinfo_def)

lemma enlarge_negative:
  "sint needed < 0 \<Longrightarrow>
   enlargeStringInfo alloc str needed = Some (Inl (PgError ''invalid string enlargement request size''))"
  by (simp add: enlargeStringInfo_def)

lemma enlarge_room:
  assumes wf: "wf_stringinfo str" and al: "allocates alloc" and n: "unat (si_len str) + n < max_alloc"
  obtains str' where "enlargeStringInfo alloc str (of_nat n) = Some (Inr str')" "wf_stringinfo str'"
    "contents str' = contents str" "si_len str' = si_len str" "si_cursor str' = si_cursor str"
    "unat (si_len str) + n < unat (si_maxlen str')"
    "\<And>i. i < unat (si_maxlen str) \<Longrightarrow> si_data str' i = si_data str i"
proof -
  define l m where "l = unat (si_len str)" and "m = unat (si_maxlen str)"
  have lm: "si_len str = of_nat l" "si_maxlen str = of_nat m" "l < m" "m \<le> max_alloc" "l + n < max_alloc"
    using wf n by (simp_all add: l_def m_def wf_stringinfo_def)
  have need: "of_nat n + of_nat l + 1 = (of_nat (n + l + 1) :: int32)" by simp
  have si: "sint (of_nat (n + l + 1) :: int32) = int (n + l + 1)" "sint (of_nat m :: int32) = int m" "sint (of_nat n :: int32) = int n"
    using lm by (simp_all add: sint_of_nat32 del: of_nat_Suc of_nat_add)
  have test: "\<not> MaxAllocSize - scast (si_len str) \<le> scast (of_nat n :: int32)"
    using enlarge_test [of l n] lm by simp
  show thesis
  proof (cases "n + l + 1 \<le> m")
    case True
    then have "enlargeStringInfo alloc str (of_nat n) = Some (Inr str)"
      unfolding enlargeStringInfo_def Let_def using test unfolding lm(1,2) need si by (simp add: si)
    then show thesis using that [of str] wf True by (simp add: l_def m_def)
  next
    case False
    obtain r where r: "enlarge_loop (of_nat (n + l + 1)) (of_nat (2 * m)) = Some (of_nat r)"
      "n + l + 1 \<le> r" "2 * m \<le> r" "r < 2 ^ 31"
      using enlarge_loop_returns [of "n + l + 1" "2 * m"] lm by auto
    define q where "q = min r max_alloc"
    have q: "n + l + 1 \<le> q" "m \<le> q" "q \<le> max_alloc" "0 < q" using r lm by (auto simp: q_def)
    have clamp: "(if sint (ucast MaxAllocSize :: int32) < sint (of_nat r :: int32) then ucast MaxAllocSize else of_nat r) =
        (of_nat q :: int32)"
      using r(4) by (simp add: MaxAllocSize_def sint_of_nat32 q_def min_def)
    obtain mem where mem: "alloc (of_nat q) = Inr mem" using al q(3,4) unfolding allocates_def by blast
    define str' where "str' = str\<lparr>si_data := (\<lambda>i. if i < m then si_data str i else mem i), si_maxlen := of_nat q\<rparr>"
    have u: "unat (of_nat q :: int32) = q" using q by (simp add: unat_of_nat32)
    have "enlargeStringInfo alloc str (of_nat n) = Some (Inr str')"
      unfolding enlargeStringInfo_def Let_def repalloc_def m_def [symmetric] using test False r(1)
      unfolding lm(1) lm(2) need si by (simp add: si clamp [simplified] mem str'_def m_def [symmetric])
    moreover have "wf_stringinfo str'" "contents str' = contents str"
      using wf q lm(3) by (simp_all add: str'_def wf_stringinfo_def contents_def u l_def [symmetric])
    ultimately show thesis
      using that [of str'] q lm(3) by (simp add: str'_def u l_def [symmetric] m_def [symmetric])
  qed
qed

subsection \<open>Appending to a buffer with room\<close>

lemma unat_len_add:
  assumes "unat (si_len str) + n < unat (si_maxlen str)"
  shows "unat (si_len str + of_nat n) = unat (si_len str) + n"
proof -
  have "unat (si_len str) + n < 2 ^ 32" using assms unsigned_less [of "si_maxlen str", where 'a = nat] by simp
  then show ?thesis by (simp add: unat_word_ariths unat_of_nat take_bit_nat_eq_self)
qed

lemma wf_store:
  assumes "wf_stringinfo str" and "unat (si_len str) + length s < unat (si_maxlen str)"
  shows "wf_stringinfo (terminate_at_len
      (str\<lparr>si_data := memmove (unat (si_len str)) s (si_data str), si_len := si_len str + of_nat (length s)\<rparr>))"
    and "contents (terminate_at_len
      (str\<lparr>si_data := memmove (unat (si_len str)) s (si_data str), si_len := si_len str + of_nat (length s)\<rparr>)) =
      contents str @ s"
proof -
  note u = unat_len_add [OF assms(2)]
  show "wf_stringinfo (terminate_at_len
      (str\<lparr>si_data := memmove (unat (si_len str)) s (si_data str), si_len := si_len str + of_nat (length s)\<rparr>))"
    using assms by (simp add: wf_stringinfo_def terminate_at_len_def u)
  show "contents (terminate_at_len
      (str\<lparr>si_data := memmove (unat (si_len str)) s (si_data str), si_len := si_len str + of_nat (length s)\<rparr>)) =
      contents str @ s"
    by (rule nth_equalityI) (auto simp: contents_def terminate_at_len_def u memmove_def nth_append)
qed

text \<open>
  What the appending operations promise: with enough memory and room below the limit,
  the buffer stays well-formed and its contents grow by the text. Sequences of
  operations then append the texts in order.
\<close>

locale appender =
  fixes add :: "allocator \<Rightarrow> StringInfoData \<Rightarrow> 'x \<Rightarrow> StringInfoData run"
    and text_of :: "'x \<Rightarrow> string"
    and room :: "'x \<Rightarrow> nat"
    and ok :: "'x \<Rightarrow> bool"
  assumes adds: "wf_stringinfo str \<Longrightarrow> allocates alloc \<Longrightarrow> ok x \<Longrightarrow> unat (si_len str) + room x < max_alloc \<Longrightarrow>
      \<exists>str'. add alloc str x = Some (Inr str') \<and> wf_stringinfo str' \<and> contents str' = contents str @ text_of x"
    and text_room: "ok x \<Longrightarrow> length (text_of x) \<le> room x"
begin

primrec add_all :: "allocator \<Rightarrow> StringInfoData \<Rightarrow> 'x list \<Rightarrow> StringInfoData run" where
  "add_all alloc str [] = Some (Inr str)"
| "add_all alloc str (x # xs) = bind_run (add alloc str x) (\<lambda>str. add_all alloc str xs)"

lemma adds_all:
  "wf_stringinfo str \<Longrightarrow> allocates alloc \<Longrightarrow> list_all ok xs \<Longrightarrow> unat (si_len str) + sum_list (map room xs) < max_alloc \<Longrightarrow>
   \<exists>str'. add_all alloc str xs = Some (Inr str') \<and> wf_stringinfo str' \<and> contents str' = contents str @ concat (map text_of xs)"
proof (induction xs arbitrary: str)
  case (Cons x xs)
  obtain str1 where 1: "add alloc str x = Some (Inr str1)" "wf_stringinfo str1" "contents str1 = contents str @ text_of x"
    using adds [OF Cons.prems(1,2), of x] Cons.prems(3,4) by auto
  have "unat (si_len str1) = unat (si_len str) + length (text_of x)"
    using arg_cong [OF 1(3), of length] by simp
  with Cons.IH [OF 1(2) Cons.prems(2)] Cons.prems(3,4) text_room [of x] 1 show ?case by auto
qed simp

end

interpretation binary: appender "\<lambda>alloc str s. appendBinaryStringInfo alloc str s (of_nat (length s))" "\<lambda>s. s" length "\<lambda>_. True"
proof
  fix str alloc and s :: string
  assume "wf_stringinfo str" "allocates alloc" "unat (si_len str) + length s < max_alloc"
  then obtain str' where str': "enlargeStringInfo alloc str (of_nat (length s)) = Some (Inr str')" "wf_stringinfo str'"
    "contents str' = contents str" "si_len str' = si_len str" "unat (si_len str) + length s < unat (si_maxlen str')"
    by (rule enlarge_room)
  moreover have "unat (of_nat (length s) :: int32) = length s"
    using \<open>unat (si_len str) + length s < max_alloc\<close> by (simp add: unat_of_nat32)
  ultimately show "\<exists>str'. appendBinaryStringInfo alloc str s (of_nat (length s)) = Some (Inr str') \<and> wf_stringinfo str' \<and>
      contents str' = contents str @ s"
    using wf_store [of str' s] by (simp add: appendBinaryStringInfo_def)
qed simp

interpretation strings: appender appendStringInfoString "\<lambda>s. s" length "\<lambda>_. True"
  using binary.appender_axioms by (simp add: appendStringInfoString_def [abs_def])

interpretation chars: appender appendStringInfoChar "\<lambda>c. [c]" "\<lambda>_. 1" "\<lambda>_. True"
proof
  fix str alloc and c :: char
  assume wf: "wf_stringinfo str" and al: "allocates alloc" and room: "unat (si_len str) + 1 < max_alloc"
  have "\<exists>str'. (if sint (si_maxlen str) \<le> sint (si_len str + 1) then enlargeStringInfo alloc str 1 else Some (Inr str)) = Some (Inr str') \<and>
    wf_stringinfo str' \<and> contents str' = contents str \<and> si_len str' = si_len str \<and> unat (si_len str') + length [c] < unat (si_maxlen str')"
  proof (cases "sint (si_maxlen str) \<le> sint (si_len str + 1)")
    case True
    from enlarge_room [OF wf al, of 1] room obtain str' where "enlargeStringInfo alloc str 1 = Some (Inr str')"
      "wf_stringinfo str'" "contents str' = contents str" "si_len str' = si_len str" "unat (si_len str) + 1 < unat (si_maxlen str')"
      by (metis of_nat_1)
    with True show ?thesis by simp
  next
    case False
    have "si_len str + 1 = of_nat (unat (si_len str) + 1)" by simp
    then have "sint (si_len str + 1) = int (unat (si_len str) + 1)" using room by (simp only:) (rule sint_of_nat32, simp)
    moreover have "sint (si_maxlen str) = int (unat (si_maxlen str))"
      using wf by (intro sint_unat) (simp add: wf_stringinfo_def)
    ultimately have "unat (si_len str) + 1 < unat (si_maxlen str)" using False by linarith
    with False wf show ?thesis by simp
  qed
  then obtain str' where str': "(if sint (si_maxlen str) \<le> sint (si_len str + 1) then enlargeStringInfo alloc str 1 else Some (Inr str)) = Some (Inr str')"
    "wf_stringinfo str'" "contents str' = contents str" "unat (si_len str') + length [c] < unat (si_maxlen str')" by blast
  have "memmove p [c] m = m(p := c)" for p m by (auto simp: memmove_def)
  with wf_store [OF str'(2,4)] str'(1,3)
  show "\<exists>str'. appendStringInfoChar alloc str c = Some (Inr str') \<and> wf_stringinfo str' \<and> contents str' = contents str @ [c]"
    unfolding appendStringInfoChar_def by simp
qed simp

interpretation spaces: appender "\<lambda>alloc str n. appendStringInfoSpaces alloc str (of_nat n)" "\<lambda>n. replicate n CHR '' ''" "\<lambda>n. n" "\<lambda>_. True"
proof
  fix str alloc and n :: nat
  assume wf: "wf_stringinfo str" and al: "allocates alloc" and room: "unat (si_len str) + n < max_alloc"
  then obtain str' where str': "enlargeStringInfo alloc str (of_nat n) = Some (Inr str')" "wf_stringinfo str'"
    "contents str' = contents str" "si_len str' = si_len str" "unat (si_len str) + n < unat (si_maxlen str')"
    by (rule enlarge_room)
  have n: "unat (of_nat n :: int32) = n" "sint (of_nat n :: int32) = int n" using room by (simp_all add: unat_of_nat32 sint_of_nat32)
  show "\<exists>str'. appendStringInfoSpaces alloc str (of_nat n) = Some (Inr str') \<and> wf_stringinfo str' \<and>
      contents str' = contents str @ replicate n CHR '' ''"
    using wf str' wf_store [of str' "replicate n CHR '' ''"] by (cases "n = 0") (simp_all add: appendStringInfoSpaces_def n)
qed simp

subsection \<open>Formatting into a buffer\<close>

text \<open>One attempt: it asks for more space, succeeds, or reports the space needed without changing the contents.\<close>

definition free_space :: "StringInfoData \<Rightarrow> nat" where
  "free_space str = unat (si_maxlen str) - unat (si_len str)"

lemma avail_nat:
  assumes "wf_stringinfo str"
  shows "si_maxlen str - si_len str = of_nat (free_space str)" "free_space str \<le> max_alloc" "0 < free_space str"
proof -
  have "of_nat (free_space str) = (of_nat (unat (si_maxlen str)) - of_nat (unat (si_len str)) :: int32)"
    unfolding free_space_def using assms by (intro of_nat_diff) (simp add: wf_stringinfo_def)
  then show "si_maxlen str - si_len str = of_nat (free_space str)" by simp
qed (use assms in \<open>auto simp: free_space_def wf_stringinfo_def\<close>)

lemma append_va_small:
  assumes "wf_stringinfo str" and "free_space str < 16"
  shows "appendStringInfoVA c str fmt args = Some (Inr (32, str))"
  using assms avail_nat [OF assms(1)] by (simp add: appendStringInfoVA_def Let_def sint_of_nat32)

lemma pvsnprintf_formats:
  assumes ok: "fmt_ok segs rest" and out: "length (fmt_out segs rest) < max_alloc" and len: "0 < len" "len \<le> max_alloc"
  shows "pvsnprintf c buf (of_nat len) (fmt_text segs rest) (fmt_args segs @ args) =
    Some (Inr (of_nat (length (fmt_out segs rest) + (if length (fmt_out segs rest) < len then 0 else 1)),
      memmove 0 (take (len - 1) (fmt_out segs rest) @ [CHR 0x00]) buf))"
proof -
  let ?n = "length (fmt_out segs rest)"
  have u: "unat (of_nat len :: uint64) = len" using len by (simp add: no_wrap)
  have pr: "pg_vsnprintf c buf len (fmt_text segs rest) (fmt_args segs @ args) =
      Some (of_nat ?n, memmove 0 (take (len - 1) (fmt_out segs rest) @ [CHR 0x00]) buf)"
    using vsnprintf_prints [OF ok, of len] len by simp
  have n: "sint (of_nat ?n :: int32) = int ?n" "scast (of_nat ?n :: int32) = (of_nat ?n :: uint64)"
    "scast (of_nat ?n + 1 :: int32) = (of_nat (?n + 1) :: uint64)"
    using out scast_nat [of ?n] scast_nat [of "?n + 1"] by (simp_all add: sint_of_nat32 add.commute)
  have lt: "(of_nat ?n :: uint64) < of_nat len \<longleftrightarrow> ?n < len"
    using out len by (simp add: word_less_nat_alt no_wrap)
  have big: "\<not> MaxAllocSize - 1 < (of_nat ?n :: uint64)"
    using out by (simp add: word_less_nat_alt no_wrap MaxAllocSize_def)
  show ?thesis unfolding pvsnprintf_def u pr option.case prod.case n lt using big by simp
qed

lemma memmove_shift:
  "(\<lambda>i. if i < p then m i else memmove 0 s (\<lambda>i. m (p + i)) (i - p)) = memmove p s m"
  by (auto simp: memmove_def fun_eq_iff)

lemma ucast_nat: "n < 2 ^ 31 \<Longrightarrow> ucast (of_nat n :: uint64) = (of_nat n :: int32)"
  by (simp add: unsigned_of_nat take_bit_nat_eq_self)

text \<open>The attempt with its formatting carried out.\<close>

lemma append_va_formats:
  assumes wf: "wf_stringinfo str" and ok: "fmt_ok segs rest" and sp: "16 \<le> free_space str"
    and out: "length (fmt_out segs rest) < max_alloc"
  defines "n \<equiv> length (fmt_out segs rest)" and "f \<equiv> free_space str"
  shows "appendStringInfoVA c str (fmt_text segs rest) (fmt_args segs @ args) =
    (let str' = str\<lparr>si_data := memmove (unat (si_len str)) (take (f - 1) (fmt_out segs rest) @ [CHR 0x00]) (si_data str)\<rparr>
     in Some (Inr (if n < f then (0, str'\<lparr>si_len := si_len str + of_nat n\<rparr>) else (of_nat (n + 1), terminate_at_len str'))))"
proof -
  note av = avail_nat [OF wf, folded f_def]
  have sc: "scast (of_nat f :: int32) = (of_nat f :: uint64)" "sint (of_nat f :: int32) = int f"
    using av by (simp_all add: scast_nat sint_of_nat32)
  have lt: "(of_nat (n + (if n < f then 0 else 1)) :: uint64) < of_nat f \<longleftrightarrow> n < f"
    using av out by (auto simp: n_def word_less_nat_alt no_wrap simp del: of_nat_add of_nat_Suc)
  have uc: "ucast (of_nat n :: uint64) = (of_nat n :: int32)" "ucast (of_nat (n + 1) :: uint64) = (of_nat (n + 1) :: int32)"
    using out by (intro ucast_nat; simp add: n_def)+
  have pr: "pvsnprintf c (\<lambda>i. si_data str (unat (si_len str) + i)) (of_nat f) (fmt_text segs rest) (fmt_args segs @ args) =
      Some (Inr (of_nat (n + (if n < f then 0 else 1)),
        memmove 0 (take (f - 1) (fmt_out segs rest) @ [CHR 0x00]) (\<lambda>i. si_data str (unat (si_len str) + i))))"
    using pvsnprintf_formats [OF ok out, of f] av by (simp add: n_def del: of_nat_add)
  show ?thesis
    unfolding appendStringInfoVA_def Let_def av(1) sc pr bind_run_simps prod.case lt memmove_shift
    using sp uc by (simp add: f_def [symmetric])
qed

lemma append_va_fits:
  assumes wf: "wf_stringinfo str" and ok: "fmt_ok segs rest" and sp: "16 \<le> free_space str"
    and fits: "length (fmt_out segs rest) < free_space str"
  shows "\<exists>str'. appendStringInfoVA c str (fmt_text segs rest) (fmt_args segs @ args) = Some (Inr (0, str')) \<and>
    wf_stringinfo str' \<and> contents str' = contents str @ fmt_out segs rest"
proof -
  let ?out = "fmt_out segs rest"
  have room: "unat (si_len str) + length ?out < unat (si_maxlen str)" using fits by (simp add: free_space_def)
  have "(memmove p s m)(p + length s := c) = memmove p (s @ [c]) m" for p s m and c :: char
    by (auto simp: memmove_def fun_eq_iff nth_append)
  then have "str\<lparr>si_data := memmove (unat (si_len str)) (?out @ [CHR 0x00]) (si_data str), si_len := si_len str + of_nat (length ?out)\<rparr> =
    terminate_at_len (str\<lparr>si_data := memmove (unat (si_len str)) ?out (si_data str), si_len := si_len str + of_nat (length ?out)\<rparr>)"
    by (simp add: terminate_at_len_def unat_len_add [OF room])
  then show ?thesis
    using append_va_formats [OF wf ok sp, of c args] wf_store [OF wf room] fits avail_nat(2) [OF wf]
    by (simp add: Let_def)
qed

lemma append_va_needs:
  assumes wf: "wf_stringinfo str" and ok: "fmt_ok segs rest" and sp: "16 \<le> free_space str"
    and full: "free_space str \<le> length (fmt_out segs rest)" and out: "length (fmt_out segs rest) < max_alloc"
  shows "\<exists>str'. appendStringInfoVA c str (fmt_text segs rest) (fmt_args segs @ args) =
      Some (Inr (of_nat (length (fmt_out segs rest) + 1), str')) \<and>
    wf_stringinfo str' \<and> contents str' = contents str \<and> si_len str' = si_len str \<and> si_maxlen str' = si_maxlen str"
  using append_va_formats [OF wf ok sp out, of c args] full wf
  by (auto simp: Let_def terminate_at_len_def wf_stringinfo_def contents_def memmove_def)

text \<open>The retry loop ends after at most two enlargements.\<close>

lemma append_fits:
  assumes "wf_stringinfo str" and "fmt_ok segs rest" and "16 \<le> free_space str"
    and "length (fmt_out segs rest) < free_space str"
  shows "\<exists>str'. appendStringInfo alloc c (fmt_text segs rest) (fmt_args segs @ args) str = Some (Inr str') \<and>
    wf_stringinfo str' \<and> contents str' = contents str @ fmt_out segs rest"
  using append_va_fits [OF assms, of c args] by (subst appendStringInfo.simps) auto

lemma append_spacious:
  assumes wf: "wf_stringinfo str" and al: "allocates alloc" and ok: "fmt_ok segs rest" and sp: "16 \<le> free_space str"
    and room: "unat (si_len str) + (length (fmt_out segs rest) + 1) < max_alloc"
  shows "\<exists>str'. appendStringInfo alloc c (fmt_text segs rest) (fmt_args segs @ args) str = Some (Inr str') \<and>
    wf_stringinfo str' \<and> contents str' = contents str @ fmt_out segs rest"
proof (cases "length (fmt_out segs rest) < free_space str")
  case True
  then show ?thesis by (rule append_fits [OF wf ok sp])
next
  case False
  let ?n = "length (fmt_out segs rest)"
  obtain str1 where 1: "appendStringInfoVA c str (fmt_text segs rest) (fmt_args segs @ args) = Some (Inr (of_nat (?n + 1), str1))"
    "wf_stringinfo str1" "contents str1 = contents str" "si_len str1 = si_len str"
    using append_va_needs [OF wf ok sp, of c args] False room by auto
  obtain str2 where 2: "enlargeStringInfo alloc str1 (of_nat (?n + 1)) = Some (Inr str2)" "wf_stringinfo str2"
    "contents str2 = contents str1" "si_len str2 = si_len str1" "unat (si_len str1) + (?n + 1) < unat (si_maxlen str2)"
    using enlarge_room [OF 1(2) al, of "?n + 1"] room 1(4) by metis
  have "16 \<le> free_space str2" "?n < free_space str2" using 2(4,5) False sp by (auto simp: free_space_def)
  from append_fits [OF 2(2) ok this, of alloc c args] obtain str' where
    "appendStringInfo alloc c (fmt_text segs rest) (fmt_args segs @ args) str2 = Some (Inr str')"
    "wf_stringinfo str'" "contents str' = contents str @ fmt_out segs rest" using 1(3) 2(3) by auto
  moreover have "of_nat (?n + 1) \<noteq> (0 :: int32)" using room unat_of_nat32 [of "?n + 1"] by auto
  ultimately show ?thesis using 1(1) 2(1) by (subst appendStringInfo.simps) simp
qed

lemma append_formats:
  assumes wf: "wf_stringinfo str" and al: "allocates alloc" and ok: "fmt_ok segs rest"
    and room: "unat (si_len str) + max 32 (length (fmt_out segs rest) + 1) < max_alloc"
  shows "\<exists>str'. appendStringInfo alloc c (fmt_text segs rest) (fmt_args segs @ args) str = Some (Inr str') \<and>
    wf_stringinfo str' \<and> contents str' = contents str @ fmt_out segs rest"
proof (cases "free_space str < 16")
  case False
  with append_spacious [OF wf al ok] room show ?thesis by simp
next
  case True
  obtain str1 where 1: "enlargeStringInfo alloc str (of_nat 32) = Some (Inr str1)" "wf_stringinfo str1"
    "contents str1 = contents str" "si_len str1 = si_len str" "unat (si_len str) + 32 < unat (si_maxlen str1)"
    using enlarge_room [OF wf al, of 32] room by (metis le_less_trans max.cobounded1 add_le_cancel_left)
  then have "16 \<le> free_space str1" by (simp add: free_space_def)
  from append_spacious [OF 1(2) al ok this, of c args] room 1(3,4) append_va_small [OF wf True] 1(1) show ?thesis
    by (subst appendStringInfo.simps) simp
qed

interpretation formats: appender "\<lambda>alloc str (segs, rest). appendStringInfo alloc c (fmt_text segs rest) (fmt_args segs) str"
  "\<lambda>(segs, rest). fmt_out segs rest" "\<lambda>(segs, rest). max 32 (length (fmt_out segs rest) + 1)" "\<lambda>(segs, rest). fmt_ok segs rest"
  for c
  using append_formats [where args = "[]"] by unfold_locales (auto split: prod.splits)

subsection \<open>Formatting into a new string\<close>

lemma psprintf_step:
  assumes "fmt_ok segs rest" and "length (fmt_out segs rest) < max_alloc" and "allocates alloc" and "0 < len" "len \<le> max_alloc"
  shows "\<exists>buf. psprintf_loop alloc c (fmt_text segs rest) (fmt_args segs @ args) (of_nat len) =
    (if length (fmt_out segs rest) < len
     then Some (Inr (memmove 0 (take (len - 1) (fmt_out segs rest) @ [CHR 0x00]) buf))
     else psprintf_loop alloc c (fmt_text segs rest) (fmt_args segs @ args) (of_nat (length (fmt_out segs rest) + 1)))"
proof -
  let ?n = "length (fmt_out segs rest)"
  have "ucast (of_nat len :: uint64) = (of_nat len :: int32)" using assms(5) by (intro ucast_nat) simp
  moreover obtain buf where "alloc (of_nat len) = Inr buf" using assms(3-5) unfolding allocates_def by blast
  moreover have "(of_nat (?n + (if ?n < len then 0 else 1)) :: uint64) < of_nat len \<longleftrightarrow> ?n < len"
    using assms by (auto simp: word_less_nat_alt no_wrap simp del: of_nat_add of_nat_Suc)
  ultimately show ?thesis
    using pvsnprintf_formats [OF assms(1,2,4,5), of c buf args]
    by (intro exI [of _ buf], subst psprintf_loop.simps) (simp del: of_nat_add of_nat_Suc)
qed

lemma psprintf_formats:
  assumes "fmt_ok segs rest" and "length (fmt_out segs rest) + 1 < max_alloc" and "allocates alloc"
  shows "\<exists>buf. psprintf alloc c (fmt_text segs rest) (fmt_args segs @ args) = Some (Inr buf) \<and>
    map buf [0..<length (fmt_out segs rest)] = fmt_out segs rest \<and> buf (length (fmt_out segs rest)) = CHR 0x00"
proof -
  let ?out = "fmt_out segs rest"
  have stored: "map (memmove 0 (?out @ [CHR 0x00]) buf) [0..<length ?out] = ?out"
    "memmove 0 (?out @ [CHR 0x00]) buf (length ?out) = CHR 0x00" for buf
    by (auto simp: memmove_def nth_append intro!: nth_equalityI)
  have out: "length ?out < max_alloc" using assms(2) by simp
  note step = psprintf_step [OF assms(1) out assms(3), of _ c args]
  have last: "\<exists>buf. psprintf_loop alloc c (fmt_text segs rest) (fmt_args segs @ args) (of_nat (length ?out + 1)) =
      Some (Inr (memmove 0 (?out @ [CHR 0x00]) buf))"
    using step [of "length ?out + 1"] assms(2) by auto
  have "(128 :: uint64) = of_nat 128" by simp
  then have "\<exists>buf. psprintf alloc c (fmt_text segs rest) (fmt_args segs @ args) = Some (Inr (memmove 0 (?out @ [CHR 0x00]) buf))"
    unfolding psprintf_def using step [of 128] last by (auto simp del: of_nat_numeral split: if_splits)
  with stored show ?thesis by blast
qed

subsection \<open>Buffers as C strings\<close>

definition c_string :: "StringInfoData \<Rightarrow> string" where
  "c_string str = cstring (map (si_data str) [0..<unat (si_maxlen str)])"

lemma c_string_contents:
  assumes "wf_stringinfo str" and "CHR 0x00 \<notin> set (contents str)"
  shows "c_string str = contents str"
proof -
  define l m where "l = unat (si_len str)" and "m = unat (si_maxlen str)"
  have lm: "l < m" "si_data str l = CHR 0x00" using assms(1) by (simp_all add: wf_stringinfo_def l_def m_def)
  then have "[0..<m] = [0..<l] @ l # [Suc l..<m]"
    using upt_add_eq_append [of 0 l "m - l"] by (simp add: upt_conv_Cons)
  moreover have "\<forall>x<l. si_data str x \<noteq> CHR 0x00"
    using assms(2) by (force simp: contents_def l_def)
  ultimately show ?thesis
    using lm(2) by (auto simp: c_string_def cstring_def contents_def l_def [symmetric] m_def [symmetric] takeWhile_tail)
qed

subsection \<open>Properties\<close>

text \<open>
  C24: Appending to a string buffer does what its name says. With memory available and
  the result below the limit of one gigabyte, formatted output, a string, a character
  or spaces are appended to the contents, and the buffer keeps its invariant: the
  length is below the size of the allocation and a zero byte follows the contents. The
  retry loop of the formatted append returns. A string that would exceed the limit is
  refused with an error; no length computation overflows on the way.
\<close>

theorem stringinfo_appends:
  assumes "wf_stringinfo str" and "allocates alloc" and "length s < 2 ^ 31"
  shows "(if unat (si_len str) + length s < max_alloc
      then \<exists>str'. appendStringInfoString alloc str s = Some (Inr str') \<and> wf_stringinfo str' \<and> contents str' = contents str @ s
      else appendStringInfoString alloc str s = Some (Inl (PgError ''string buffer exceeds maximum allowed length''))) \<and>
    (fmt_ok segs rest \<and> unat (si_len str) + max 32 (length (fmt_out segs rest) + 1) < max_alloc \<longrightarrow>
      (\<exists>str'. appendStringInfo alloc c (fmt_text segs rest) (fmt_args segs @ args) str = Some (Inr str') \<and>
        wf_stringinfo str' \<and> contents str' = contents str @ fmt_out segs rest)) \<and>
    (unat (si_len str) + 1 < max_alloc \<longrightarrow>
      (\<exists>str'. appendStringInfoChar alloc str ch = Some (Inr str') \<and> wf_stringinfo str' \<and> contents str' = contents str @ [ch])) \<and>
    (unat (si_len str) + n < max_alloc \<longrightarrow>
      (\<exists>str'. appendStringInfoSpaces alloc str (of_nat n) = Some (Inr str') \<and> wf_stringinfo str' \<and>
        contents str' = contents str @ replicate n CHR '' ''))"
  using strings.adds [OF assms(1,2)] chars.adds [OF assms(1,2)] spaces.adds [OF assms(1,2)]
    append_formats [OF assms(1,2), of segs rest c args] enlarge_too_long [OF assms(1,3)]
  by (auto simp: appendStringInfoString_def appendBinaryStringInfo_def not_less)

definition sample_alloc :: allocator where
  "sample_alloc n = Inr (\<lambda>_. CHR ''?'')"

lemma sample_allocates: "allocates sample_alloc"
  by (simp add: allocates_def sample_alloc_def)

definition sample_buffer :: StringInfoData where
  "sample_buffer = \<lparr>si_data = (\<lambda>i. if i = 2 then CHR 0x00 else CHR ''a''), si_len = 2, si_maxlen = 4, si_cursor = 0\<rparr>"

lemma sample_buffer_wf: "wf_stringinfo sample_buffer" "contents sample_buffer = ''aa'' "
  by (simp_all add: sample_buffer_def wf_stringinfo_def contents_def upt_conv_Cons)

theorem stringinfo_appends_witness:
  "(\<exists>str. appendStringInfoString sample_alloc sample_buffer ''bcd'' = Some (Inr str) \<and> contents str = ''aabcd'') \<and>
   (\<exists>str. appendStringInfo sample_alloc sample_libc ''x=%05d|%s'' [ArgInt (- 42), ArgCharPtr 1 ''ab''] sample_buffer =
      Some (Inr str) \<and> contents str = ''aax=-0042|ab'')"
proof -
  have "unat (si_len sample_buffer) = 2" by (simp add: sample_buffer_def)
  then show ?thesis
    using stringinfo_appends [OF sample_buffer_wf(1) sample_allocates, of "''bcd''" sample_segs "[]" sample_libc "[]"]
      sample_format(1) sample_buffer_wf(2)
    unfolding sample_format(2-4) by auto
qed

end
