(* ===== verification/Pg_List.thy ===== *)
theory Pg_List
  imports Numutils
begin

section \<open>The server's lists (list.c, pg_list.h)\<close>

text \<open>
  The list type in which plans keep their quals, target lists and range tables, and in
  which \<open>pull_var_clause\<close> returns its result: an array of cells with a length and an
  allocated length, or \<open>NIL\<close>. The routines exist in copies for pointers, integers, OIDs and
  transaction ids that differ in the cell's member only; a copy is an instance of one
  definition here. The array is a function from positions. Memory comes from a parameter,
  which returns the arbitrary contents of a number of new cells or raises an error; its
  limit of one gigabyte keeps the lengths far below the range of \<open>int\<close>. Equality of nodes
  is a parameter too.
\<close>

subsection \<open>Data\<close>

datatype list_tag = T_List | T_IntList | T_OidList | T_XidList

datatype 'p ListCell = PtrCell 'p | IntCell int32 | OidCell Oid | XidCell uint32

record 'p ListHeader =
  lst_type :: list_tag
  lst_length :: nat
  lst_max_length :: nat
  lst_elements :: "nat \<Rightarrow> 'p ListCell"

type_synonym 'p lst = "'p ListHeader option"

type_synonym 'p cell_alloc = "nat \<Rightarrow> (nat \<Rightarrow> 'p ListCell) result"

definition list_length :: "'p lst \<Rightarrow> nat" where
  "list_length l = (case l of None \<Rightarrow> 0 | Some l \<Rightarrow> lst_length l)"

text \<open>The cells that \<open>foreach\<close> visits, in order.\<close>

definition cells :: "'p lst \<Rightarrow> 'p ListCell list" where
  "cells l = (case l of None \<Rightarrow> [] | Some l \<Rightarrow> map (lst_elements l) [0..<lst_length l])"

definition set_cell :: "nat \<Rightarrow> 'p ListCell \<Rightarrow> 'p ListHeader \<Rightarrow> 'p ListHeader" where
  "set_cell i c l = l\<lparr>lst_elements := (lst_elements l)(i := c)\<rparr>"

text \<open>\<open>memmove\<close> and \<open>memcpy\<close> of cells, within an array and from another one.\<close>

definition copy_cells :: "nat \<Rightarrow> (nat \<Rightarrow> 'c) \<Rightarrow> nat \<Rightarrow> nat \<Rightarrow> (nat \<Rightarrow> 'c) \<Rightarrow> nat \<Rightarrow> 'c" where
  "copy_cells dst src from n m = (\<lambda>i. if dst \<le> i \<and> i < dst + n then src (from + (i - dst)) else m i)"

subsection \<open>Allocation\<close>

definition pg_nextpower2_32 :: "uint32 \<Rightarrow> uint32" where
  "pg_nextpower2_32 num =
     (if num AND (num - 1) = 0 then num else push_bit (leftmost_one_pos (unat num) + 1) 1)"

text \<open>The header takes 24 bytes and a cell 8.\<close>

definition LIST_HEADER_OVERHEAD :: nat where
  "LIST_HEADER_OVERHEAD = 3"

definition new_list :: "'p cell_alloc \<Rightarrow> list_tag \<Rightarrow> nat \<Rightarrow> 'p ListHeader result" where
  "new_list palloc type min_size =
     (let max_size = unat (pg_nextpower2_32 (of_nat (max 8 (min_size + LIST_HEADER_OVERHEAD)))) - LIST_HEADER_OVERHEAD
      in bind_res (palloc max_size)
           (\<lambda>m. Inr \<lparr>lst_type = type, lst_length = min_size, lst_max_length = max_size, lst_elements = m\<rparr>))"

definition enlarge_list :: "'p cell_alloc \<Rightarrow> 'p ListHeader \<Rightarrow> nat \<Rightarrow> 'p ListHeader result" where
  "enlarge_list palloc l min_size =
     (let new_max_len = unat (pg_nextpower2_32 (of_nat (max 16 min_size)))
      in bind_res (palloc new_max_len)
           (\<lambda>m. Inr (l\<lparr>lst_elements := copy_cells 0 (lst_elements l) 0 (lst_length l) m,
                        lst_max_length := new_max_len\<rparr>)))"

definition ensure_room :: "'p cell_alloc \<Rightarrow> 'p ListHeader \<Rightarrow> 'p ListHeader result" where
  "ensure_room palloc l =
     (if lst_max_length l \<le> lst_length l then enlarge_list palloc l (lst_length l + 1) else Inr l)"

subsection \<open>Construction\<close>

text \<open>\<open>list_make1_impl\<close> to \<open>list_make5_impl\<close>: the cells are given as a list of one to five.\<close>

definition list_make_impl :: "'p cell_alloc \<Rightarrow> list_tag \<Rightarrow> 'p ListCell list \<Rightarrow> 'p lst result" where
  "list_make_impl palloc t data =
     bind_res (new_list palloc t (length data))
       (\<lambda>l. Inr (Some (fold (\<lambda>i. set_cell i (data ! i)) [0..<length data] l)))"

definition new_head_cell :: "'p cell_alloc \<Rightarrow> 'p ListHeader \<Rightarrow> 'p ListHeader result" where
  "new_head_cell palloc l =
     bind_res (ensure_room palloc l)
       (\<lambda>l. Inr (l\<lparr>lst_elements := copy_cells 1 (lst_elements l) 0 (lst_length l) (lst_elements l),
                    lst_length := lst_length l + 1\<rparr>))"

definition new_tail_cell :: "'p cell_alloc \<Rightarrow> 'p ListHeader \<Rightarrow> 'p ListHeader result" where
  "new_tail_cell palloc l = bind_res (ensure_room palloc l) (\<lambda>l. Inr (l\<lparr>lst_length := lst_length l + 1\<rparr>))"

definition append_cell :: "'p cell_alloc \<Rightarrow> list_tag \<Rightarrow> 'p lst \<Rightarrow> 'p ListCell \<Rightarrow> 'p lst result" where
  "append_cell palloc t l c =
     bind_res (case l of None \<Rightarrow> new_list palloc t 1 | Some l \<Rightarrow> new_tail_cell palloc l)
       (\<lambda>l. Inr (Some (set_cell (lst_length l - 1) c l)))"

definition lappend :: "'p cell_alloc \<Rightarrow> 'p lst \<Rightarrow> 'p \<Rightarrow> 'p lst result" where
  "lappend palloc l datum = append_cell palloc T_List l (PtrCell datum)"

definition lappend_int :: "'p cell_alloc \<Rightarrow> 'p lst \<Rightarrow> int32 \<Rightarrow> 'p lst result" where
  "lappend_int palloc l datum = append_cell palloc T_IntList l (IntCell datum)"

definition lappend_oid :: "'p cell_alloc \<Rightarrow> 'p lst \<Rightarrow> Oid \<Rightarrow> 'p lst result" where
  "lappend_oid palloc l datum = append_cell palloc T_OidList l (OidCell datum)"

definition lappend_xid :: "'p cell_alloc \<Rightarrow> 'p lst \<Rightarrow> uint32 \<Rightarrow> 'p lst result" where
  "lappend_xid palloc l datum = append_cell palloc T_XidList l (XidCell datum)"

definition insert_new_cell :: "'p cell_alloc \<Rightarrow> 'p ListHeader \<Rightarrow> nat \<Rightarrow> 'p ListHeader result" where
  "insert_new_cell palloc l pos =
     bind_res (ensure_room palloc l)
       (\<lambda>l. Inr ((if pos < lst_length l
                  then l\<lparr>lst_elements := copy_cells (pos + 1) (lst_elements l) pos (lst_length l - pos) (lst_elements l)\<rparr>
                  else l)\<lparr>lst_length := lst_length l + 1\<rparr>))"

definition insert_nth_cell :: "'p cell_alloc \<Rightarrow> list_tag \<Rightarrow> 'p lst \<Rightarrow> nat \<Rightarrow> 'p ListCell \<Rightarrow> 'p lst result" where
  "insert_nth_cell palloc t l pos c =
     (case l of
        None \<Rightarrow> list_make_impl palloc t [c]
      | Some l \<Rightarrow> bind_res (insert_new_cell palloc l pos) (\<lambda>l. Inr (Some (set_cell pos c l))))"

definition list_insert_nth :: "'p cell_alloc \<Rightarrow> 'p lst \<Rightarrow> nat \<Rightarrow> 'p \<Rightarrow> 'p lst result" where
  "list_insert_nth palloc l pos datum = insert_nth_cell palloc T_List l pos (PtrCell datum)"

definition list_insert_nth_int :: "'p cell_alloc \<Rightarrow> 'p lst \<Rightarrow> nat \<Rightarrow> int32 \<Rightarrow> 'p lst result" where
  "list_insert_nth_int palloc l pos datum = insert_nth_cell palloc T_IntList l pos (IntCell datum)"

definition list_insert_nth_oid :: "'p cell_alloc \<Rightarrow> 'p lst \<Rightarrow> nat \<Rightarrow> Oid \<Rightarrow> 'p lst result" where
  "list_insert_nth_oid palloc l pos datum = insert_nth_cell palloc T_OidList l pos (OidCell datum)"

definition cons_cell :: "'p cell_alloc \<Rightarrow> list_tag \<Rightarrow> 'p ListCell \<Rightarrow> 'p lst \<Rightarrow> 'p lst result" where
  "cons_cell palloc t c l =
     bind_res (case l of None \<Rightarrow> new_list palloc t 1 | Some l \<Rightarrow> new_head_cell palloc l)
       (\<lambda>l. Inr (Some (set_cell 0 c l)))"

definition lcons :: "'p cell_alloc \<Rightarrow> 'p \<Rightarrow> 'p lst \<Rightarrow> 'p lst result" where
  "lcons palloc datum l = cons_cell palloc T_List (PtrCell datum) l"

definition lcons_int :: "'p cell_alloc \<Rightarrow> int32 \<Rightarrow> 'p lst \<Rightarrow> 'p lst result" where
  "lcons_int palloc datum l = cons_cell palloc T_IntList (IntCell datum) l"

definition lcons_oid :: "'p cell_alloc \<Rightarrow> Oid \<Rightarrow> 'p lst \<Rightarrow> 'p lst result" where
  "lcons_oid palloc datum l = cons_cell palloc T_OidList (OidCell datum) l"

subsection \<open>Copies and concatenation\<close>

definition list_copy :: "'p cell_alloc \<Rightarrow> 'p lst \<Rightarrow> 'p lst result" where
  "list_copy palloc oldlist =
     (case oldlist of
        None \<Rightarrow> Inr None
      | Some old \<Rightarrow>
          bind_res (new_list palloc (lst_type old) (lst_length old))
            (\<lambda>l. Inr (Some (l\<lparr>lst_elements := copy_cells 0 (lst_elements old) 0 (lst_length l) (lst_elements l)\<rparr>))))"

definition list_copy_head :: "'p cell_alloc \<Rightarrow> 'p lst \<Rightarrow> int \<Rightarrow> 'p lst result" where
  "list_copy_head palloc oldlist n =
     (case oldlist of
        None \<Rightarrow> Inr None
      | Some old \<Rightarrow>
          if n \<le> 0 then Inr None
          else
            let n = min (lst_length old) (nat n)
            in bind_res (new_list palloc (lst_type old) n)
                 (\<lambda>l. Inr (Some (l\<lparr>lst_elements := copy_cells 0 (lst_elements old) 0 n (lst_elements l)\<rparr>))))"

definition list_copy_tail :: "'p cell_alloc \<Rightarrow> 'p lst \<Rightarrow> int \<Rightarrow> 'p lst result" where
  "list_copy_tail palloc oldlist nskip =
     (let nskip = nat (max 0 nskip)
      in case oldlist of
           None \<Rightarrow> Inr None
         | Some old \<Rightarrow>
             if lst_length old \<le> nskip then Inr None
             else bind_res (new_list palloc (lst_type old) (lst_length old - nskip))
               (\<lambda>l. Inr (Some (l\<lparr>lst_elements := copy_cells 0 (lst_elements old) nskip (lst_length l) (lst_elements l)\<rparr>))))"

text \<open>\<open>copyObjectImpl\<close> of the elements is a parameter.\<close>

definition list_copy_deep :: "'p cell_alloc \<Rightarrow> ('p \<Rightarrow> 'p) \<Rightarrow> 'p lst \<Rightarrow> 'p lst result" where
  "list_copy_deep palloc copy_object oldlist =
     (case oldlist of
        None \<Rightarrow> Inr None
      | Some old \<Rightarrow>
          bind_res (new_list palloc (lst_type old) (lst_length old))
            (\<lambda>l. Inr (Some (fold (\<lambda>i. set_cell i (map_ListCell copy_object (lst_elements old i))) [0..<lst_length l] l))))"

definition list_concat :: "'p cell_alloc \<Rightarrow> 'p lst \<Rightarrow> 'p lst \<Rightarrow> 'p lst result" where
  "list_concat palloc list1 list2 =
     (case list1 of
        None \<Rightarrow> list_copy palloc list2
      | Some l1 \<Rightarrow>
          (case list2 of
             None \<Rightarrow> Inr list1
           | Some l2 \<Rightarrow>
               let new_len = lst_length l1 + lst_length l2
               in bind_res (if lst_max_length l1 < new_len then enlarge_list palloc l1 new_len else Inr l1)
                    (\<lambda>l. Inr (Some (l\<lparr>lst_elements := copy_cells (lst_length l) (lst_elements l2) 0 (lst_length l2) (lst_elements l),
                                       lst_length := new_len\<rparr>)))))"

definition list_concat_copy :: "'p cell_alloc \<Rightarrow> 'p lst \<Rightarrow> 'p lst \<Rightarrow> 'p lst result" where
  "list_concat_copy palloc list1 list2 =
     (case list1 of
        None \<Rightarrow> list_copy palloc list2
      | Some l1 \<Rightarrow>
          (case list2 of
             None \<Rightarrow> list_copy palloc list1
           | Some l2 \<Rightarrow>
               bind_res (new_list palloc (lst_type l1) (lst_length l1 + lst_length l2))
                 (\<lambda>l. Inr (Some (l\<lparr>lst_elements :=
                    copy_cells (lst_length l1) (lst_elements l2) 0 (lst_length l2)
                      (copy_cells 0 (lst_elements l1) 0 (lst_length l1) (lst_elements l))\<rparr>)))))"

subsection \<open>Removal\<close>

definition list_truncate :: "'p lst \<Rightarrow> int \<Rightarrow> 'p lst" where
  "list_truncate l new_size =
     (if new_size \<le> 0 then None
      else if nat new_size < list_length l then map_option (\<lambda>l. l\<lparr>lst_length := nat new_size\<rparr>) l
      else l)"

definition list_delete_nth_cell :: "'p ListHeader \<Rightarrow> nat \<Rightarrow> 'p lst" where
  "list_delete_nth_cell l n =
     (if lst_length l = 1 then None
      else Some (l\<lparr>lst_elements := copy_cells n (lst_elements l) (n + 1) (lst_length l - 1 - n) (lst_elements l),
                   lst_length := lst_length l - 1\<rparr>))"

definition list_delete_first :: "'p lst \<Rightarrow> 'p lst" where
  "list_delete_first l = (case l of None \<Rightarrow> None | Some l \<Rightarrow> list_delete_nth_cell l 0)"

definition list_delete_last :: "'p lst \<Rightarrow> 'p lst" where
  "list_delete_last l =
     (case l of
        None \<Rightarrow> None
      | Some h \<Rightarrow> if list_length l \<le> 1 then None else list_truncate l (int (list_length l) - 1))"

definition list_delete_first_n :: "'p lst \<Rightarrow> int \<Rightarrow> 'p lst" where
  "list_delete_first_n l n =
     (if n \<le> 0 then l
      else if int (list_length l) \<le> n then None
      else map_option (\<lambda>l. l\<lparr>lst_elements := copy_cells 0 (lst_elements l) (nat n) (lst_length l - nat n) (lst_elements l),
                              lst_length := lst_length l - nat n\<rparr>) l)"

subsection \<open>Membership and set operations\<close>

text \<open>The comparisons of a cell with a datum: by \<open>equal()\<close>, by pointer, and by value.\<close>

fun eq_node :: "('p \<Rightarrow> 'p \<Rightarrow> bool) \<Rightarrow> 'p ListCell \<Rightarrow> 'p ListCell \<Rightarrow> bool" where
  "eq_node equal (PtrCell p) (PtrCell q) = equal p q"
| "eq_node equal _ _ = False"

fun eq_int :: "'p ListCell \<Rightarrow> 'p ListCell \<Rightarrow> bool" where
  "eq_int (IntCell a) (IntCell b) \<longleftrightarrow> a = b"
| "eq_int _ _ = False"

fun eq_oid :: "'p ListCell \<Rightarrow> 'p ListCell \<Rightarrow> bool" where
  "eq_oid (OidCell a) (OidCell b) \<longleftrightarrow> a = b"
| "eq_oid _ _ = False"

fun eq_xid :: "'p ListCell \<Rightarrow> 'p ListCell \<Rightarrow> bool" where
  "eq_xid (XidCell a) (XidCell b) \<longleftrightarrow> a = b"
| "eq_xid _ _ = False"

definition member_cell :: "('p ListCell \<Rightarrow> 'p ListCell \<Rightarrow> bool) \<Rightarrow> 'p lst \<Rightarrow> 'p ListCell \<Rightarrow> bool" where
  "member_cell eq l datum = list_ex (\<lambda>c. eq c datum) (cells l)"

definition list_member :: "('p \<Rightarrow> 'p \<Rightarrow> bool) \<Rightarrow> 'p lst \<Rightarrow> 'p \<Rightarrow> bool" where
  "list_member equal l datum = member_cell (eq_node equal) l (PtrCell datum)"

definition list_member_ptr :: "'p lst \<Rightarrow> 'p \<Rightarrow> bool" where
  "list_member_ptr l datum = member_cell (eq_node (=)) l (PtrCell datum)"

definition list_member_int :: "'p lst \<Rightarrow> int32 \<Rightarrow> bool" where
  "list_member_int l datum = member_cell eq_int l (IntCell datum)"

definition list_member_oid :: "'p lst \<Rightarrow> Oid \<Rightarrow> bool" where
  "list_member_oid l datum = member_cell eq_oid l (OidCell datum)"

definition list_member_xid :: "'p lst \<Rightarrow> uint32 \<Rightarrow> bool" where
  "list_member_xid l datum = member_cell eq_xid l (XidCell datum)"

definition delete_datum :: "('p ListCell \<Rightarrow> 'p ListCell \<Rightarrow> bool) \<Rightarrow> 'p lst \<Rightarrow> 'p ListCell \<Rightarrow> 'p lst" where
  "delete_datum eq l datum =
     (case l of
        None \<Rightarrow> None
      | Some h \<Rightarrow>
          (case find (\<lambda>i. eq (lst_elements h i) datum) [0..<lst_length h] of
             None \<Rightarrow> l
           | Some i \<Rightarrow> list_delete_nth_cell h i))"

definition list_delete :: "('p \<Rightarrow> 'p \<Rightarrow> bool) \<Rightarrow> 'p lst \<Rightarrow> 'p \<Rightarrow> 'p lst" where
  "list_delete equal l datum = delete_datum (eq_node equal) l (PtrCell datum)"

definition list_delete_ptr :: "'p lst \<Rightarrow> 'p \<Rightarrow> 'p lst" where
  "list_delete_ptr l datum = delete_datum (eq_node (=)) l (PtrCell datum)"

definition list_delete_int :: "'p lst \<Rightarrow> int32 \<Rightarrow> 'p lst" where
  "list_delete_int l datum = delete_datum eq_int l (IntCell datum)"

definition list_delete_oid :: "'p lst \<Rightarrow> Oid \<Rightarrow> 'p lst" where
  "list_delete_oid l datum = delete_datum eq_oid l (OidCell datum)"

definition append_unique :: "'p cell_alloc \<Rightarrow> ('p ListCell \<Rightarrow> 'p ListCell \<Rightarrow> bool) \<Rightarrow> list_tag \<Rightarrow> 'p lst \<Rightarrow> 'p ListCell \<Rightarrow> 'p lst result" where
  "append_unique palloc eq t l c = (if member_cell eq l c then Inr l else append_cell palloc t l c)"

definition list_append_unique :: "'p cell_alloc \<Rightarrow> ('p \<Rightarrow> 'p \<Rightarrow> bool) \<Rightarrow> 'p lst \<Rightarrow> 'p \<Rightarrow> 'p lst result" where
  "list_append_unique palloc equal l datum = append_unique palloc (eq_node equal) T_List l (PtrCell datum)"

definition list_append_unique_ptr :: "'p cell_alloc \<Rightarrow> 'p lst \<Rightarrow> 'p \<Rightarrow> 'p lst result" where
  "list_append_unique_ptr palloc l datum = append_unique palloc (eq_node (=)) T_List l (PtrCell datum)"

definition list_append_unique_int :: "'p cell_alloc \<Rightarrow> 'p lst \<Rightarrow> int32 \<Rightarrow> 'p lst result" where
  "list_append_unique_int palloc l datum = append_unique palloc eq_int T_IntList l (IntCell datum)"

definition list_append_unique_oid :: "'p cell_alloc \<Rightarrow> 'p lst \<Rightarrow> Oid \<Rightarrow> 'p lst result" where
  "list_append_unique_oid palloc l datum = append_unique palloc eq_oid T_OidList l (OidCell datum)"

text \<open>The loops over the cells of a second list.\<close>

primrec append_all_unique ::
  "'p cell_alloc \<Rightarrow> ('p ListCell \<Rightarrow> 'p ListCell \<Rightarrow> bool) \<Rightarrow> list_tag \<Rightarrow> 'p ListCell list \<Rightarrow> 'p lst \<Rightarrow> 'p lst result" where
  "append_all_unique palloc eq t [] l = Inr l"
| "append_all_unique palloc eq t (c # cs) l =
     bind_res (if \<not> member_cell eq l c then append_cell palloc t l c else Inr l) (append_all_unique palloc eq t cs)"

primrec append_filtered ::
  "'p cell_alloc \<Rightarrow> list_tag \<Rightarrow> ('p ListCell \<Rightarrow> bool) \<Rightarrow> 'p ListCell list \<Rightarrow> 'p lst \<Rightarrow> 'p lst result" where
  "append_filtered palloc t P [] l = Inr l"
| "append_filtered palloc t P (c # cs) l =
     bind_res (if P c then append_cell palloc t l c else Inr l) (append_filtered palloc t P cs)"

definition concat_unique ::
  "'p cell_alloc \<Rightarrow> ('p ListCell \<Rightarrow> 'p ListCell \<Rightarrow> bool) \<Rightarrow> list_tag \<Rightarrow> 'p lst \<Rightarrow> 'p lst \<Rightarrow> 'p lst result" where
  "concat_unique palloc eq t list1 list2 = append_all_unique palloc eq t (cells list2) list1"

definition union_cells ::
  "'p cell_alloc \<Rightarrow> ('p ListCell \<Rightarrow> 'p ListCell \<Rightarrow> bool) \<Rightarrow> list_tag \<Rightarrow> 'p lst \<Rightarrow> 'p lst \<Rightarrow> 'p lst result" where
  "union_cells palloc eq t list1 list2 =
     bind_res (list_copy palloc list1) (append_all_unique palloc eq t (cells list2))"

definition intersect_cells ::
  "'p cell_alloc \<Rightarrow> ('p ListCell \<Rightarrow> 'p ListCell \<Rightarrow> bool) \<Rightarrow> list_tag \<Rightarrow> 'p lst \<Rightarrow> 'p lst \<Rightarrow> 'p lst result" where
  "intersect_cells palloc eq t list1 list2 =
     (if list1 = None \<or> list2 = None then Inr None
      else append_filtered palloc t (member_cell eq list2) (cells list1) None)"

definition difference_cells ::
  "'p cell_alloc \<Rightarrow> ('p ListCell \<Rightarrow> 'p ListCell \<Rightarrow> bool) \<Rightarrow> list_tag \<Rightarrow> 'p lst \<Rightarrow> 'p lst \<Rightarrow> 'p lst result" where
  "difference_cells palloc eq t list1 list2 =
     (if list2 = None then list_copy palloc list1
      else append_filtered palloc t (\<lambda>c. \<not> member_cell eq list2 c) (cells list1) None)"

definition list_union :: "'p cell_alloc \<Rightarrow> ('p \<Rightarrow> 'p \<Rightarrow> bool) \<Rightarrow> 'p lst \<Rightarrow> 'p lst \<Rightarrow> 'p lst result" where
  "list_union palloc equal = union_cells palloc (eq_node equal) T_List"

definition list_union_ptr :: "'p cell_alloc \<Rightarrow> 'p lst \<Rightarrow> 'p lst \<Rightarrow> 'p lst result" where
  "list_union_ptr palloc = union_cells palloc (eq_node (=)) T_List"

definition list_union_int :: "'p cell_alloc \<Rightarrow> 'p lst \<Rightarrow> 'p lst \<Rightarrow> 'p lst result" where
  "list_union_int palloc = union_cells palloc eq_int T_IntList"

definition list_union_oid :: "'p cell_alloc \<Rightarrow> 'p lst \<Rightarrow> 'p lst \<Rightarrow> 'p lst result" where
  "list_union_oid palloc = union_cells palloc eq_oid T_OidList"

definition list_intersection :: "'p cell_alloc \<Rightarrow> ('p \<Rightarrow> 'p \<Rightarrow> bool) \<Rightarrow> 'p lst \<Rightarrow> 'p lst \<Rightarrow> 'p lst result" where
  "list_intersection palloc equal = intersect_cells palloc (eq_node equal) T_List"

definition list_intersection_int :: "'p cell_alloc \<Rightarrow> 'p lst \<Rightarrow> 'p lst \<Rightarrow> 'p lst result" where
  "list_intersection_int palloc = intersect_cells palloc eq_int T_IntList"

definition list_difference :: "'p cell_alloc \<Rightarrow> ('p \<Rightarrow> 'p \<Rightarrow> bool) \<Rightarrow> 'p lst \<Rightarrow> 'p lst \<Rightarrow> 'p lst result" where
  "list_difference palloc equal = difference_cells palloc (eq_node equal) T_List"

definition list_difference_ptr :: "'p cell_alloc \<Rightarrow> 'p lst \<Rightarrow> 'p lst \<Rightarrow> 'p lst result" where
  "list_difference_ptr palloc = difference_cells palloc (eq_node (=)) T_List"

definition list_difference_int :: "'p cell_alloc \<Rightarrow> 'p lst \<Rightarrow> 'p lst \<Rightarrow> 'p lst result" where
  "list_difference_int palloc = difference_cells palloc eq_int T_IntList"

definition list_difference_oid :: "'p cell_alloc \<Rightarrow> 'p lst \<Rightarrow> 'p lst \<Rightarrow> 'p lst result" where
  "list_difference_oid palloc = difference_cells palloc eq_oid T_OidList"

definition list_concat_unique :: "'p cell_alloc \<Rightarrow> ('p \<Rightarrow> 'p \<Rightarrow> bool) \<Rightarrow> 'p lst \<Rightarrow> 'p lst \<Rightarrow> 'p lst result" where
  "list_concat_unique palloc equal = concat_unique palloc (eq_node equal) T_List"

definition list_concat_unique_ptr :: "'p cell_alloc \<Rightarrow> 'p lst \<Rightarrow> 'p lst \<Rightarrow> 'p lst result" where
  "list_concat_unique_ptr palloc = concat_unique palloc (eq_node (=)) T_List"

definition list_concat_unique_int :: "'p cell_alloc \<Rightarrow> 'p lst \<Rightarrow> 'p lst \<Rightarrow> 'p lst result" where
  "list_concat_unique_int palloc = concat_unique palloc eq_int T_IntList"

definition list_concat_unique_oid :: "'p cell_alloc \<Rightarrow> 'p lst \<Rightarrow> 'p lst \<Rightarrow> 'p lst result" where
  "list_concat_unique_oid palloc = concat_unique palloc eq_oid T_OidList"

subsection \<open>Adjacent duplicates and comparison functions\<close>

text \<open>The loop of \<open>list_deduplicate_oid\<close>, for the counter \<open>j\<close> from its value to the length.\<close>

primrec dedup_loop :: "nat list \<Rightarrow> nat \<Rightarrow> (nat \<Rightarrow> 'p ListCell) \<Rightarrow> nat \<times> (nat \<Rightarrow> 'p ListCell)" where
  "dedup_loop [] i elements = (i, elements)"
| "dedup_loop (j # js) i elements =
     (if \<not> eq_oid (elements i) (elements j)
      then dedup_loop js (i + 1) (elements(i + 1 := elements j))
      else dedup_loop js i elements)"

definition list_deduplicate_oid :: "'p lst \<Rightarrow> 'p lst" where
  "list_deduplicate_oid l =
     map_option (\<lambda>l.
       if 1 < lst_length l
       then let (i, elements) = dedup_loop [1..<lst_length l] 0 (lst_elements l)
            in l\<lparr>lst_elements := elements, lst_length := i + 1\<rparr>
       else l) l"

definition pg_cmp_s32 :: "int32 \<Rightarrow> int32 \<Rightarrow> int" where
  "pg_cmp_s32 a b = of_bool (sint b < sint a) - of_bool (sint a < sint b)"

definition pg_cmp_u32 :: "uint32 \<Rightarrow> uint32 \<Rightarrow> int" where
  "pg_cmp_u32 a b = of_bool (b < a) - of_bool (a < b)"

fun list_int_cmp :: "'p ListCell \<Rightarrow> 'p ListCell \<Rightarrow> int" where
  "list_int_cmp (IntCell v1) (IntCell v2) = pg_cmp_s32 v1 v2"
| "list_int_cmp _ _ = 0"

fun list_oid_cmp :: "'p ListCell \<Rightarrow> 'p ListCell \<Rightarrow> int" where
  "list_oid_cmp (OidCell v1) (OidCell v2) = pg_cmp_u32 v1 v2"
| "list_oid_cmp _ _ = 0"

subsection \<open>Invariant\<close>

fun cell_tag :: "'p ListCell \<Rightarrow> list_tag" where
  "cell_tag (PtrCell _) = T_List"
| "cell_tag (IntCell _) = T_IntList"
| "cell_tag (OidCell _) = T_OidList"
| "cell_tag (XidCell _) = T_XidList"

text \<open>
  What \<open>check_list_invariants\<close> asserts; that the array exists and that the tag is one of the
  four is part of the types.
\<close>

definition check_list_invariants :: "'p lst \<Rightarrow> bool" where
  "check_list_invariants l = (case l of None \<Rightarrow> True | Some l \<Rightarrow> 0 < lst_length l \<and> lst_length l \<le> lst_max_length l)"

text \<open>A list of the kind \<open>t\<close>: in addition, its tag is \<open>t\<close> and so is that of every cell.\<close>

definition list_ok :: "list_tag \<Rightarrow> 'p lst \<Rightarrow> bool" where
  "list_ok t l \<longleftrightarrow>
     check_list_invariants l \<and> (case l of None \<Rightarrow> True | Some h \<Rightarrow> lst_type h = t) \<and>
     (\<forall>c \<in> set (cells l). cell_tag c = t)"

definition list_cell_limit :: nat where
  "list_cell_limit = 2 ^ 26"

text \<open>
  The outcome of an operation that allocates: a list of the kind with the given cells, or
  the error with which a request for at most \<open>list_cell_limit\<close> cells failed.
\<close>

definition yields :: "'p cell_alloc \<Rightarrow> list_tag \<Rightarrow> 'p ListCell list \<Rightarrow> 'p lst result \<Rightarrow> bool" where
  "yields palloc t xs r \<longleftrightarrow>
     (case r of
        Inl e \<Rightarrow> \<exists>n \<le> list_cell_limit. palloc n = Inl e
      | Inr l \<Rightarrow> list_ok t l \<and> cells l = xs)"

lemma cells_simps [simp]:
  "cells None = []"
  "length (cells l) = list_length l"
  "list_length None = 0"
  "list_length (Some h) = lst_length h"
  by (simp_all add: cells_def list_length_def split: option.split)

lemma cells_eq_Nil [simp]: "cells (Some h) = [] \<longleftrightarrow> lst_length h = 0"
  by (simp add: cells_def)

lemma nth_cells [simp]: "i < lst_length h \<Longrightarrow> cells (Some h) ! i = lst_elements h i"
  by (simp add: cells_def)

lemma list_ok_None [simp]: "list_ok t None"
  by (simp add: list_ok_def check_list_invariants_def)

lemma list_okD:
  assumes "list_ok t (Some h)"
  shows "lst_type h = t" "0 < lst_length h" "lst_length h \<le> lst_max_length h"
    "\<forall>c \<in> set (cells (Some h)). cell_tag c = t"
  using assms by (simp_all add: list_ok_def check_list_invariants_def)

lemma list_ok_tags: "list_ok t l \<Longrightarrow> c \<in> set (cells l) \<Longrightarrow> cell_tag c = t"
  by (simp add: list_ok_def)

lemma list_okI:
  assumes "lst_type h = t" "lst_length h = length xs" "xs \<noteq> []" "length xs \<le> lst_max_length h"
    and "\<And>i. i < length xs \<Longrightarrow> lst_elements h i = xs ! i" "\<forall>c \<in> set xs. cell_tag c = t"
  shows "list_ok t (Some h)" "cells (Some h) = xs"
proof -
  show "cells (Some h) = xs" using assms by (auto intro: nth_equalityI)
  with assms show "list_ok t (Some h)" by (simp add: list_ok_def check_list_invariants_def)
qed

lemma yieldsI:
  assumes "lst_type h = t" "lst_length h = length xs" "xs \<noteq> []" "length xs \<le> lst_max_length h"
    and "\<And>i. i < length xs \<Longrightarrow> lst_elements h i = xs ! i" "\<forall>c \<in> set xs. cell_tag c = t"
  shows "yields palloc t xs (Inr (Some h))"
  using list_okI [OF assms] by (simp add: yields_def)

lemma yields_Inr [simp]: "yields palloc t xs (Inr l) \<longleftrightarrow> list_ok t l \<and> cells l = xs"
  by (simp add: yields_def)

lemma yields_bind:
  assumes "yields palloc t xs r" "\<And>l. list_ok t l \<Longrightarrow> cells l = xs \<Longrightarrow> yields palloc t ys (f l)"
  shows "yields palloc t ys (bind_res r f)"
  using assms by (cases r) (auto simp: yields_def)

text \<open>The errors of an allocation pass through what follows it.\<close>

lemma yields_alloc:
  assumes "n \<le> list_cell_limit" "\<And>m. palloc n = Inr m \<Longrightarrow> yields palloc t xs (f m)"
  shows "yields palloc t xs (bind_res (palloc n) f)"
  using assms by (cases "palloc n") (auto simp: yields_def)

lemma yields_available:
  assumes "yields palloc t xs r" "\<And>n. n \<le> list_cell_limit \<Longrightarrow> \<exists>m. palloc n = Inr m"
  shows "\<exists>l. r = Inr l \<and> list_ok t l \<and> cells l = xs"
  using assms by (cases r) (fastforce simp: yields_def)+

lemma bind_res_assoc: "bind_res (bind_res r f) g = bind_res r (\<lambda>a. bind_res (f a) g)"
  by (cases r) simp_all

subsection \<open>Allocation\<close>

lemma unat_of_nat_u32: "n < 2 ^ 32 \<Longrightarrow> unat (of_nat n :: uint32) = n"
  by (simp add: unat_of_nat)

lemma pg_nextpower2_32_bounds:
  assumes "0 < n" "n \<le> list_cell_limit"
  shows "n \<le> unat (pg_nextpower2_32 (of_nat n))" "unat (pg_nextpower2_32 (of_nat n)) \<le> list_cell_limit"
proof -
  let ?w = "of_nat n :: uint32" and ?p = "leftmost_one_pos n"
  have u: "unat ?w = n" using assms by (simp add: unat_of_nat_u32 list_cell_limit_def)
  have "n \<le> unat (pg_nextpower2_32 ?w) \<and> unat (pg_nextpower2_32 ?w) \<le> list_cell_limit"
  proof (cases "?w AND (?w - 1) = 0")
    case True
    with u assms show ?thesis by (simp add: pg_nextpower2_32_def)
  next
    case False
    then have "n \<noteq> 2 ^ 26" by auto
    with assms have "n < 2 ^ 26" by (simp add: list_cell_limit_def)
    with leftmost_one_pos_bounds [OF assms(1)] have p: "(2::nat) ^ ?p < 2 ^ 26" "n < 2 ^ Suc ?p" by linarith+
    have s: "Suc ?p \<le> 26" using power_less_imp_less_exp [OF _ p(1)] by simp
    have l: "(2::nat) ^ Suc ?p \<le> 2 ^ 26" using s by (rule power_increasing) simp
    have "push_bit (?p + 1) (1 :: uint32) = of_nat (2 ^ Suc ?p)" by (simp add: push_bit_eq_mult)
    moreover have "unat (of_nat (2 ^ Suc ?p) :: uint32) = 2 ^ Suc ?p" using l by (intro unat_of_nat_u32) simp
    ultimately have "unat (push_bit (?p + 1) (1 :: uint32)) = 2 ^ Suc ?p" by (simp only:)
    moreover note l
    ultimately show ?thesis using False u p by (simp add: pg_nextpower2_32_def list_cell_limit_def)
  qed
  then show "n \<le> unat (pg_nextpower2_32 ?w)" "unat (pg_nextpower2_32 ?w) \<le> list_cell_limit" by simp_all
qed

lemma yields_new_list:
  assumes "0 < n" "n + LIST_HEADER_OVERHEAD \<le> list_cell_limit"
    and "\<And>h. lst_type h = t' \<Longrightarrow> lst_length h = n \<Longrightarrow> n \<le> lst_max_length h \<Longrightarrow> yields palloc t xs (f h)"
  shows "yields palloc t xs (bind_res (new_list palloc t' n) f)"
proof -
  let ?n = "max 8 (n + LIST_HEADER_OVERHEAD)"
  have "0 < ?n" "?n \<le> list_cell_limit" using assms(2) by (simp_all add: list_cell_limit_def)
  from pg_nextpower2_32_bounds [OF this] show ?thesis
    unfolding new_list_def Let_def bind_res_assoc
    by (intro yields_alloc) (auto intro!: assms(3))
qed

lemma yields_enlarge_list:
  assumes "0 < n" "n \<le> list_cell_limit"
    and "\<And>h'. lst_type h' = lst_type h \<Longrightarrow> lst_length h' = lst_length h \<Longrightarrow> n \<le> lst_max_length h' \<Longrightarrow>
      (\<And>i. i < lst_length h \<Longrightarrow> lst_elements h' i = lst_elements h i) \<Longrightarrow> yields palloc t xs (f h')"
  shows "yields palloc t xs (bind_res (enlarge_list palloc h n) f)"
proof -
  have "0 < max 16 n" "max 16 n \<le> list_cell_limit" using assms(2) by (simp_all add: list_cell_limit_def)
  from pg_nextpower2_32_bounds [OF this] show ?thesis
    unfolding enlarge_list_def Let_def bind_res_assoc
    by (intro yields_alloc) (auto intro!: assms(3) simp: copy_cells_def)
qed

lemma yields_ensure_room:
  assumes "lst_length h < list_cell_limit"
    and "\<And>h'. lst_type h' = lst_type h \<Longrightarrow> lst_length h' = lst_length h \<Longrightarrow> lst_length h + 1 \<le> lst_max_length h' \<Longrightarrow>
      (\<And>i. i < lst_length h \<Longrightarrow> lst_elements h' i = lst_elements h i) \<Longrightarrow> yields palloc t xs (f h')"
  shows "yields palloc t xs (bind_res (ensure_room palloc h) f)"
proof (cases "lst_max_length h \<le> lst_length h")
  case True
  then show ?thesis unfolding ensure_room_def using assms(1)
    by (simp, intro yields_enlarge_list) (auto intro: assms(2))
next
  case False
  then show ?thesis by (auto simp: ensure_room_def intro: assms(2))
qed

subsection \<open>Operations on cells\<close>

text \<open>Room for a list of the given number of cells, with its header.\<close>

definition fits :: "nat \<Rightarrow> bool" where
  "fits n \<longleftrightarrow> n + LIST_HEADER_OVERHEAD \<le> list_cell_limit"

lemma fits_mono: "fits n \<Longrightarrow> m \<le> n \<Longrightarrow> fits m"
  by (simp add: fits_def)

lemma fits_less: "fits (n + 1) \<Longrightarrow> n < list_cell_limit"
  by (simp add: fits_def)

lemma set_cell_simps [simp]:
  "lst_type (set_cell i c h) = lst_type h" "lst_length (set_cell i c h) = lst_length h"
  "lst_max_length (set_cell i c h) = lst_max_length h" "lst_elements (set_cell i c h) = (lst_elements h)(i := c)"
  by (simp_all add: set_cell_def)

lemma fold_set_cell:
  "lst_type (fold (\<lambda>i. set_cell i (f i)) is h) = lst_type h \<and>
   lst_length (fold (\<lambda>i. set_cell i (f i)) is h) = lst_length h \<and>
   lst_max_length (fold (\<lambda>i. set_cell i (f i)) is h) = lst_max_length h \<and>
   lst_elements (fold (\<lambda>i. set_cell i (f i)) is h) j = (if j \<in> set is then f j else lst_elements h j)"
  by (induction "is" arbitrary: h) auto

lemma list_make_impl_yields:
  assumes "data \<noteq> []" "fits (length data)" "\<forall>c \<in> set data. cell_tag c = t"
  shows "yields palloc t data (list_make_impl palloc t data)"
  unfolding list_make_impl_def using assms
  by (intro yields_new_list) (auto simp: fits_def fold_set_cell intro!: yieldsI simp del: yields_Inr)

lemma append_cell_yields:
  assumes "list_ok t l" "cell_tag c = t" "fits (list_length l + 1)"
  shows "yields palloc t (cells l @ [c]) (append_cell palloc t l c)"
proof (cases l)
  case None
  with assms show ?thesis unfolding append_cell_def option.case
    by (simp, intro yields_new_list) (auto simp: fits_def intro!: yieldsI simp del: yields_Inr)
next
  case (Some h)
  with assms list_okD [of t h] fits_less [of "lst_length h"] show ?thesis
    unfolding append_cell_def new_tail_cell_def
    by (simp add: bind_res_assoc del: yields_Inr, intro yields_ensure_room)
      (auto simp: nth_append less_Suc_eq intro!: yieldsI simp del: yields_Inr)
qed

lemma cons_cell_yields:
  assumes "list_ok t l" "cell_tag c = t" "fits (list_length l + 1)"
  shows "yields palloc t (c # cells l) (cons_cell palloc t c l)"
proof (cases l)
  case None
  with assms show ?thesis unfolding cons_cell_def option.case
    by (simp, intro yields_new_list) (auto simp: fits_def intro!: yieldsI simp del: yields_Inr)
next
  case (Some h)
  with assms list_okD [of t h] fits_less [of "lst_length h"] show ?thesis
    unfolding cons_cell_def new_head_cell_def
    by (simp add: bind_res_assoc del: yields_Inr, intro yields_ensure_room)
      (auto simp: nth_Cons' copy_cells_def intro!: yieldsI simp del: yields_Inr)
qed

lemma insert_nth_cell_yields:
  assumes "list_ok t l" "cell_tag c = t" "fits (list_length l + 1)" "pos \<le> list_length l"
  shows "yields palloc t (take pos (cells l) @ c # drop pos (cells l)) (insert_nth_cell palloc t l pos c)"
proof (cases l)
  case None
  with assms list_make_impl_yields [of "[c]"] show ?thesis by (simp add: insert_nth_cell_def)
next
  case (Some h)
  with assms list_okD [of t h] fits_less [of "lst_length h"] show ?thesis
    unfolding insert_nth_cell_def insert_new_cell_def
    by (simp add: bind_res_assoc del: yields_Inr, intro yields_ensure_room)
      (auto simp: nth_append nth_Cons' copy_cells_def min_def dest!: in_set_takeD in_set_dropD
        intro!: yieldsI simp del: yields_Inr)
qed

lemma list_copy_yields:
  assumes "list_ok t l" "fits (list_length l)"
  shows "yields palloc t (cells l) (list_copy palloc l)"
proof (cases l)
  case None
  then show ?thesis by (simp add: list_copy_def)
next
  case (Some h)
  with assms list_okD [of t h] show ?thesis unfolding list_copy_def
    by (simp del: yields_Inr, intro yields_new_list)
      (auto simp: fits_def copy_cells_def intro!: yieldsI simp del: yields_Inr)
qed

lemma list_copy_head_yields:
  assumes "list_ok t l" "fits (list_length l)"
  shows "yields palloc t (take (nat n) (cells l)) (list_copy_head palloc l n)"
proof (cases "l = None \<or> n \<le> 0")
  case True
  then show ?thesis by (auto simp: list_copy_head_def split: option.split)
next
  case False
  then obtain h where "l = Some h" by auto
  with False assms list_okD [of t h] show ?thesis unfolding list_copy_head_def Let_def
    by (simp del: yields_Inr, intro yields_new_list)
      (auto simp: fits_def copy_cells_def dest: in_set_takeD intro!: yieldsI simp del: yields_Inr)
qed

lemma nat_max_0: "nat (max 0 n) = nat n"
  by (simp add: max_def)

lemma list_copy_tail_yields:
  assumes "list_ok t l" "fits (list_length l)"
  shows "yields palloc t (drop (nat n) (cells l)) (list_copy_tail palloc l n)"
proof (cases "list_length l \<le> nat n")
  case True
  then show ?thesis by (auto simp: list_copy_tail_def Let_def nat_max_0 split: option.split)
next
  case False
  then obtain h where "l = Some h" by (cases l) auto
  with False assms list_okD [of t h] show ?thesis unfolding list_copy_tail_def Let_def nat_max_0
    by (simp del: yields_Inr, intro yields_new_list)
      (auto simp: fits_def copy_cells_def dest: in_set_dropD intro!: yieldsI simp del: yields_Inr)
qed

lemma cell_tag_map [simp]: "cell_tag (map_ListCell f c) = cell_tag c"
  by (cases c) simp_all

lemma list_copy_deep_yields:
  assumes "list_ok t l" "fits (list_length l)"
  shows "yields palloc t (map (map_ListCell f) (cells l)) (list_copy_deep palloc f l)"
proof (cases l)
  case None
  then show ?thesis by (simp add: list_copy_deep_def)
next
  case (Some h)
  with assms list_okD [of t h] show ?thesis unfolding list_copy_deep_def
    by (simp del: yields_Inr, intro yields_new_list)
      (auto simp: fits_def fold_set_cell intro!: yieldsI simp del: yields_Inr)
qed

lemma list_concat_yields:
  assumes "list_ok t l1" "list_ok t l2" "fits (list_length l1 + list_length l2)"
  shows "yields palloc t (cells l1 @ cells l2) (list_concat palloc l1 l2)"
proof (cases "l1 = None \<or> l2 = None")
  case True
  with assms list_copy_yields [of t l2 palloc] show ?thesis
    by (auto simp: list_concat_def split: option.split)
next
  case False
  then obtain h1 h2 where h: "l1 = Some h1" "l2 = Some h2" by auto
  let ?fill = "\<lambda>l. Inr (Some (l\<lparr>lst_elements := copy_cells (lst_length l) (lst_elements h2) 0 (lst_length h2) (lst_elements l),
     lst_length := lst_length h1 + lst_length h2\<rparr>)) :: 'a lst result"
  have fill: "yields palloc t (cells l1 @ cells l2) (?fill g)"
    if "lst_type g = lst_type h1" "lst_length g = lst_length h1" "lst_length h1 + lst_length h2 \<le> lst_max_length g"
      "\<And>i. i < lst_length h1 \<Longrightarrow> lst_elements g i = lst_elements h1 i" for g
    using h assms that list_okD [of t h1] list_okD [of t h2]
    by (auto simp: nth_append copy_cells_def intro!: yieldsI simp del: yields_Inr)
  show ?thesis
  proof (cases "lst_max_length h1 < lst_length h1 + lst_length h2")
    case True
    with h have eq: "list_concat palloc l1 l2 = bind_res (enlarge_list palloc h1 (lst_length h1 + lst_length h2)) ?fill"
      by (simp add: list_concat_def Let_def)
    have "yields palloc t (cells l1 @ cells l2) (bind_res (enlarge_list palloc h1 (lst_length h1 + lst_length h2)) ?fill)"
      using h True assms list_okD(2) [of t h1] by (intro yields_enlarge_list fill) (simp_all add: fits_def)
    then show ?thesis unfolding eq .
  next
    case False
    with h have eq: "list_concat palloc l1 l2 = ?fill h1" by (simp add: list_concat_def Let_def)
    have "yields palloc t (cells l1 @ cells l2) (?fill h1)" using False by (intro fill) simp_all
    then show ?thesis unfolding eq .
  qed
qed

lemma list_concat_copy_yields:
  assumes "list_ok t l1" "list_ok t l2" "fits (list_length l1 + list_length l2)"
  shows "yields palloc t (cells l1 @ cells l2) (list_concat_copy palloc l1 l2)"
proof (cases "l1 = None \<or> l2 = None")
  case True
  with assms list_copy_yields [of t l1 palloc] list_copy_yields [of t l2 palloc] show ?thesis
    by (auto simp: list_concat_copy_def split: option.split)
next
  case False
  then obtain h1 h2 where "l1 = Some h1" "l2 = Some h2" by auto
  with assms list_okD [of t h1] list_okD [of t h2] show ?thesis unfolding list_concat_copy_def
    by (simp del: yields_Inr, intro yields_new_list)
      (auto simp: fits_def nth_append copy_cells_def intro!: yieldsI simp del: yields_Inr)
qed

subsection \<open>Removal of cells\<close>

text \<open>The operations that allocate nothing: the kind and the cells of their result.\<close>

definition list_holds :: "list_tag \<Rightarrow> 'p ListCell list \<Rightarrow> 'p lst \<Rightarrow> bool" where
  "list_holds t xs l \<longleftrightarrow> list_ok t l \<and> cells l = xs"

lemma holdsI:
  assumes "lst_type h = t" "lst_length h = length xs" "xs \<noteq> []" "length xs \<le> lst_max_length h"
    and "\<And>i. i < length xs \<Longrightarrow> lst_elements h i = xs ! i" "\<forall>c \<in> set xs. cell_tag c = t"
  shows "list_holds t xs (Some h)"
  using list_okI [OF assms] by (simp add: list_holds_def)

lemma holds_None [simp]: "list_holds t xs None \<longleftrightarrow> xs = []"
  by (auto simp: list_holds_def)

lemma list_truncate_holds:
  assumes "list_ok t l"
  shows "list_holds t (take (nat n) (cells l)) (list_truncate l n)"
proof (cases "n \<le> 0 \<or> list_length l \<le> nat n")
  case True
  then show ?thesis using assms by (auto simp: list_truncate_def list_holds_def)
next
  case False
  then obtain h where "l = Some h" by (cases l) auto
  with False assms list_okD [of t h] show ?thesis
    by (auto simp: list_truncate_def dest!: in_set_takeD intro!: holdsI)
qed

lemma list_delete_nth_cell_holds:
  assumes "list_ok t (Some h)" "n < lst_length h"
  shows "list_holds t (take n (cells (Some h)) @ drop (Suc n) (cells (Some h))) (list_delete_nth_cell h n)"
proof (cases "lst_length h = 1")
  case True
  with assms(2) show ?thesis by (simp add: list_delete_nth_cell_def)
next
  case False
  then show ?thesis using assms list_okD [OF assms(1)]
    by (auto simp: list_delete_nth_cell_def copy_cells_def nth_append min_def dest!: in_set_takeD in_set_dropD
      intro!: holdsI)
qed

lemma list_delete_first_holds:
  assumes "list_ok t l"
  shows "list_holds t (tl (cells l)) (list_delete_first l)"
proof (cases l)
  case (Some h)
  with assms list_okD(2) [of t h] list_delete_nth_cell_holds [of t h 0] show ?thesis
    by (simp add: list_delete_first_def drop_Suc)
qed (simp add: list_delete_first_def)

lemma list_delete_last_holds:
  assumes "list_ok t l"
  shows "list_holds t (butlast (cells l)) (list_delete_last l)"
proof (cases "list_length l \<le> 1")
  case True
  then have "butlast (cells l) = []" by (simp add: butlast_conv_take)
  with True show ?thesis by (simp add: list_delete_last_def split: option.split)
next
  case False
  then obtain h where "l = Some h" by (cases l) auto
  with False list_truncate_holds [OF assms, of "int (list_length l) - 1"] show ?thesis
    by (simp add: list_delete_last_def butlast_conv_take nat_diff_distrib')
qed

lemma list_delete_first_n_holds:
  assumes "list_ok t l"
  shows "list_holds t (drop (nat n) (cells l)) (list_delete_first_n l n)"
proof (cases "n \<le> 0 \<or> int (list_length l) \<le> n")
  case True
  then show ?thesis using assms by (auto simp: list_delete_first_n_def list_holds_def)
next
  case False
  then obtain h where "l = Some h" by (cases l) auto
  with False assms list_okD [of t h] show ?thesis
    by (auto simp: list_delete_first_n_def copy_cells_def dest!: in_set_dropD intro!: holdsI)
qed

text \<open>The first element with a property is left out.\<close>

primrec remove_first :: "('a \<Rightarrow> bool) \<Rightarrow> 'a list \<Rightarrow> 'a list" where
  "remove_first P [] = []"
| "remove_first P (x # xs) = (if P x then xs else x # remove_first P xs)"

lemma remove_first_nth:
  "i < length xs \<Longrightarrow> P (xs ! i) \<Longrightarrow> \<forall>j < i. \<not> P (xs ! j) \<Longrightarrow> remove_first P xs = take i xs @ drop (Suc i) xs"
proof (induction xs arbitrary: i)
  case (Cons x xs)
  show ?case
  proof (cases i)
    case (Suc k)
    with Cons.prems have "\<not> P x" "\<forall>j < k. \<not> P (xs ! j)" by auto
    with Suc Cons show ?thesis by simp
  qed (use Cons.prems in simp)
qed simp

lemma remove_first_none: "\<forall>x \<in> set xs. \<not> P x \<Longrightarrow> remove_first P xs = xs"
  by (induction xs) simp_all

lemma remove_first_map: "remove_first P (map f xs) = map f (remove_first (\<lambda>x. P (f x)) xs)"
  by (induction xs) simp_all

lemma delete_datum_holds:
  assumes "list_ok t l"
  shows "list_holds t (remove_first (\<lambda>c. eq c d) (cells l)) (delete_datum eq l d)"
proof (cases l)
  case None
  then show ?thesis by (simp add: delete_datum_def)
next
  case (Some h)
  show ?thesis
  proof (cases "find (\<lambda>i. eq (lst_elements h i) d) [0..<lst_length h]")
    case None
    then have "remove_first (\<lambda>c. eq c d) (cells l) = cells l"
      using Some by (intro remove_first_none) (auto simp: find_None_iff cells_def)
    with None Some assms show ?thesis by (simp add: delete_datum_def list_holds_def)
  next
    case i: (Some i)
    then have "i < lst_length h" "eq (lst_elements h i) d" "\<forall>j < i. \<not> eq (lst_elements h j) d"
      by (auto simp: find_Some_iff)
    then have "remove_first (\<lambda>c. eq c d) (cells l) = take i (cells l) @ drop (Suc i) (cells l)"
      using Some by (intro remove_first_nth) simp_all
    with i Some assms \<open>i < lst_length h\<close> list_delete_nth_cell_holds [of t h i] show ?thesis
      by (simp add: delete_datum_def)
  qed
qed

subsection \<open>Set operations on cells\<close>

text \<open>
  The elements that the second list adds to the first: those without an equal element
  in the first list or earlier in the second.
\<close>

primrec fresh :: "('a \<Rightarrow> 'a \<Rightarrow> bool) \<Rightarrow> 'a list \<Rightarrow> 'a list \<Rightarrow> 'a list" where
  "fresh same xs [] = []"
| "fresh same xs (y # ys) = (if list_ex (\<lambda>x. same x y) xs then fresh same xs ys else y # fresh same (xs @ [y]) ys)"

lemma fresh_eq: "fresh (=) xs ys = filter (\<lambda>y. y \<notin> set xs) (rev (remdups (rev ys)))"
proof (induction ys arbitrary: xs)
  case (Cons y ys)
  have *: "rev (remdups (rev (y # ys))) = y # filter (\<lambda>z. z \<noteq> y) (rev (remdups (rev ys)))"
    by (induction ys rule: rev_induct) auto
  show ?case
  proof (cases "y \<in> set xs")
    case True
    then have "list_ex (\<lambda>x. x = y) xs" by (simp add: list_ex_iff)
    with True * Cons show ?thesis by (auto intro!: filter_cong)
  next
    case False
    then have "\<not> list_ex (\<lambda>x. x = y) xs" by (auto simp: list_ex_iff)
    with False * Cons show ?thesis by (auto intro!: filter_cong)
  qed
qed simp

lemma fresh_subseteq: "set (fresh same xs ys) \<subseteq> set ys"
  by (induction ys arbitrary: xs) auto

lemma length_fresh: "length (fresh same xs ys) \<le> length ys"
  by (induction ys arbitrary: xs) (simp_all add: le_SucI)

lemma append_all_unique_yields:
  assumes "list_ok t l" "\<forall>c \<in> set cs. cell_tag c = t" "fits (list_length l + length cs)"
  shows "yields palloc t (cells l @ fresh eq (cells l) cs) (append_all_unique palloc eq t cs l)"
  using assms
proof (induction cs arbitrary: l)
  case (Cons c cs)
  have f: "fits (list_length l + length cs)" "fits (list_length l + 1)"
    using Cons.prems(3) by (auto elim: fits_mono)
  show ?case
  proof (cases "list_ex (\<lambda>x. eq x c) (cells l)")
    case True
    with Cons.IH [of l] Cons.prems f show ?thesis by (simp add: member_cell_def)
  next
    case False
    then have "append_all_unique palloc eq t (c # cs) l =
        bind_res (append_cell palloc t l c) (append_all_unique palloc eq t cs)" by (simp add: member_cell_def)
    moreover have "yields palloc t ((cells l @ [c]) @ fresh eq (cells l @ [c]) cs)
        (bind_res (append_cell palloc t l c) (append_all_unique palloc eq t cs))"
    proof (rule yields_bind [OF append_cell_yields])
      fix l' assume l': "list_ok t l'" "cells l' = cells l @ [c]"
      then have "list_length l' = list_length l + 1" by (metis cells_simps(2) length_append_singleton Suc_eq_plus1)
      with Cons.IH [of l'] Cons.prems l' show "yields palloc t ((cells l @ [c]) @ fresh eq (cells l @ [c]) cs)
          (append_all_unique palloc eq t cs l')" by simp
    qed (use Cons.prems f in simp_all)
    ultimately show ?thesis using False by simp
  qed
qed simp

lemma append_filtered_yields:
  assumes "list_ok t l" "\<forall>c \<in> set cs. cell_tag c = t" "fits (list_length l + length cs)"
  shows "yields palloc t (cells l @ filter P cs) (append_filtered palloc t P cs l)"
  using assms
proof (induction cs arbitrary: l)
  case (Cons c cs)
  have f: "fits (list_length l + length cs)" "fits (list_length l + 1)"
    using Cons.prems(3) by (auto elim: fits_mono)
  show ?case
  proof (cases "P c")
    case False
    with Cons.IH [of l] Cons.prems f show ?thesis by simp
  next
    case True
    then have "append_filtered palloc t P (c # cs) l =
        bind_res (append_cell palloc t l c) (append_filtered palloc t P cs)" by simp
    moreover have "yields palloc t ((cells l @ [c]) @ filter P cs)
        (bind_res (append_cell palloc t l c) (append_filtered palloc t P cs))"
    proof (rule yields_bind [OF append_cell_yields])
      fix l' assume l': "list_ok t l'" "cells l' = cells l @ [c]"
      then have "list_length l' = list_length l + 1" by (metis cells_simps(2) length_append_singleton Suc_eq_plus1)
      with Cons.IH [of l'] Cons.prems l' show "yields palloc t ((cells l @ [c]) @ filter P cs)
          (append_filtered palloc t P cs l')" by simp
    qed (use Cons.prems f in simp_all)
    ultimately show ?thesis using True by simp
  qed
qed simp

subsection \<open>Adjacent duplicates\<close>

lemma eq_oid_iff: "cell_tag a = T_OidList \<Longrightarrow> cell_tag b = T_OidList \<Longrightarrow> eq_oid a b \<longleftrightarrow> a = b"
  by (cases a; cases b) simp_all

lemma remdups_adj_Cons_tl: "remdups_adj (x # xs) = x # tl (remdups_adj (x # xs))"
  by (metis hd_Cons_tl hd_remdups_adj list.sel(1) remdups_adj_Nil_iff list.distinct(1))

lemma dedup_loop_cells:
  assumes "\<forall>m < n. cell_tag (e m) = T_OidList" "i < j" "j \<le> n" "dedup_loop [j..<n] i e = (k, e')"
  shows "k < n \<and> map e' [0..<Suc k] = map e [0..<Suc i] @ tl (remdups_adj (e i # map e [j..<n]))"
  using assms
proof (induction "n - j" arbitrary: i j e)
  case 0
  then show ?case by simp
next
  case (Suc d)
  then have j: "[j..<n] = j # [Suc j..<n]" "d = n - Suc j" "Suc j \<le> n" by (simp_all add: upt_conv_Cons)
  have eq: "eq_oid (e i) (e j) \<longleftrightarrow> e i = e j" using Suc.prems j by (intro eq_oid_iff) simp_all
  show ?case
  proof (cases "e i = e j")
    case True
    with Suc.prems j eq have "dedup_loop [Suc j..<n] i e = (k, e')" by simp
    from Suc.hyps(1) [OF j(2) Suc.prems(1) _ j(3) this] Suc.prems(2)
    have "k < n \<and> map e' [0..<Suc k] = map e [0..<Suc i] @ tl (remdups_adj (e i # map e [Suc j..<n]))" by simp
    with True show ?thesis by (simp add: j(1))
  next
    case False
    let ?e = "e(Suc i := e j)"
    have r: "dedup_loop [Suc j..<n] (Suc i) ?e = (k, e')" using Suc.prems j eq False by simp
    have t: "\<forall>m < n. cell_tag (?e m) = T_OidList" using Suc.prems j by simp
    have "k < n \<and> map e' [0..<Suc k] = map ?e [0..<Suc (Suc i)] @ tl (remdups_adj (?e (Suc i) # map ?e [Suc j..<n]))"
      using Suc.hyps(1) [OF j(2) t _ j(3) r] Suc.prems(2) by simp
    moreover have "map ?e [Suc j..<n] = map e [Suc j..<n]" "map ?e [0..<Suc (Suc i)] = map e [0..<Suc i] @ [e j]"
      using Suc.prems(2) by auto
    moreover have "tl (remdups_adj (e i # map e [j..<n])) = e j # tl (remdups_adj (e j # map e [Suc j..<n]))"
      using False remdups_adj_Cons_tl [of "e j"] by (simp add: j(1))
    ultimately show ?thesis by simp
  qed
qed

lemma list_deduplicate_oid_holds:
  assumes "list_ok T_OidList l"
  shows "list_holds T_OidList (remdups_adj (cells l)) (list_deduplicate_oid l)"
proof (cases "1 < list_length l")
  case False
  then have "length (cells l) \<le> 1" by simp
  then have "remdups_adj (cells l) = cells l"
    by (cases "cells l" rule: remdups_adj.cases) simp_all
  moreover have "list_deduplicate_oid l = l" using False by (cases l) (simp_all add: list_deduplicate_oid_def)
  ultimately show ?thesis using assms by (simp add: list_holds_def)
next
  case True
  then obtain h where l: "l = Some h" by (cases l) auto
  note ok = list_okD [OF assms [unfolded l]]
  obtain k e where r: "dedup_loop [1..<lst_length h] 0 (lst_elements h) = (k, e)" by fastforce
  let ?n = "lst_length h"
  have "[0..<?n] = 0 # [1..<?n]" using True l by (simp add: upt_conv_Cons)
  then have c: "cells l = lst_elements h 0 # map (lst_elements h) [1..<?n]" by (simp add: l cells_def)
  have "\<forall>m < ?n. cell_tag (lst_elements h m) = T_OidList" using ok(4) by (simp add: cells_def)
  from dedup_loop_cells [OF this _ _ r] True l
  have k: "k < ?n" "map e [0..<Suc k] = remdups_adj (cells l)"
    using remdups_adj_Cons_tl [of "lst_elements h 0"] unfolding c by simp_all
  let ?h = "h\<lparr>lst_elements := e, lst_length := Suc k\<rparr>"
  have "list_deduplicate_oid l = Some ?h" using True l r by (simp add: list_deduplicate_oid_def)
  moreover have "cells (Some ?h) = remdups_adj (cells l)" using k(2) by (simp add: cells_def del: upt_Suc)
  ultimately show ?thesis using k(1) ok l
    by (simp add: list_holds_def list_ok_def check_list_invariants_def)
qed

subsection \<open>Kinds of lists\<close>

text \<open>
  A kind of list: the constructor of its cells, its tag, and a comparison of its cells that
  compares the data. The four copies of each routine are instances.
\<close>

locale cell_kind =
  fixes mk :: "'d \<Rightarrow> 'p ListCell" and t :: list_tag
    and eq :: "'p ListCell \<Rightarrow> 'p ListCell \<Rightarrow> bool" and same :: "'d \<Rightarrow> 'd \<Rightarrow> bool"
  assumes tag: "cell_tag (mk d) = t"
    and data: "cell_tag c = t \<Longrightarrow> \<exists>d. c = mk d"
    and eq_mk: "eq (mk a) (mk b) = same a b"
begin

lemma data_of: "list_ok t l \<Longrightarrow> \<exists>xs. cells l = map mk xs"
  using data list_ok_tags by (metis ex_map_conv)

lemma member: "list_holds t (map mk xs) l \<Longrightarrow> member_cell eq l (mk d) \<longleftrightarrow> (\<exists>x \<in> set xs. same x d)"
  by (auto simp: list_holds_def member_cell_def list_ex_iff eq_mk)

lemma tags: "\<forall>c \<in> set (map mk xs). cell_tag c = t"
  by (simp add: tag)

lemma holds_length: "list_holds t (map mk xs) l \<Longrightarrow> list_length l = length xs"
  by (metis list_holds_def cells_simps(2) length_map)

lemma append:
  "list_holds t (map mk xs) l \<Longrightarrow> fits (length xs + 1) \<Longrightarrow> yields palloc t (map mk (xs @ [d])) (append_cell palloc t l (mk d))"
  using append_cell_yields [of t l "mk d" palloc] by (simp add: list_holds_def tag holds_length)

lemma cons:
  "list_holds t (map mk xs) l \<Longrightarrow> fits (length xs + 1) \<Longrightarrow> yields palloc t (map mk (d # xs)) (cons_cell palloc t (mk d) l)"
  using cons_cell_yields [of t l "mk d" palloc] by (simp add: list_holds_def tag holds_length)

lemma insert_nth:
  "list_holds t (map mk xs) l \<Longrightarrow> fits (length xs + 1) \<Longrightarrow> pos \<le> length xs \<Longrightarrow>
   yields palloc t (map mk (take pos xs @ d # drop pos xs)) (insert_nth_cell palloc t l pos (mk d))"
  using insert_nth_cell_yields [of t l "mk d" pos palloc]
  by (simp add: list_holds_def tag holds_length take_map drop_map)

lemma delete_first: "list_holds t (map mk xs) l \<Longrightarrow> list_holds t (map mk (remove_first (\<lambda>x. same x d) xs)) (delete_datum eq l (mk d))"
  using delete_datum_holds [of t l eq "mk d"] by (simp add: list_holds_def remove_first_map eq_mk)

lemma unique:
  "list_holds t (map mk xs) l \<Longrightarrow> fits (length xs + 1) \<Longrightarrow>
   yields palloc t (map mk (if \<exists>x \<in> set xs. same x d then xs else xs @ [d])) (append_unique palloc eq t l (mk d))"
  using append [of xs l palloc d] by (simp add: append_unique_def member) (simp add: list_holds_def)

lemma fresh_map: "fresh eq (map mk xs) (map mk ys) = map mk (fresh same xs ys)"
proof (induction ys arbitrary: xs)
  case (Cons y ys)
  from Cons [of "xs @ [y]"] Cons [of xs] show ?case by (simp add: list_ex_iff eq_mk)
qed simp

lemma concatenate_unique:
  assumes "list_holds t (map mk xs) l1" "list_holds t (map mk ys) l2" "fits (length xs + length ys)"
  shows "yields palloc t (map mk (xs @ fresh same xs ys)) (concat_unique palloc eq t l1 l2)"
  using append_all_unique_yields [of t l1 "cells l2" palloc eq] assms
  by (simp add: concat_unique_def list_holds_def holds_length fresh_map tag)

lemma union:
  assumes "list_holds t (map mk xs) l1" "list_holds t (map mk ys) l2" "fits (length xs + length ys)"
  shows "yields palloc t (map mk (xs @ fresh same xs ys)) (union_cells palloc eq t l1 l2)"
  unfolding union_cells_def
proof (rule yields_bind [OF list_copy_yields])
  fix l assume "list_ok t l" "cells l = cells l1"
  with assms have "list_holds t (map mk xs) l" by (simp add: list_holds_def)
  from concatenate_unique [OF this assms(2,3)]
  show "yields palloc t (map mk (xs @ fresh same xs ys)) (append_all_unique palloc eq t (cells l2) l)"
    by (simp add: concat_unique_def)
qed (use assms in \<open>auto simp: list_holds_def holds_length elim: fits_mono\<close>)

lemma filtered:
  assumes "list_holds t (map mk xs) l" "fits (length xs)"
  shows "yields palloc t (map mk (filter (\<lambda>x. P (mk x)) xs)) (append_filtered palloc t P (cells l) None)"
  using append_filtered_yields [of t None "cells l" palloc P] assms
  by (simp add: list_holds_def holds_length filter_map comp_def tag)

lemma intersection:
  assumes "list_holds t (map mk xs) l1" "list_holds t (map mk ys) l2" "fits (length xs)"
  shows "yields palloc t (map mk (filter (\<lambda>x. \<exists>y \<in> set ys. same y x) xs)) (intersect_cells palloc eq t l1 l2)"
  using filtered [OF assms(1,3), of palloc "member_cell eq l2"] assms(1,2) member [OF assms(2)]
  by (auto simp: intersect_cells_def)

lemma difference:
  assumes "list_holds t (map mk xs) l1" "list_holds t (map mk ys) l2" "fits (length xs)"
  shows "yields palloc t (map mk (filter (\<lambda>x. \<not> (\<exists>y \<in> set ys. same y x)) xs)) (difference_cells palloc eq t l1 l2)"
  using filtered [OF assms(1,3), of palloc "\<lambda>c. \<not> member_cell eq l2 c"] assms member [OF assms(2)]
    list_copy_yields [of t l1 palloc] holds_length [OF assms(1)]
  by (auto simp: difference_cells_def) (auto simp: list_holds_def)

end

interpretation node_list: cell_kind PtrCell T_List "eq_node equal" equal for equal
proof
  show "cell_tag c = T_List \<Longrightarrow> \<exists>d. c = PtrCell d" for c :: "'a ListCell" by (cases c) simp_all
qed simp_all

interpretation int_list: cell_kind IntCell T_IntList eq_int "(=)"
proof
  show "cell_tag c = T_IntList \<Longrightarrow> \<exists>d. c = IntCell d" for c :: "'a ListCell" by (cases c) simp_all
qed simp_all

interpretation oid_list: cell_kind OidCell T_OidList eq_oid "(=)"
proof
  show "cell_tag c = T_OidList \<Longrightarrow> \<exists>d. c = OidCell d" for c :: "'a ListCell" by (cases c) simp_all
qed simp_all

interpretation xid_list: cell_kind XidCell T_XidList eq_xid "(=)"
proof
  show "cell_tag c = T_XidList \<Longrightarrow> \<exists>d. c = XidCell d" for c :: "'a ListCell" by (cases c) simp_all
qed simp_all

subsection \<open>Lists of OIDs\<close>

lemma remove_first_eq: "remove_first (\<lambda>x. x = d) xs = remove1 d xs"
  by (induction xs) simp_all

text \<open>
  On OIDs, where equal data are identical, the set operations are those of lists: a union
  adds the new elements in the order of their first occurrence.
\<close>

lemma list_oid_sets:
  assumes "list_holds T_OidList (map OidCell xs) l1" "list_holds T_OidList (map OidCell ys) l2"
    and "fits (length xs + length ys)"
  shows "list_member_oid l1 d \<longleftrightarrow> d \<in> set xs"
    and "list_holds T_OidList (map OidCell (remove1 d xs)) (list_delete_oid l1 d)"
    and "yields palloc T_OidList (map OidCell (xs @ filter (\<lambda>y. y \<notin> set xs) (rev (remdups (rev ys))))) (list_union_oid palloc l1 l2)"
    and "yields palloc T_OidList (map OidCell (xs @ filter (\<lambda>y. y \<notin> set xs) (rev (remdups (rev ys))))) (list_concat_unique_oid palloc l1 l2)"
    and "yields palloc T_OidList (map OidCell (filter (\<lambda>x. x \<notin> set ys) xs)) (list_difference_oid palloc l1 l2)"
    and "list_holds T_OidList (map OidCell (remdups_adj xs)) (list_deduplicate_oid l1)"
proof -
  have f: "fits (length xs)" using assms(3) by (rule fits_mono) simp
  have eq: "(\<lambda>x. \<not> (\<exists>y \<in> set ys. y = x)) = (\<lambda>x. x \<notin> set ys)" by auto
  show "list_member_oid l1 d \<longleftrightarrow> d \<in> set xs"
    using oid_list.member [OF assms(1)] by (simp add: list_member_oid_def)
  show "list_holds T_OidList (map OidCell (remove1 d xs)) (list_delete_oid l1 d)"
    using oid_list.delete_first [OF assms(1), of d] by (simp add: list_delete_oid_def remove_first_eq)
  show "yields palloc T_OidList (map OidCell (xs @ filter (\<lambda>y. y \<notin> set xs) (rev (remdups (rev ys))))) (list_union_oid palloc l1 l2)"
    using oid_list.union [OF assms, of palloc] by (simp only: fresh_eq list_union_oid_def)
  show "yields palloc T_OidList (map OidCell (xs @ filter (\<lambda>y. y \<notin> set xs) (rev (remdups (rev ys))))) (list_concat_unique_oid palloc l1 l2)"
    using oid_list.concatenate_unique [OF assms, of palloc] by (simp only: fresh_eq list_concat_unique_oid_def)
  show "yields palloc T_OidList (map OidCell (filter (\<lambda>x. x \<notin> set ys) xs)) (list_difference_oid palloc l1 l2)"
    using oid_list.difference [OF assms(1,2) f, of palloc] by (simp only: eq list_difference_oid_def)
  have "remdups_adj (map OidCell xs) = map OidCell (remdups_adj xs)"
    by (rule remdups_adj_map_injective) (simp add: inj_on_def)
  then show "list_holds T_OidList (map OidCell (remdups_adj xs)) (list_deduplicate_oid l1)"
    using list_deduplicate_oid_holds [of l1] assms(1) by (simp add: list_holds_def)
qed

text \<open>The comparison functions are total orders on their kind.\<close>

lemma list_cmp_orders:
  "list_int_cmp (IntCell a) (IntCell b) = - list_int_cmp (IntCell b) (IntCell a)"
  "list_int_cmp (IntCell a) (IntCell b) \<le> 0 \<longleftrightarrow> sint a \<le> sint b"
  "list_oid_cmp (OidCell c) (OidCell d) = - list_oid_cmp (OidCell d) (OidCell c)"
  "list_oid_cmp (OidCell c) (OidCell d) \<le> 0 \<longleftrightarrow> c \<le> d"
  by (auto simp: pg_cmp_s32_def pg_cmp_u32_def not_le)

subsection \<open>Lists of nodes\<close>

text \<open>
  C25: the operations on lists of nodes do to their arrays what their names say of the
  sequence of the elements: they add at the end, at the front and at a position,
  concatenate, copy a list, its first or its later elements, truncate, delete by position
  and by value, and form the union, intersection and difference by \<^verbatim>\<open>equal\<close>. The result
  satisfies the assertion of \<^verbatim>\<open>check_list_invariants\<close> and contains nodes only. The only
  other outcome is the error of an allocation of at most \<open>2 ^ 26\<close> cells.
\<close>

theorem list_operations_refine:
  assumes "list_holds T_List (map PtrCell xs) l" "list_holds T_List (map PtrCell ys) l'"
    and "fits (length xs + length ys + 1)" "pos \<le> length xs"
  shows "yields palloc T_List (map PtrCell (xs @ [d])) (lappend palloc l d)
    \<and> yields palloc T_List (map PtrCell (d # xs)) (lcons palloc d l)
    \<and> yields palloc T_List (map PtrCell (take pos xs @ d # drop pos xs)) (list_insert_nth palloc l pos d)
    \<and> yields palloc T_List (map PtrCell (xs @ ys)) (list_concat palloc l l')
    \<and> yields palloc T_List (map PtrCell (xs @ ys)) (list_concat_copy palloc l l')
    \<and> yields palloc T_List (map PtrCell xs) (list_copy palloc l)
    \<and> yields palloc T_List (map PtrCell (take (nat n) xs)) (list_copy_head palloc l n)
    \<and> yields palloc T_List (map PtrCell (drop (nat n) xs)) (list_copy_tail palloc l n)
    \<and> list_holds T_List (map PtrCell (take (nat n) xs)) (list_truncate l n)
    \<and> list_holds T_List (map PtrCell (tl xs)) (list_delete_first l)
    \<and> list_holds T_List (map PtrCell (butlast xs)) (list_delete_last l)
    \<and> list_holds T_List (map PtrCell (drop (nat n) xs)) (list_delete_first_n l n)
    \<and> list_holds T_List (map PtrCell (remove_first (\<lambda>x. equal x d) xs)) (list_delete equal l d)
    \<and> (list_member equal l d \<longleftrightarrow> (\<exists>x \<in> set xs. equal x d))
    \<and> yields palloc T_List (map PtrCell (xs @ fresh equal xs ys)) (list_union palloc equal l l')
    \<and> yields palloc T_List (map PtrCell (filter (\<lambda>x. \<exists>y \<in> set ys. equal y x) xs)) (list_intersection palloc equal l l')
    \<and> yields palloc T_List (map PtrCell (filter (\<lambda>x. \<not> (\<exists>y \<in> set ys. equal y x)) xs)) (list_difference palloc equal l l')"
proof -
  have f: "fits (length xs + length ys)" "fits (length xs + 1)" "fits (length xs)"
    using assms(3) by (auto elim: fits_mono)
  have ok: "list_ok T_List l" "cells l = map PtrCell xs" "list_ok T_List l'" "cells l' = map PtrCell ys"
    using assms(1,2) by (simp_all add: list_holds_def)
  have len: "list_length l = length xs" "list_length l' = length ys"
    using node_list.holds_length assms(1,2) by blast+
  note whole = list_concat_yields [OF ok(1,3)] list_concat_copy_yields [OF ok(1,3)] list_copy_yields [OF ok(1)]
    list_copy_head_yields [OF ok(1)] list_copy_tail_yields [OF ok(1)]
    list_truncate_holds [OF ok(1)] list_delete_first_holds [OF ok(1)] list_delete_last_holds [OF ok(1)]
    list_delete_first_n_holds [OF ok(1)]
  note nodes = node_list.append [OF assms(1) f(2)] node_list.cons [OF assms(1) f(2)]
    node_list.insert_nth [OF assms(1) f(2) assms(4)] node_list.delete_first [OF assms(1)] node_list.member [OF assms(1)]
    node_list.union [OF assms(1,2) f(1)] node_list.intersection [OF assms(1,2) f(3)]
    node_list.difference [OF assms(1,2) f(3)]
  note whole' = whole [unfolded ok len map_append [symmetric] take_map drop_map map_tl [symmetric] map_butlast [symmetric]]
  show ?thesis
    unfolding lappend_def lcons_def list_insert_nth_def list_delete_def list_member_def list_union_def
      list_intersection_def list_difference_def
    by (intro conjI nodes whole' f)
qed

text \<open>The pointers 1 and 2 in a list that \<open>list_make2\<close> builds, in memory that never runs out.\<close>

definition plenty :: "nat cell_alloc" where
  "plenty n = Inr (\<lambda>_. PtrCell 0)"

definition pair_list :: "nat lst" where
  "pair_list = Some \<lparr>lst_type = T_List, lst_length = 2, lst_max_length = 5, lst_elements = (\<lambda>_. PtrCell 0)(0 := PtrCell 1, 1 := PtrCell 2)\<rparr>"

lemma pair_list_holds: "list_holds T_List (map PtrCell [1, 2]) pair_list"
  by (auto simp: pair_list_def less_Suc_eq intro!: holdsI)

theorem list_operations_refine_witness:
  "\<exists>l. lcons plenty 7 pair_list = Inr l \<and> cells l = [PtrCell 7, PtrCell 1, PtrCell 2] \<and>
     cells (list_delete (=) pair_list 1) = [PtrCell 2]"
proof -
  have "fits (length [1 :: nat, 2] + length [1 :: nat, 2] + 1)" by (simp add: fits_def LIST_HEADER_OVERHEAD_def list_cell_limit_def)
  from list_operations_refine [OF pair_list_holds pair_list_holds this, of 1 plenty 7 2 "(=)"]
  have "yields plenty T_List (map PtrCell [7, 1, 2]) (lcons plenty 7 pair_list)" by simp
  moreover from list_operations_refine [OF pair_list_holds pair_list_holds \<open>fits _\<close>, of 1 plenty 1 2 "(=)"]
  have "cells (list_delete (=) pair_list 1) = [PtrCell 2]" by (simp add: list_holds_def)
  ultimately show ?thesis using yields_available [of plenty T_List] by (fastforce simp: plenty_def)
qed

end
