(* ===== verification/Spec2Isabelle.thy ===== *)
theory Spec2Isabelle
  imports Ring_Protocol Hooks Postmaster Stringinfo Pg_List
begin

text \<open>
  \<^bold>\<open>AutoIndex for PostgreSQL: a verification development\<close>

  The program is a PostgreSQL server that creates and drops indexes by itself. Paths below
  are relative to \<^verbatim>\<open>src/postgres/src/\<close>.

  \<^bold>\<open>The parts and how they interact.\<close> Every backend ends a query in an \<open>ExecutorEnd\<close> hook
  (\<^verbatim>\<open>backend/autoindex/workload_capture.c\<close>), which walks the finished plan, notes the
  columns used in predicates, joins and sorts together with the plan's cost, and pushes one
  entry into a ring in shared memory. A background worker
  (\<^verbatim>\<open>backend/autoindex/autoindex.c\<close>) wakes up at intervals. Its advisor pass
  (\<^verbatim>\<open>backend/autoindex/index_advisor.c\<close>) drains the ring into a hash table of costs per
  column, compares the accumulated cost (the rent) with the price of an index, and creates
  the indexes whose rent has reached the price, the ski-rental rule. Its lifecycle pass
  (\<^verbatim>\<open>backend/autoindex/index_lifecycle.c\<close>) drops the indexes it finds unused. Both passes
  work through the server programming interface with commands that they build as text. The
  postmaster registers the worker, starts it and restarts it after a crash.

  \<^bold>\<open>Theories.\<close> A theory imports the theories of the components it calls.

  \<^item> \<open>Prelude\<close>: the C integer types as words, results with an error on the left, the shared
    lemma collections, masked positions and signed values.
  \<^item> \<open>Workload\<close>: limits and records of \<^verbatim>\<open>include/autoindex/autoindex.h\<close>: \<open>WorkloadEntry\<close>,
    the ring, the shared header and its initialisation.
  \<^item> \<open>Ring\<close>: \<open>ring_buffer_push\<close> and \<open>drain_ring_buffer\<close> run alone; they implement a bounded
    queue (locale \<open>bounded_queue\<close>, interpreted as \<open>ringq\<close>).
  \<^item> \<open>Ring_Protocol\<close>: the same two operations as a step relation, one step for every atomic
    access, for any number of backends and one worker.
  \<^item> \<open>Double\<close>: binary64 rounding on reals (locale \<open>rounding\<close>, interpreted as \<open>binary64\<close>).
  \<^item> \<open>AdvisorHash\<close>: the statistics table of \<^verbatim>\<open>index_advisor.c\<close> with open addressing: hash,
    find-or-create, removal, eviction, accumulation (locale \<open>keyed_stats\<close>, interpreted as
    \<open>table\<close>).
  \<^item> \<open>Nodes\<close>, \<open>Capture\<close>, \<open>Hooks\<close>: the plan and expression nodes and \<open>pull_var_clause\<close>
    (\<^verbatim>\<open>backend/optimizer/util/var.c\<close>), the walk over the plan and the hook, and the chain of
    hook variables as the server installs and calls it.
  \<^item> \<open>Pg_List\<close>: the list type in which the plans keep their clauses
    (\<^verbatim>\<open>backend/nodes/list.c\<close>): the array behind it, its growth and its operations, for
    nodes, integers, OIDs and transaction ids (locale \<open>cell_kind\<close>, interpreted as \<open>node_list\<close>,
    \<open>int_list\<close>, \<open>oid_list\<close> and \<open>xid_list\<close>).
  \<^item> \<open>Like\<close>, \<open>Keywords\<close>, \<open>Identifiers\<close>: the \<open>LIKE\<close> matcher behind the name pattern, the
    keyword table, \<open>quote_identifier\<close>, and the scanner and grammar rules for the two commands.
  \<^item> \<open>Numutils\<close>, \<open>Numinput\<close>: decimal output and input of integers (locale \<open>decimal_printer\<close>,
    interpreted as \<open>u32\<close> and \<open>u64\<close>).
  \<^item> \<open>Snprintf\<close>, \<open>Printf_Formats\<close>, \<open>Stringinfo\<close>: the server's \<open>snprintf\<close>
    (\<^verbatim>\<open>port/snprintf.c\<close>), a reference for what a format prints, and the string buffers
    (\<^verbatim>\<open>common/stringinfo.c\<close>, \<^verbatim>\<open>common/psprintf.c\<close>; locale \<open>appender\<close>, interpreted for every
    appending operation).
  \<^item> \<open>Spi\<close>, \<open>Catalog\<close>: the server programming interface with its connection stack, result
    variables and snapshots, and the catalog rows and queries of the two passes.
  \<^item> \<open>Gucs\<close>, \<open>Advisor\<close>, \<open>Lifecycle\<close>: the configuration variables and the two passes.
  \<^item> \<open>Worker\<close>: the worker's signal handlers, schedule, transactions and main loop (locale
    \<open>worker_invariant\<close>, interpreted as \<open>wfw\<close>, \<open>pidw\<close> and \<open>gucsw\<close>).
  \<^item> \<open>Bgworker\<close>, \<open>Postmaster\<close>: the registry of background workers
    (\<^verbatim>\<open>backend/postmaster/bgworker.c\<close>), and the start and restart of workers with the
    registration of the AutoIndex worker (\<^verbatim>\<open>backend/postmaster/postmaster.c\<close>).

  \<^bold>\<open>How state and code correspond.\<close> A C struct is a record with the fields the code uses, an
  enumeration a datatype, an integer a word of its width (read with \<^const>\<open>sint\<close> where it is
  signed), an array a list or, where a write behind the end must be visible, a function from
  offsets. A definition has the name of the function it translates; a loop or a branch that
  is a definition of its own is named after it. \<open>ereport(ERROR)\<close> is an \<^const>\<open>Inl\<close> result.
  Code outside the modelled files is an argument: the previous and the standard
  \<open>ExecutorEnd\<close>, the statements' effect on the database, the parser for other statements,
  the generated keyword hash, the collation, the clock, the C library's floating-point
  output and the allocator.

  \<^bold>\<open>What the lemmas show.\<close>

  \<^item> Capture: the entry holds exactly the first columns of each kind in the order of the plan
    (C8), the hook leaves the executor's result alone (C9), \<open>pull_var_clause\<close> returns exactly
    the variables of a clause (C27), the operations on lists do what they say of the sequence
    of elements (C25), and as long as its entry finds room in the ring, a query's columns are
    recorded by the next drain, each as far as the table has room for it (C3). For joins and
    sorts it finds no column at all (C37), and after a reinitialisation the hook calls itself
    without end (C17).
  \<^item> Ring: the queue contract (C11); in every interleaving positions stay in bounds and
    owned by one backend (C2); delivery in claim order in the runs in which the worker reads
    only slots whose copy is finished (C12), and a run in which the worker reads a slot that is not yet written (C35).
  \<^item> Statistics: the table is a map (C10), the drain records every use in order, each
    as far as the table has room for its column (C6), eviction removes
    exactly the stale entries (C28), the probe loops end (C29); removal can hide an entry of
    another column (C36).
  \<^item> Passes: the advisor pass refines a specification of what is created and what is left in
    the table (C1), candidates are the columns used often enough whose rent has reached
    the price, sorted (C7); the lifecycle pass drops the first unused index only (C13); the cap on indexes does not
    count those of the same pass (C40), a dropped table blocks the pass (C39), a failed pass
    loses statistics (C18).
  \<^item> Commands: what is formatted is what is meant (C19, C23, C24), it is scanned back to the
    names that were given, as far as they consist of letters, digits, underscores and dollar
    signs and fit (C20 to C22), except that a table name can inject a statement (C38);
    the pattern matcher decides the \<open>LIKE\<close> relation (C30) and the program's pattern accepts
    more names than it means (C31); numbers are read back as they were written (C32, C33).
  \<^item> Worker and postmaster: the worker's state is well-formed after every turn, also after
    a pass that failed or was cancelled (C4), the passes of a worker that is left in peace run
    when they are due, and only a due advisor pass drains the ring (C5), intervals do not
    overflow (C34), a termination request is not seen by the loop (C16), procedures leave
    the interface balanced (C26), the registry is consistent in every reachable state (C14), and a crashed worker is started again (C15).

  \<^bold>\<open>Bounds and fuel.\<close> The loops that the code bounds by a count recurse on that count. The
  probe loops of the table, which end when they are back at their start, have a fuel of
  \<open>ADVISOR_HASH_SIZE\<close> turns, one for every slot, and C29 shows that it does not run out. The
  recursion of the hooks, the retry loop of the formatted append and the doubling of a buffer are partial
  functions, with lemmas that say when they return. The interleavings of the ring are counted:
  below \<open>2 ^ 64\<close> steps no position can wrap around, which at one step per nanosecond is 500
  years.

  \<^bold>\<open>Not modelled.\<close> Parser, planner and executor beyond the two command forms and the plan
  nodes named above, storage, replication, the client tools and the procedural
  languages: AutoIndex runs on top of them and sees them through the interfaces above. Of the
  partly modelled files the rest is code that AutoIndex does not reach: other tokens and
  statements in the scanner, prepared plans and cursors of the interface, the encodings other
  than single-byte and UTF-8 in \<open>LIKE\<close>, output to streams in \<^verbatim>\<open>snprintf.c\<close>, sorting in
  \<^verbatim>\<open>list.c\<close>, and the postmaster's other children. Log messages are left out. Transactions
  are modelled by their effect on the session: a commit keeps the changes, an abort undoes
  them, both end with no snapshot, connection or transaction; no other backend commits
  while a pass runs. The configuration machinery (\<^verbatim>\<open>guc.c\<close>) is represented by its rule
  that a value out of bounds is refused, at registration and on a reload. The ring is modelled under
  sequential consistency, with the copy into the slot as one step. That is an assumption:
  the compare-and-exchange is a full barrier, but the plain atomic reads and writes are
  documented to have no barrier semantics, so a machine with weaker ordering has further
  runs, of which C2 and C12 say nothing.
\<close>

subsection \<open>From a query to the advisor's table\<close>











subsection \<open>From names to command texts\<close>

text \<open>The two formats with which the passes build their commands, and their arguments.\<close>

definition str_arg :: "uint64 \<Rightarrow> string \<Rightarrow> fmt_conv" where
  "str_arg a s = Conv plain [] CHR ''s'' (ArgCharPtr a s)"

lemma str_arg_simps [simp]:
  "conv_text (str_arg a s) = ''%s''" "conv_args (str_arg a s) = [ArgCharPtr a s]"
  "a \<noteq> 0 \<Longrightarrow> conv_out (str_arg a s) = s" "a \<noteq> 0 \<Longrightarrow> conv_ok (str_arg a s) \<longleftrightarrow> length s < 2 ^ 31"
  by (simp_all add: str_arg_def plain_def flags_text_def padded_def str_text_def conv_arg_type_def)

lemma length_quote_identifier: "length (quote_identifier hash qa s) \<le> 2 * length s + 2"
proof -
  have "length (double_quotes s) \<le> 2 * length s" by (induction s) auto
  then show ?thesis by (cases rule: quote_identifier_cases [of hash qa s]) auto
qed

lemma quote_identifier_no_NUL: "CHR 0x00 \<notin> set s \<Longrightarrow> CHR 0x00 \<notin> set (quote_identifier hash qa s)"
  using set_quote_identifier [of hash qa s] by auto

text \<open>Formatting a short text into a new buffer gives the text as a C string.\<close>

lemma new_buffer_formats:
  assumes "allocates alloc" and "fmt_ok segs rest" and "length (fmt_out segs rest) < 1000000"
    and "CHR 0x00 \<notin> set (fmt_out segs rest)"
  shows "\<exists>str str'. initStringInfo alloc = Inr str \<and>
    appendStringInfo alloc c (fmt_text segs rest) (fmt_args segs) str = Some (Inr str') \<and>
    c_string str' = fmt_out segs rest"
proof -
  obtain str where str: "initStringInfo alloc = Inr str" "wf_stringinfo str" "contents str = []"
    using wf_init [OF assms(1), of 1024] by (auto simp: initStringInfo_def STRINGINFO_DEFAULT_SIZE_def)
  have "unat (si_len str) = 0" using length_contents [of str] str(3) by simp
  with append_formats [OF str(2) assms(1,2), of c "[]"] assms(3) str(3) obtain str' where
    "appendStringInfo alloc c (fmt_text segs rest) (fmt_args segs) str = Some (Inr str')"
    "wf_stringinfo str'" "contents str' = fmt_out segs rest" by auto
  with str(1) c_string_contents [of str'] assms(4) show ?thesis by auto
qed

lemmas format_defs = fmt_ok_def fmt_text_def fmt_args_def fmt_out_def seg_text_def seg_out_def literal_ok_def

text \<open>
  C19: The commands that the passes hand to the server programming interface are the
  ones that the development reasons about. For names as the catalog stores them, the
  formatted append of the program's own format string and arguments into a new buffer
  returns, and the buffer then holds, as a C string, the creation command of the
  advisor and the drop command of the lifecycle pass.
\<close>

theorem commands_are_formatted:
  assumes "allocates alloc" and "0 \<notin> {a, b, d, e}"
    and "length name1 < NAMEDATALEN" "length name2 < NAMEDATALEN" "CHR 0x00 \<notin> set (name1 @ name2)"
  shows "(\<exists>str str'. initStringInfo alloc = Inr str \<and>
      appendStringInfo alloc c ''CREATE INDEX IF NOT EXISTS autoindex_%s_%s ON %s (%s)''
        [ArgCharPtr a name1, ArgCharPtr b name2, ArgCharPtr d (quote_identifier hash qa name1),
         ArgCharPtr e (quote_identifier hash qa name2)] str = Some (Inr str') \<and>
      c_string str' = create_index_command hash qa name1 name2) \<and>
    (\<exists>str str'. initStringInfo alloc = Inr str \<and>
      appendStringInfo alloc c ''DROP INDEX IF EXISTS %s.%s''
        [ArgCharPtr d (quote_identifier hash qa name1), ArgCharPtr e (quote_identifier hash qa name2)] str = Some (Inr str') \<and>
      c_string str' = drop_index_command hash qa name1 name2)"
proof
  let ?q1 = "quote_identifier hash qa name1" and ?q2 = "quote_identifier hash qa name2"
  have len: "length ?q1 < 130" "length ?q2 < 130" "length name1 < 64" "length name2 < 64"
    using length_quote_identifier [of hash qa name1] length_quote_identifier [of hash qa name2] assms(3,4)
    by (simp_all add: NAMEDATALEN_def)
  have nul: "CHR 0x00 \<notin> set ?q1" "CHR 0x00 \<notin> set ?q2" "CHR 0x00 \<notin> set name1" "CHR 0x00 \<notin> set name2"
    using quote_identifier_no_NUL assms(5) by auto
  let ?create = "[(''CREATE INDEX IF NOT EXISTS autoindex_'', str_arg a name1), (''_'', str_arg b name2),
      ('' ON '', str_arg d ?q1), ('' ('', str_arg e ?q2)]"
  let ?drop = "[(''DROP INDEX IF EXISTS '', str_arg d ?q1), (''.'', str_arg e ?q2)]"
  have "fmt_ok ?create '')''" "fmt_out ?create '')'' = create_index_command hash qa name1 name2"
    "CHR 0x00 \<notin> set (fmt_out ?create '')'')" "length (fmt_out ?create '')'') < 1000000"
    using assms(2) len nul by (simp_all add: format_defs create_index_command_def)
  with new_buffer_formats [OF assms(1), of ?create "'')''" c]
  show "\<exists>str str'. initStringInfo alloc = Inr str \<and>
      appendStringInfo alloc c ''CREATE INDEX IF NOT EXISTS autoindex_%s_%s ON %s (%s)''
        [ArgCharPtr a name1, ArgCharPtr b name2, ArgCharPtr d ?q1, ArgCharPtr e ?q2] str = Some (Inr str') \<and>
      c_string str' = create_index_command hash qa name1 name2"
    by (simp add: fmt_text_def fmt_args_def seg_text_def)
  have "fmt_ok ?drop []" "fmt_out ?drop [] = drop_index_command hash qa name1 name2"
    "CHR 0x00 \<notin> set (fmt_out ?drop [])" "length (fmt_out ?drop []) < 1000000"
    using assms(2) len nul by (simp_all add: format_defs drop_index_command_def)
  with new_buffer_formats [OF assms(1), of ?drop "[]" c]
  show "\<exists>str str'. initStringInfo alloc = Inr str \<and>
      appendStringInfo alloc c ''DROP INDEX IF EXISTS %s.%s'' [ArgCharPtr d ?q1, ArgCharPtr e ?q2] str = Some (Inr str') \<and>
      c_string str' = drop_index_command hash qa name1 name2"
    by (simp add: fmt_text_def fmt_args_def seg_text_def)
qed

theorem commands_are_formatted_witness:
  "\<exists>str str'. initStringInfo sample_alloc = Inr str \<and>
     appendStringInfo sample_alloc sample_libc ''DROP INDEX IF EXISTS %s.%s''
       [ArgCharPtr 3 (quote_identifier (\<lambda>_. 0) True ''a''), ArgCharPtr 4 (quote_identifier (\<lambda>_. 0) True ''b'')] str = Some (Inr str') \<and>
     c_string str' = drop_index_command (\<lambda>_. 0) True ''a'' ''b''"
  using commands_are_formatted [OF sample_allocates, of 1 2 3 4 "''a''" "''b''"] by (simp add: NAMEDATALEN_def)

end
